(* ===== verification/Prelude.thy ===== *)
theory Prelude
  imports Main "HOL-Library.Word" "HOL-Library.Monad_Syntax"
begin

text \<open>
  Shared vocabulary of the development: the machine integer types of the kernel sources,
  kernel assertions as a failing computation, error numbers, and generic lemmas on lists
  and words used by several components.
\<close>

unbundle bit_operations_syntax

section \<open>Machine integers\<close>

type_synonym u8 = "8 word"
type_synonym u32 = "32 word"
type_synonym u64 = "64 word"

text \<open>The largest file offset, \<^verbatim>\<open>OBD_OBJECT_EOF\<close> of \<^verbatim>\<open>include/uapi/linux/lustre/lustre_idl.h\<close>.\<close>

definition OBD_OBJECT_EOF :: u64 where
  "OBD_OBJECT_EOF = 0xffffffffffffffff"

lemma OBD_OBJECT_EOF_minus_1: "OBD_OBJECT_EOF = - 1"
  by (simp add: OBD_OBJECT_EOF_def)

lemma OBD_OBJECT_EOF_max [simp]: "x \<le> OBD_OBJECT_EOF"
  by (simp add: OBD_OBJECT_EOF_minus_1 word_n1_ge)

subsection \<open>Words as numbers\<close>

lemma unat_u64: "unat (x :: u64) < 2 ^ 64"
  using unsigned_less [of x] by simp

lemma unat_u32: "unat (x :: u32) < 2 ^ 32"
  using unsigned_less [of x] by simp

lemma unat_ucast_u32: "unat (ucast (x :: u32) :: u64) = unat x"
  using unat_u32 [of x] by (simp add: unsigned_ucast_eq take_bit_nat_eq_self_iff)

lemma unat_add_u64: "unat (a :: u64) + unat b < 2 ^ 63 \<Longrightarrow> unat (a + b) = unat a + unat b"
  using unat_add_lem [of a b] by simp

lemma unat_diff_u64: "b \<le> a \<Longrightarrow> unat (a - b) + unat b = unat (a :: u64)"
  using unat_sub [of b a] by (simp add: word_le_nat_alt)

lemma unat_of_nat_small: "n < 2 ^ 64 \<Longrightarrow> unat (of_nat n :: u64) = n"
  by (simp add: unsigned_of_nat take_bit_nat_eq_self_iff)

lemma div_of_nat: "0 < m \<Longrightarrow> m < 2 ^ 64 \<Longrightarrow> (x :: u64) div of_nat m = of_nat (unat x div m)"
  by (simp add: word_arith_nat_div unat_of_nat_small)

lemma mod_of_nat: "0 < m \<Longrightarrow> m < 2 ^ 64 \<Longrightarrow> (x :: u64) mod of_nat m = of_nat (unat x mod m)"
  by (simp add: word_arith_nat_mod unat_of_nat_small)

lemma of_nat_less_u64: "m < 2 ^ 64 \<Longrightarrow> n < 2 ^ 64 \<Longrightarrow> (of_nat m :: u64) < of_nat n \<longleftrightarrow> m < n"
  by (simp add: word_less_nat_alt unat_of_nat_small)

lemma drop_bit_mono_u64: "x \<le> y \<Longrightarrow> drop_bit n x \<le> drop_bit n (y :: u64)"
  unfolding word_le_nat_alt unat_drop_bit_eq by (simp add: drop_bit_eq_div div_le_mono)

section \<open>Assertions\<close>

text \<open>
  \<^verbatim>\<open>LASSERT\<close> and \<^verbatim>\<open>LBUG\<close> stop the node. An operation that can reach one returns an
  \<^typ>\<open>'a option\<close> whose \<^term>\<open>None\<close> is that stop, and nothing else.
\<close>

definition LASSERT :: "bool \<Rightarrow> unit option" where
  "LASSERT b = (if b then Some () else None)"

lemma LASSERT_simps [simp]: "LASSERT True = Some ()" "LASSERT False = None"
  by (simp_all add: LASSERT_def)

lemma LASSERT_bind [simp]: "(LASSERT b \<bind> f = Some y) = (b \<and> f () = Some y)"
  by (simp add: LASSERT_def)

lemma LASSERT_eq_Some: "LASSERT b = Some u \<longleftrightarrow> b"
  by (simp add: LASSERT_def)

lemma LASSERT_bind_True: "b \<Longrightarrow> LASSERT b \<bind> f = f ()"
  by (simp add: LASSERT_def)

section \<open>Error numbers\<close>

definition ENOENT :: int where "ENOENT = 2"
definition EINTR :: int where "EINTR = 4"
definition EIO :: int where "EIO = 5"
definition EAGAIN :: int where "EAGAIN = 11"
definition ENOMEM :: int where "ENOMEM = 12"
definition EFAULT :: int where "EFAULT = 14"
definition EEXIST :: int where "EEXIST = 17"
definition ENODEV :: int where "ENODEV = 19"
definition EINVAL :: int where "EINVAL = 22"
definition ENOSPC :: int where "ENOSPC = 28"
definition EROFS :: int where "EROFS = 30"
definition ERANGE :: int where "ERANGE = 34"
definition EDEADLK :: int where "EDEADLK = 35"
definition ENODATA :: int where "ENODATA = 61"
definition EPROTO :: int where "EPROTO = 71"
definition ESHUTDOWN :: int where "ESHUTDOWN = 108"
definition EINPROGRESS :: int where "EINPROGRESS = 115"
definition ENOTSUPP :: int where "ENOTSUPP = 524"

lemmas errno_defs = ENOENT_def EINTR_def EIO_def ERANGE_def ESHUTDOWN_def ENOTSUPP_def EAGAIN_def ENOMEM_def EFAULT_def EEXIST_def ENODEV_def
  EINVAL_def ENOSPC_def EROFS_def EDEADLK_def ENODATA_def EPROTO_def EINPROGRESS_def

section \<open>Lists of objects with an address\<close>

lemma length_filter_addr:
  assumes "distinct (map f xs)" and "p \<in> f ` set xs"
  shows "Suc (length (filter (\<lambda>x. f x \<noteq> p) xs)) = length xs"
  using assms
proof (induction xs)
  case (Cons a xs)
  show ?case
  proof (cases "f a = p")
    case True
    then have "filter (\<lambda>x. f x \<noteq> p) xs = xs" 
      using Cons.prems(1) by (auto simp: filter_id_conv) (metis imageI)
    with True show ?thesis by simp
  qed (use Cons in auto)
qed simp

end
