(* ===== verification/Seq_Range.thy ===== *)
theory Seq_Range
  imports Prelude
begin

text \<open>
  Sequence ranges (\<^verbatim>\<open>struct lu_seq_range\<close> and \<^verbatim>\<open>lustre/include/seq_range.h\<close>): half-open
  intervals of 64-bit sequence numbers with a home target index and a type.
\<close>

record lu_seq_range =
  lsr_start :: u64
  lsr_end :: u64
  lsr_index :: u32
  lsr_flags :: u32

definition LU_SEQ_RANGE_MDT :: u32 where "LU_SEQ_RANGE_MDT = 0x0"
definition LU_SEQ_RANGE_OST :: u32 where "LU_SEQ_RANGE_OST = 0x1"
definition LU_SEQ_RANGE_ANY :: u32 where "LU_SEQ_RANGE_ANY = 0x3"
definition LU_SEQ_RANGE_MASK :: u32 where "LU_SEQ_RANGE_MASK = 0x3"

definition fld_range_type :: "lu_seq_range \<Rightarrow> u32" where
  "fld_range_type r = lsr_flags r AND LU_SEQ_RANGE_MASK"

definition fld_range_is_ost :: "lu_seq_range \<Rightarrow> bool" where
  "fld_range_is_ost r \<longleftrightarrow> fld_range_type r = LU_SEQ_RANGE_OST"

definition fld_range_is_mdt :: "lu_seq_range \<Rightarrow> bool" where
  "fld_range_is_mdt r \<longleftrightarrow> fld_range_type r = LU_SEQ_RANGE_MDT"

definition fld_range_is_any :: "lu_seq_range \<Rightarrow> bool" where
  "fld_range_is_any r \<longleftrightarrow> fld_range_type r = LU_SEQ_RANGE_ANY"

definition fld_range_set_type :: "lu_seq_range \<Rightarrow> u32 \<Rightarrow> lu_seq_range" where
  "fld_range_set_type r flags = r\<lparr>lsr_flags := lsr_flags r OR flags\<rparr>"

definition fld_range_set_mdt :: "lu_seq_range \<Rightarrow> lu_seq_range" where
  "fld_range_set_mdt r = fld_range_set_type r LU_SEQ_RANGE_MDT"

definition fld_range_set_ost :: "lu_seq_range \<Rightarrow> lu_seq_range" where
  "fld_range_set_ost r = fld_range_set_type r LU_SEQ_RANGE_OST"

definition fld_range_set_any :: "lu_seq_range \<Rightarrow> lu_seq_range" where
  "fld_range_set_any r = fld_range_set_type r LU_SEQ_RANGE_ANY"

definition lu_seq_range_space :: "lu_seq_range \<Rightarrow> u64" where
  "lu_seq_range_space r = lsr_end r - lsr_start r"

definition lu_seq_range_init :: lu_seq_range where
  "lu_seq_range_init = \<lparr>lsr_start = 0, lsr_end = 0, lsr_index = 0, lsr_flags = 0\<rparr>"

definition lu_seq_range_within :: "lu_seq_range \<Rightarrow> u64 \<Rightarrow> bool" where
  "lu_seq_range_within r seq \<longleftrightarrow> lsr_start r \<le> seq \<and> seq < lsr_end r"

definition lu_seq_range_is_sane :: "lu_seq_range \<Rightarrow> bool" where
  "lu_seq_range_is_sane r \<longleftrightarrow> lsr_start r \<le> lsr_end r"

definition lu_seq_range_is_zero :: "lu_seq_range \<Rightarrow> bool" where
  "lu_seq_range_is_zero r \<longleftrightarrow> lsr_start r = 0 \<and> lsr_end r = 0"

definition lu_seq_range_is_exhausted :: "lu_seq_range \<Rightarrow> bool" where
  "lu_seq_range_is_exhausted r \<longleftrightarrow> lu_seq_range_space r = 0"

definition lu_seq_range_compare_loc :: "lu_seq_range \<Rightarrow> lu_seq_range \<Rightarrow> bool" where
  "lu_seq_range_compare_loc r1 r2 \<longleftrightarrow>
     lsr_index r1 \<noteq> lsr_index r2 \<or> lsr_flags r1 \<noteq> lsr_flags r2"

section \<open>Facts about ranges\<close>

lemma exhausted_iff: "lu_seq_range_is_exhausted r \<longleftrightarrow> lsr_start r = lsr_end r"
  by (auto simp: lu_seq_range_is_exhausted_def lu_seq_range_space_def)

text \<open>The width of a sane range is the number of sequences in it, without wrap-around.\<close>

lemma unat_space:
  "lu_seq_range_is_sane r \<Longrightarrow>
     unat (lu_seq_range_space r) = unat (lsr_end r) - unat (lsr_start r)"
  by (simp add: lu_seq_range_space_def lu_seq_range_is_sane_def unat_sub)

end
