(* ===== verification/Fld_Cache.thy ===== *)
theory Fld_Cache
  imports Seq_Range
begin

text \<open>
  The FLD cache (\<^verbatim>\<open>lustre/fld/fld_cache.c\<close>): the client-side and server-side cache that maps
  sequence numbers to the target that owns them, as a list of ranges sorted by start.
  A cache entry is on two lists, the sorted list and the LRU list; an entry is identified
  by its address, here a \<^typ>\<open>nat\<close>. The addresses returned by the allocator are arguments.
\<close>

record fld_cache_entry =
  fce_ptr :: nat
  fce_range :: lu_seq_range

record fld_stats =
  fst_count :: u64
  fst_cache :: u64

record fld_cache =
  fci_threshold :: int
  fci_cache_size :: int
  fci_cache_count :: int
  fci_lru :: "nat list"
  fci_entries_head :: "fld_cache_entry list"
  fci_stat :: fld_stats
  fci_name :: string

text \<open>\<^verbatim>\<open>strscpy\<close> copies at most 79 characters and the terminator into the 80 bytes of \<^verbatim>\<open>fci_name\<close>.\<close>

definition LUSTRE_MDT_MAXNAMELEN :: nat where "LUSTRE_MDT_MAXNAMELEN = 80"

definition fld_cache_init ::
  "bool \<Rightarrow> string option \<Rightarrow> int \<Rightarrow> int \<Rightarrow> (int + fld_cache) option" where
  "fld_cache_init alloc name cache_size cache_threshold =
     do { LASSERT (name \<noteq> None);
          LASSERT (cache_threshold < cache_size);
          Some (if \<not> alloc then Inl (- ENOMEM)
            else Inr \<lparr>fci_threshold = cache_threshold, fci_cache_size = cache_size,
                 fci_cache_count = 0, fci_lru = [], fci_entries_head = [],
                 fci_stat = \<lparr>fst_count = 0, fst_cache = 0\<rparr>,
                 fci_name = take (LUSTRE_MDT_MAXNAMELEN - 1) (the name)\<rparr>) }"

definition fld_cache_entry_delete :: "fld_cache \<Rightarrow> nat \<Rightarrow> fld_cache" where
  "fld_cache_entry_delete cache node =
     cache\<lparr>fci_entries_head := filter (\<lambda>e. fce_ptr e \<noteq> node) (fci_entries_head cache),
           fci_lru := filter (\<lambda>p. p \<noteq> node) (fci_lru cache),
           fci_cache_count := fci_cache_count cache - 1\<rparr>"

text \<open>
  One pass of the loop of \<^verbatim>\<open>fld_fix_new_list\<close> from the entry \<^verbatim>\<open>f_curr\<close> on: the list argument is
  the part of the sorted list the loop has not passed. The result says whether the loop
  left through \<^verbatim>\<open>goto restart_fixup\<close>, with the cache after the deletions and the list as the
  pass has rewritten it.
\<close>

fun fld_fix_pass ::
  "fld_cache \<Rightarrow> fld_cache_entry list \<Rightarrow> (bool \<times> fld_cache \<times> fld_cache_entry list) option" where
  "fld_fix_pass cache [] = Some (False, cache, [])"
| "fld_fix_pass cache [f_curr] =
     do { LASSERT (lu_seq_range_is_sane (fce_range f_curr));
          Some (False, cache, [f_curr]) }"
| "fld_fix_pass cache (f_curr # f_next # rest) =
     (let c_range = fce_range f_curr; n_range = fce_range f_next;
          skip = map_option (\<lambda>(r, c, l). (r, c, f_curr # l)) (fld_fix_pass cache (f_next # rest))
      in do { LASSERT (lu_seq_range_is_sane c_range);
              if lsr_flags c_range \<noteq> lsr_flags n_range then skip
              else do {
                LASSERT (lsr_start c_range \<le> lsr_start n_range);
                if lsr_end c_range = lsr_start n_range then
                  (if lsr_index c_range \<noteq> lsr_index n_range then skip
                   else fld_fix_pass (fld_cache_entry_delete cache (fce_ptr f_curr))
                          (f_next\<lparr>fce_range := n_range\<lparr>lsr_start := lsr_start c_range\<rparr>\<rparr> # rest))
                else if lsr_start n_range < lsr_end c_range then
                  Some (if lsr_index c_range = lsr_index n_range then
                      (True, fld_cache_entry_delete cache (fce_ptr f_curr),
                       f_next\<lparr>fce_range := n_range\<lparr>lsr_start := lsr_start c_range,
                         lsr_end := max (lsr_end c_range) (lsr_end n_range)\<rparr>\<rparr> # rest)
                    else if lsr_end n_range \<le> lsr_end c_range then
                      (True, fld_cache_entry_delete cache (fce_ptr f_curr),
                       f_next\<lparr>fce_range := c_range\<rparr> # rest)
                    else (True, cache,
                       f_curr # f_next\<lparr>fce_range := n_range\<lparr>lsr_start := lsr_end c_range\<rparr>\<rparr> # rest))
                else if lsr_start c_range = lsr_start n_range \<and> lsr_end c_range = lsr_end n_range then
                  fld_fix_pass (fld_cache_entry_delete cache (fce_ptr f_curr)) (f_next # rest)
                else skip } })"

section \<open>The fix-up loop ends\<close>

abbreviation e_start :: "fld_cache_entry \<Rightarrow> u64" where "e_start e \<equiv> lsr_start (fce_range e)"
abbreviation e_end :: "fld_cache_entry \<Rightarrow> u64" where "e_end e \<equiv> lsr_end (fce_range e)"
abbreviation e_index :: "fld_cache_entry \<Rightarrow> u32" where "e_index e \<equiv> lsr_index (fce_range e)"
abbreviation e_flags :: "fld_cache_entry \<Rightarrow> u32" where "e_flags e \<equiv> lsr_flags (fce_range e)"

abbreviation nonempty :: "fld_cache_entry \<Rightarrow> bool" where "nonempty e \<equiv> e_start e < e_end e"

definition mergeable :: "fld_cache_entry \<Rightarrow> fld_cache_entry \<Rightarrow> bool" where
  "mergeable a b \<longleftrightarrow> e_flags a = e_flags b \<and> e_index a = e_index b \<and> e_end a = e_start b"

text \<open>What one iteration of the loop can do, as a case rule.\<close>

lemma fld_fix_pass_iter [consumes 1, case_names skip merge dup join cover trim]:
  assumes "fld_fix_pass c (e # n # rest) = Some (r, c', es')"
  obtains l where "fld_fix_pass c (n # rest) = Some (r, c', l)" "es' = e # l"
  | "mergeable e n" "fld_fix_pass (fld_cache_entry_delete c (fce_ptr e))
        (n\<lparr>fce_range := (fce_range n)\<lparr>lsr_start := e_start e\<rparr>\<rparr> # rest) = Some (r, c', es')"
  | "e_start e = e_start n" "e_end e \<le> e_start n"
      "fld_fix_pass (fld_cache_entry_delete c (fce_ptr e)) (n # rest) = Some (r, c', es')"
  | "r" "e_flags e = e_flags n" "e_index e = e_index n" "e_start e \<le> e_start n"
      "e_start n < e_end e" "c' = fld_cache_entry_delete c (fce_ptr e)"
      "es' = n\<lparr>fce_range := (fce_range n)\<lparr>lsr_start := e_start e,
                lsr_end := max (e_end e) (e_end n)\<rparr>\<rparr> # rest"
  | "r" "e_flags e = e_flags n" "e_start e \<le> e_start n" "e_end n \<le> e_end e"
      "c' = fld_cache_entry_delete c (fce_ptr e)" "es' = n\<lparr>fce_range := fce_range e\<rparr> # rest"
  | "r" "e_flags e = e_flags n" "e_start e \<le> e_start n" "e_start n < e_end e" "e_end e < e_end n"
      "c' = c" "es' = e # n\<lparr>fce_range := (fce_range n)\<lparr>lsr_start := e_end e\<rparr>\<rparr> # rest"
  using assms
  by (auto simp: Let_def mergeable_def not_le not_less split: if_splits)

text \<open>
  The restart loop ends: a pass that restarts has deleted an entry, or has shortened one.
\<close>

definition range_width :: "lu_seq_range \<Rightarrow> nat" where
  "range_width r = unat (lsr_end r) - unat (lsr_start r)"

definition total_width :: "fld_cache_entry list \<Rightarrow> nat" where
  "total_width es = sum_list (map (\<lambda>e. range_width (fce_range e)) es)"

lemma total_width_simps [simp]:
  "total_width [] = 0"
  "total_width (e # es) = range_width (fce_range e) + total_width es"
  by (simp_all add: total_width_def)


lemma fld_fix_pass_measure:
  "fld_fix_pass c es = Some (r, c', es') \<Longrightarrow>
     length es' < length es \<or> length es' = length es \<and>
       (if r then total_width es' < total_width es else total_width es' = total_width es)"
proof (induction "length es" arbitrary: c es r c' es' rule: less_induct)
  case less
  consider "es = []" | e where "es = [e]" | e n rest where "es = e # n # rest"
    by (metis list.exhaust)
  then show ?case
  proof cases
    case (3 e n rest)
    from less.prems [unfolded 3] show ?thesis
    proof (cases rule: fld_fix_pass_iter)
      case (skip l)
      with less.hyps [of "n # rest", OF _ skip(1)] 3 show ?thesis by (auto split: if_splits)
    next
      case merge
      with less.hyps [OF _ merge(2)] 3 show ?thesis by (auto split: if_splits)
    next
      case dup
      with less.hyps [OF _ dup(3)] 3 show ?thesis by (auto split: if_splits)
    next
      case trim
      then show ?thesis using 3 by (simp add: range_width_def word_less_nat_alt diff_less_mono2)
    qed (simp_all add: 3)
  qed (use less.prems in auto)
qed

function fld_fix_new_list :: "fld_cache \<Rightarrow> fld_cache option" where
  "fld_fix_new_list cache =
     (case fld_fix_pass cache (fci_entries_head cache) of
        None \<Rightarrow> None
      | Some (restart, cache', es) \<Rightarrow>
          (if restart then fld_fix_new_list (cache'\<lparr>fci_entries_head := es\<rparr>)
           else Some (cache'\<lparr>fci_entries_head := es\<rparr>)))"
  by pat_completeness auto
termination
  by (relation "measures [\<lambda>c. length (fci_entries_head c), \<lambda>c. total_width (fci_entries_head c)]")
    (auto dest: fld_fix_pass_measure)

declare fld_fix_new_list.simps [simp del]

text \<open>
  \<^verbatim>\<open>list_add\<close> of the kernel puts an entry behind a position: behind the list head, which is
  \<^term>\<open>None\<close> here, or behind an entry of the list.
\<close>

fun list_add :: "fld_cache_entry \<Rightarrow> nat option \<Rightarrow> fld_cache_entry list \<Rightarrow> fld_cache_entry list" where
  "list_add f_new None es = f_new # es"
| "list_add f_new (Some p) [] = []"
| "list_add f_new (Some p) (e # es) =
     (if fce_ptr e = p then e # f_new # es else e # list_add f_new (Some p) es)"

text \<open>The position in front of an entry, \<^verbatim>\<open>f_curr->fce_list.prev\<close>.\<close>

fun list_prev :: "nat option \<Rightarrow> nat \<Rightarrow> fld_cache_entry list \<Rightarrow> nat option" where
  "list_prev prev p [] = prev"
| "list_prev prev p (e # es) =
     (if fce_ptr e = p then prev else list_prev (Some (fce_ptr e)) p es)"

text \<open>An assignment to the range of the entry at an address.\<close>

definition set_range ::
  "nat \<Rightarrow> (lu_seq_range \<Rightarrow> lu_seq_range) \<Rightarrow> fld_cache \<Rightarrow> fld_cache" where
  "set_range p f cache = cache\<lparr>fci_entries_head :=
     map (\<lambda>e. if fce_ptr e = p then e\<lparr>fce_range := f (fce_range e)\<rparr> else e) (fci_entries_head cache)\<rparr>"

definition fld_cache_entry_add ::
  "fld_cache \<Rightarrow> fld_cache_entry \<Rightarrow> nat option \<Rightarrow> fld_cache option" where
  "fld_cache_entry_add cache f_new pos =
     fld_fix_new_list (cache\<lparr>fci_entries_head := list_add f_new pos (fci_entries_head cache),
       fci_lru := fce_ptr f_new # fci_lru cache,
       fci_cache_count := fci_cache_count cache + 1\<rparr>)"

function fld_cache_shrink_loop :: "fld_cache \<Rightarrow> fld_cache" where
  "fld_cache_shrink_loop cache =
     (if fci_cache_count cache + fci_threshold cache > fci_cache_size cache \<and> fci_lru cache \<noteq> []
      then fld_cache_shrink_loop (fld_cache_entry_delete cache (last (fci_lru cache)))
      else cache)"
  by pat_completeness auto
termination
  by (relation "measure (\<lambda>c. length (fci_lru c))")
    (auto simp: fld_cache_entry_delete_def intro!: length_filter_less [OF last_in_set])

declare fld_cache_shrink_loop.simps [simp del]

definition fld_cache_shrink :: "fld_cache \<Rightarrow> fld_cache" where
  "fld_cache_shrink cache =
     (if fci_cache_count cache < fci_cache_size cache then cache else fld_cache_shrink_loop cache)"

definition fld_cache_flush :: "fld_cache \<Rightarrow> fld_cache" where
  "fld_cache_flush cache = fld_cache_shrink (cache\<lparr>fci_cache_size := 0\<rparr>)"

text \<open>
  \<^verbatim>\<open>fldt\<close> is the address the allocator returns, \<^term>\<open>None\<close> where it fails. The allocation is
  zeroed and the code sets start, end and index of its range, so its flags stay 0.
\<close>

definition fld_cache_punch_hole ::
  "nat option \<Rightarrow> fld_cache \<Rightarrow> fld_cache_entry \<Rightarrow> fld_cache_entry \<Rightarrow> fld_cache option" where
  "fld_cache_punch_hole fldt cache f_curr f_new =
     (case fldt of
        None \<Rightarrow> Some cache
      | Some p \<Rightarrow>
          (let new_start = lsr_start (fce_range f_new); new_end = lsr_end (fce_range f_new);
               t = \<lparr>fce_ptr = p, fce_range =
                     \<lparr>lsr_start = new_end, lsr_end = lsr_end (fce_range f_curr),
                      lsr_index = lsr_index (fce_range f_curr), lsr_flags = 0\<rparr>\<rparr>
           in do { cache1 \<leftarrow> fld_cache_entry_add
                     (set_range (fce_ptr f_curr) (\<lambda>r. r\<lparr>lsr_end := new_start\<rparr>) cache)
                     f_new (Some (fce_ptr f_curr));
                   fld_cache_entry_add cache1 t (Some (fce_ptr f_new)) }))"

definition fld_cache_overlap_handle ::
  "nat option \<Rightarrow> fld_cache \<Rightarrow> fld_cache_entry \<Rightarrow> fld_cache_entry \<Rightarrow> fld_cache option" where
  "fld_cache_overlap_handle fldt cache f_curr f_new =
     (let rng = fce_range f_new;
          new_start = lsr_start rng; new_end = lsr_end rng; mdt = lsr_index rng;
          c_range = fce_range f_curr
      in if lsr_index c_range = mdt then
           fld_fix_new_list (set_range (fce_ptr f_curr)
             (\<lambda>r. r\<lparr>lsr_start := min (lsr_start r) new_start, lsr_end := max (lsr_end r) new_end\<rparr>) cache)
         else if new_start \<le> lsr_start c_range \<and> lsr_end c_range \<le> new_end then
           fld_fix_new_list (set_range (fce_ptr f_curr) (\<lambda>r. rng) cache)
         else if lsr_start c_range < new_start \<and> new_end < lsr_end c_range then
           fld_cache_punch_hole fldt cache f_curr f_new
         else if new_end \<le> lsr_end c_range then
           do { LASSERT (new_start \<le> lsr_start c_range);
                fld_cache_entry_add
                  (set_range (fce_ptr f_curr) (\<lambda>r. r\<lparr>lsr_start := new_end\<rparr>) cache) f_new
                  (list_prev None (fce_ptr f_curr) (fci_entries_head cache)) }
         else if lsr_start c_range \<le> new_start then
           do { LASSERT (lsr_end c_range \<le> new_end);
                fld_cache_entry_add
                  (set_range (fce_ptr f_curr) (\<lambda>r. r\<lparr>lsr_end := new_start\<rparr>) cache) f_new
                  (Some (fce_ptr f_curr)) }
         else Some cache)"

text \<open>
  The search loop of \<^verbatim>\<open>fld_cache_insert_nolock\<close>: the entry the new range overlaps, or the
  position to insert at.
\<close>

fun fld_cache_insert_scan ::
  "lu_seq_range \<Rightarrow> nat option \<Rightarrow> fld_cache_entry list \<Rightarrow> nat option + fld_cache_entry" where
  "fld_cache_insert_scan new prev [] = Inl prev"
| "fld_cache_insert_scan new prev (f_curr # es) =
     (let r = fce_range f_curr in
      if lsr_end new < lsr_start r \<or> lsr_end new = lsr_start r \<and> lsr_flags new \<noteq> lsr_flags r
      then Inl prev
      else if lsr_start new < lsr_end r \<and> lsr_flags new = lsr_flags r then Inr f_curr
      else fld_cache_insert_scan new (Some (fce_ptr f_curr)) es)"

definition fld_cache_insert_nolock ::
  "nat option \<Rightarrow> fld_cache \<Rightarrow> fld_cache_entry \<Rightarrow> fld_cache option" where
  "fld_cache_insert_nolock fldt cache f_new =
     (let cache1 = fld_cache_shrink cache in
      case fld_cache_insert_scan (fce_range f_new) None (fci_entries_head cache1) of
        Inr f_curr \<Rightarrow> fld_cache_overlap_handle fldt cache1 f_curr f_new
      | Inl prev \<Rightarrow> fld_cache_entry_add cache1 f_new prev)"

definition fld_cache_entry_create ::
  "nat option \<Rightarrow> lu_seq_range \<Rightarrow> (int + fld_cache_entry) option" where
  "fld_cache_entry_create alloc rng =
     do { LASSERT (lu_seq_range_is_sane rng);
          Some (case alloc of None \<Rightarrow> Inl (- ENOMEM)
                | Some p \<Rightarrow> Inr \<lparr>fce_ptr = p, fce_range = rng\<rparr>) }"

definition fld_cache_insert ::
  "nat option \<Rightarrow> nat option \<Rightarrow> fld_cache \<Rightarrow> lu_seq_range \<Rightarrow> (int \<times> fld_cache) option" where
  "fld_cache_insert alloc fldt cache rng =
     do { flde \<leftarrow> fld_cache_entry_create alloc rng;
          (case flde of
             Inl rc \<Rightarrow> Some (rc, cache)
           | Inr f_new \<Rightarrow>
               map_option (\<lambda>cache'. (0, cache')) (fld_cache_insert_nolock fldt cache f_new)) }"

fun fld_cache_delete_scan :: "lu_seq_range \<Rightarrow> fld_cache_entry list \<Rightarrow> nat option" where
  "fld_cache_delete_scan rng [] = None"
| "fld_cache_delete_scan rng (flde # es) =
     (if lsr_start rng = lsr_start (fce_range flde) \<or>
         lsr_end rng = lsr_end (fce_range flde) \<and> lsr_flags rng = lsr_flags (fce_range flde)
      then Some (fce_ptr flde) else fld_cache_delete_scan rng es)"

definition fld_cache_delete_nolock :: "fld_cache \<Rightarrow> lu_seq_range \<Rightarrow> fld_cache" where
  "fld_cache_delete_nolock cache rng =
     (case fld_cache_delete_scan rng (fci_entries_head cache) of
        None \<Rightarrow> cache | Some p \<Rightarrow> fld_cache_entry_delete cache p)"

text \<open>
  The search of \<^verbatim>\<open>fld_cache_lookup\<close>: the entry that holds the sequence, or the last entry in
  front of it, which the code leaves in \<^verbatim>\<open>range\<close> where a later entry stops the search.
\<close>

fun fld_cache_lookup_scan ::
  "u64 \<Rightarrow> lu_seq_range option \<Rightarrow> fld_cache_entry list \<Rightarrow> lu_seq_range option + lu_seq_range" where
  "fld_cache_lookup_scan seq prev [] = Inl None"
| "fld_cache_lookup_scan seq prev (flde # es) =
     (if seq < lsr_start (fce_range flde) then Inl prev
      else if lu_seq_range_within (fce_range flde) seq then Inr (fce_range flde)
      else fld_cache_lookup_scan seq (Some (fce_range flde)) es)"

definition fld_cache_lookup ::
  "fld_cache \<Rightarrow> u64 \<Rightarrow> lu_seq_range \<Rightarrow> int \<times> lu_seq_range \<times> fld_cache" where
  "fld_cache_lookup cache seq rng =
     (let st = fci_stat cache;
          cache1 = cache\<lparr>fci_stat := st\<lparr>fst_count := fst_count st + 1\<rparr>\<rparr>
      in case fld_cache_lookup_scan seq None (fci_entries_head cache) of
           Inr r \<Rightarrow> (0, r, cache1\<lparr>fci_stat := (fci_stat cache1)\<lparr>fst_cache := fst_cache st + 1\<rparr>\<rparr>)
         | Inl (Some prev) \<Rightarrow> (- ENOENT, prev, cache1)
         | Inl None \<Rightarrow> (- ENOENT, rng, cache1))"

end
