(* ===== verification/Fld_Correct.thy ===== *)
theory Fld_Correct
  imports Fld_Cache
begin

text \<open>
  Correctness of the FLD cache. The abstract view of the sorted list is the owner function:
  for a range type and a sequence, the target index of the first entry that holds it.
  \<open>dj\<close> is the list invariant of the cache (non-empty ranges, in order, disjoint), \<open>okl\<close> the
  weaker shape the fix-up loop starts from: one entry may overlap entries behind it.
\<close>

fun fld_owner :: "fld_cache_entry list \<Rightarrow> u32 \<Rightarrow> u64 \<Rightarrow> u32 option" where
  "fld_owner [] f s = None"
| "fld_owner (e # es) f s =
     (if e_flags e = f \<and> lu_seq_range_within (fce_range e) s then Some (e_index e)
      else fld_owner es f s)"

definition dj :: "fld_cache_entry list \<Rightarrow> bool" where
  "dj es \<longleftrightarrow> sorted_wrt (\<lambda>a b. e_end a \<le> e_start b) es \<and> (\<forall>e\<in>set es. nonempty e)"

fun okl :: "fld_cache_entry list \<Rightarrow> bool" where
  "okl [] = True"
| "okl (e # es) = (nonempty e \<and>
     (okl es \<and> (\<forall>p\<in>set es. e_end e \<le> e_start p) \<or>
      dj es \<and> (\<forall>p\<in>set es. e_start e \<le> e_start p \<and> (e_flags p \<noteq> e_flags e \<longrightarrow> e_end e \<le> e_start p))))"

text \<open>No two neighbours are left that the fix-up loop would merge.\<close>

fun settled :: "fld_cache_entry list \<Rightarrow> bool" where
  "settled (a # b # es) = (\<not> mergeable a b \<and> settled (b # es))"
| "settled _ = True"

lemma dj_simps [simp]:
  "dj []" "dj (e # es) \<longleftrightarrow> nonempty e \<and> dj es \<and> (\<forall>p\<in>set es. e_end e \<le> e_start p)"
  by (auto simp: dj_def)

lemma dj_append:
  "dj (xs @ ys) \<longleftrightarrow> dj xs \<and> dj ys \<and> (\<forall>x\<in>set xs. \<forall>y\<in>set ys. e_end x \<le> e_start y)"
  by (induction xs) auto

lemma dj_okl: "dj es \<Longrightarrow> okl es"
  by (induction es) auto

lemma okl_append:
  "dj xs \<Longrightarrow> okl ys \<Longrightarrow> \<forall>x\<in>set xs. \<forall>y\<in>set ys. e_end x \<le> e_start y \<Longrightarrow> okl (xs @ ys)"
  by (induction xs) auto

lemma fld_owner_append:
  "fld_owner (xs @ ys) f s = (case fld_owner xs f s of None \<Rightarrow> fld_owner ys f s | Some i \<Rightarrow> Some i)"
  by (induction xs) auto

lemma okl_start_mono: "okl (e # es) \<Longrightarrow> p \<in> set es \<Longrightarrow> e_start e \<le> e_start p"
  by (fastforce dest: order.strict_implies_order intro: order_trans)

section \<open>The fix-up loop\<close>

lemma okl_first_next:
  assumes "okl (e # n # rest)" and "e_flags e \<noteq> e_flags n \<or> e_end e \<le> e_start n"
  shows "nonempty e \<and> okl (n # rest) \<and> (\<forall>p\<in>set (n # rest). e_end e \<le> e_start p)"
proof -
  have "nonempty e" "e_end e \<le> e_start n" "okl (n # rest)" using assms by (auto dest: dj_okl)
  then show ?thesis using okl_start_mono [of n rest] order_trans by auto
qed

text \<open>What a pass that leaves the list \<open>es'\<close> guarantees.\<close>

definition pass_post :: "fld_cache_entry list \<Rightarrow> bool \<Rightarrow> fld_cache_entry list \<Rightarrow> bool" where
  "pass_post es r es' \<longleftrightarrow> okl es' \<and> (\<not> r \<longrightarrow> dj es' \<and> settled es') \<and>
     (es \<noteq> [] \<longrightarrow> es' \<noteq> [] \<and> (\<not> r \<longrightarrow> e_start (hd es') = e_start (hd es) \<and>
         e_flags (hd es') = e_flags (hd es) \<and> e_index (hd es') = e_index (hd es))) \<and>
     (\<forall>p\<in>set es'. \<exists>q\<in>set es. e_start q \<le> e_start p)"

lemma pass_post_lower:
  "pass_post es r es' \<Longrightarrow> \<forall>e\<in>set es. b \<le> e_start e \<Longrightarrow> p \<in> set es' \<Longrightarrow> b \<le> e_start p"
  unfolding pass_post_def by (meson order_trans)

lemma pass_post_skip:
  assumes post: "pass_post (n # rest) r es'" and ne: "nonempty e"
    and lower: "\<forall>p\<in>set (n # rest). e_end e \<le> e_start p" and nm: "\<not> mergeable e n"
  shows "pass_post (e # n # rest) r (e # es')"
proof -
  have lb: "\<forall>p\<in>set es'. e_end e \<le> e_start p"
    using pass_post_lower [OF post lower] by blast
  have es': "es' \<noteq> []" and hd': "\<not> r \<Longrightarrow> e_start (hd es') = e_start n \<and>
      e_flags (hd es') = e_flags n \<and> e_index (hd es') = e_index n"
    and ok: "okl es'" "\<not> r \<Longrightarrow> dj es' \<and> settled es'"
    using post by (simp_all add: pass_post_def)
  have "settled (e # es')" if "\<not> r"
    using hd' [OF that] ok(2) [OF that] nm es' by (cases es') (simp_all add: mergeable_def)
  moreover have "\<forall>p\<in>set (e # es'). \<exists>q\<in>set (e # n # rest). e_start q \<le> e_start p"
    using post unfolding pass_post_def by (metis list.set_intros order_refl set_ConsD)
  ultimately show ?thesis
    using ne lb ok unfolding pass_post_def by auto
qed

lemma pass_post_merge:
  assumes "pass_post (n\<lparr>fce_range := (fce_range n)\<lparr>lsr_start := e_start e\<rparr>\<rparr> # rest) r es'"
    and "mergeable e n" and "nonempty e"
  shows "pass_post (e # n # rest) r es'"
  using assms by (auto simp: pass_post_def mergeable_def)

lemma okl_merge:
  assumes "okl (n # rest)" and "e_end e = e_start n" and "nonempty e"
  shows "okl (n\<lparr>fce_range := (fce_range n)\<lparr>lsr_start := e_start e\<rparr>\<rparr> # rest)"
  using assms by auto

text \<open>A pass succeeds, keeps the shape, and is complete when it does not restart.\<close>

lemma fld_fix_pass_ok:
  "okl es \<Longrightarrow> \<exists>r c' es'. fld_fix_pass c es = Some (r, c', es') \<and> pass_post es r es'"
proof (induction "length es" arbitrary: c es rule: less_induct)
  case less
  consider "es = []" | e where "es = [e]" | e n rest where "es = e # n # rest"
    by (metis list.exhaust)
  then show ?case
  proof cases
    case (3 e n rest)
    have sane: "lu_seq_range_is_sane (fce_range e)" and mono: "e_start e \<le> e_start n"
      using less.prems okl_start_mono [of e "n # rest" n] unfolding 3
      by (auto simp: lu_seq_range_is_sane_def)
    show ?thesis
    proof (cases "e_flags e \<noteq> e_flags n \<or> e_end e \<le> e_start n")
      case True
      note first = okl_first_next [OF less.prems [unfolded 3] True]
      show ?thesis
      proof (cases "mergeable e n")
        case merge: True
        let ?n = "n\<lparr>fce_range := (fce_range n)\<lparr>lsr_start := e_start e\<rparr>\<rparr>"
        have "okl (?n # rest)"
          using first merge by (intro okl_merge) (auto simp: mergeable_def)
        from less.hyps [OF _ this, of "fld_cache_entry_delete c (fce_ptr e)"] show ?thesis
          using merge first sane mono unfolding 3
          by (fastforce simp: mergeable_def Let_def dest: pass_post_merge)
      next
        case skip: False
        from less.hyps [of "n # rest" c] first obtain r c' es' where
          *: "fld_fix_pass c (n # rest) = Some (r, c', es')" "pass_post (n # rest) r es'"
          unfolding 3 by auto
        have "fld_fix_pass c es = Some (r, c', e # es')"
          using skip first True sane mono * unfolding 3
          by (auto simp: mergeable_def Let_def LASSERT_bind_True)
        with pass_post_skip [OF *(2), of e] first skip show ?thesis unfolding 3 by blast
      qed
    next
      case False
      then have d: "dj (n # rest)" "nonempty e" "e_flags e = e_flags n" "e_start n < e_end e"
        "\<forall>p\<in>set rest. e_start e \<le> e_start p \<and> (e_flags p \<noteq> e_flags e \<longrightarrow> e_end e \<le> e_start p)"
        using less.prems unfolding 3 by auto
      then show ?thesis
        using sane mono unfolding 3
        by (auto simp: Let_def LASSERT_bind_True pass_post_def max_def)
    qed
  qed (use less.prems in \<open>auto simp: pass_post_def lu_seq_range_is_sane_def\<close>)
qed


lemma okl_nonempty: "okl es \<Longrightarrow> e \<in> set es \<Longrightarrow> nonempty e"
  by (induction es) (auto simp: dj_def)

text \<open>A pass does not change who owns a sequence.\<close>

lemma fld_fix_pass_owner:
  "fld_fix_pass c es = Some (r, c', es') \<Longrightarrow> \<forall>e\<in>set es. nonempty e \<Longrightarrow>
     fld_owner es' f s = fld_owner es f s"
proof (induction "length es" arbitrary: c es r c' es' rule: less_induct)
  case less
  consider "es = []" | e where "es = [e]" | e n rest where "es = e # n # rest"
    by (metis list.exhaust)
  then show ?case
  proof cases
    case (3 e n rest)
    note ne = less.prems(2) [unfolded 3]
    from less.prems(1) [unfolded 3] show ?thesis
    proof (cases rule: fld_fix_pass_iter)
      case (skip l)
      with less.hyps [of "n # rest", OF _ skip(1)] ne 3 show ?thesis by simp
    next
      case merge
      let ?n = "n\<lparr>fce_range := (fce_range n)\<lparr>lsr_start := e_start e\<rparr>\<rparr>"
      have "fld_owner es' f s = fld_owner (?n # rest) f s"
        using less.hyps [OF _ merge(2)] ne merge(1) 3 by (auto simp: mergeable_def)
      also have "\<dots> = fld_owner (e # n # rest) f s"
        using ne merge(1) by (auto simp: mergeable_def lu_seq_range_within_def)
      finally show ?thesis using 3 by simp
    next
      case dup
      with ne show ?thesis by auto
    qed (use ne 3 in \<open>auto simp: lu_seq_range_within_def max_def\<close>)
  qed (use less.prems in auto)
qed

text \<open>
  The bookkeeping of a pass: the entries it drops are the ones it takes off the LRU list, and
  the count follows.
\<close>

abbreviation ptrs :: "fld_cache_entry list \<Rightarrow> nat list" where "ptrs es \<equiv> map fce_ptr es"

definition booked ::
  "fld_cache \<Rightarrow> fld_cache_entry list \<Rightarrow> fld_cache \<Rightarrow> fld_cache_entry list \<Rightarrow> bool" where
  "booked c es c' es' \<longleftrightarrow>
     set (ptrs es') \<subseteq> set (ptrs es) \<and> distinct (ptrs es') \<and>
     fci_lru c' = filter (\<lambda>p. p \<in> set (ptrs es) \<longrightarrow> p \<in> set (ptrs es')) (fci_lru c) \<and>
     fci_cache_count c' - int (length es') = fci_cache_count c - int (length es) \<and>
     fci_cache_size c' = fci_cache_size c \<and> fci_threshold c' = fci_threshold c \<and>
     fci_stat c' = fci_stat c \<and> fci_name c' = fci_name c"

lemma booked_refl: "distinct (ptrs es) \<Longrightarrow> ptrs es = ptrs es' \<Longrightarrow> booked c es c es'"
  by (auto simp: booked_def dest: map_eq_imp_length_eq)

lemma booked_drop:
  assumes "booked (fld_cache_entry_delete c (fce_ptr e)) es c' es'" and "distinct (ptrs (e # es))"
  shows "booked c (e # es) c' es'"
  using assms unfolding booked_def fld_cache_entry_delete_def
  by (auto intro!: filter_cong)

lemma booked_keep:
  assumes "booked c es c' es'" and "distinct (ptrs (e # es))"
  shows "booked c (e # es) c' (e # es')"
  using assms unfolding booked_def
  by (auto intro!: filter_cong) (metis imageI)

lemma booked_cong:
  assumes "ptrs es = ptrs xs"
  shows "booked c es c' es' = booked c xs c' es'"
  unfolding booked_def map_eq_imp_length_eq [OF assms] assms ..

lemma booked_trans:
  assumes "booked c es c1 es1" and "booked (c1\<lparr>fci_entries_head := xs\<rparr>) es1 c2 es2"
  shows "booked c es c2 es2"
  using assms unfolding booked_def by (auto intro!: filter_cong) (metis image_eqI subsetD)

lemma fld_fix_pass_booked:
  "fld_fix_pass c es = Some (r, c', es') \<Longrightarrow> distinct (ptrs es) \<Longrightarrow> booked c es c' es'"
proof (induction "length es" arbitrary: c es r c' es' rule: less_induct)
  case less
  consider "es = []" | e where "es = [e]" | e n rest where "es = e # n # rest"
    by (metis list.exhaust)
  then show ?case
  proof cases
    case (3 e n rest)
    note dist = less.prems(2) [unfolded 3]
    have drop: "booked c es c' es'"
      if "booked (fld_cache_entry_delete c (fce_ptr e)) xs c' es'" "ptrs xs = ptrs (n # rest)" for xs
      using booked_drop [of c e xs c' es'] that dist 3 booked_cong [of "e # xs" es] by simp
    from less.prems(1) [unfolded 3] show ?thesis
    proof (cases rule: fld_fix_pass_iter)
      case (skip l)
      with less.hyps [of "n # rest", OF _ skip(1)] dist 3 show ?thesis
        using booked_keep by auto
    next
      case merge
      with less.hyps [OF _ merge(2)] dist 3 show ?thesis by (intro drop) auto
    next
      case dup
      with less.hyps [OF _ dup(3)] dist 3 show ?thesis by (intro drop) auto
    next
      case trim
      with dist 3 show ?thesis by (auto intro: booked_refl)
    next
      case join
      have "booked (fld_cache_entry_delete c (fce_ptr e)) es' c' es'"
        unfolding join(6) by (rule booked_refl) (use join(7) dist in auto)
      then show ?thesis using join(7) by (intro drop) auto
    next
      case cover
      have "booked (fld_cache_entry_delete c (fce_ptr e)) es' c' es'"
        unfolding cover(5) by (rule booked_refl) (use cover(6) dist in auto)
      then show ?thesis using cover(6) by (intro drop) auto
    qed
  qed (use less.prems in \<open>auto intro: booked_refl\<close>)
qed

lemma fld_fix_new_list_ok:
  assumes "okl (fci_entries_head c)" and "distinct (ptrs (fci_entries_head c))"
  shows "\<exists>c'. fld_fix_new_list c = Some c' \<and> dj (fci_entries_head c') \<and> settled (fci_entries_head c')
    \<and> fld_owner (fci_entries_head c') = fld_owner (fci_entries_head c)
    \<and> booked c (fci_entries_head c) c' (fci_entries_head c')"
  using assms
proof (induction c rule: fld_fix_new_list.induct)
  case (1 c)
  let ?es = "fci_entries_head c"
  obtain r c' es' where p: "fld_fix_pass c ?es = Some (r, c', es')" and post: "pass_post ?es r es'"
    using fld_fix_pass_ok [OF 1(2)] by blast
  have own: "fld_owner es' = fld_owner ?es"
    using fld_fix_pass_owner [OF p] okl_nonempty [OF 1(2)] by blast
  have book: "booked c ?es c' es'" using fld_fix_pass_booked [OF p 1(3)] .
  have ok: "okl es'" "distinct (ptrs es')" using post book by (simp_all add: pass_post_def booked_def)
  show ?case
  proof (cases r)
    case True
    from 1(1) [OF p refl refl True] ok obtain c'' where
      *: "fld_fix_new_list (c'\<lparr>fci_entries_head := es'\<rparr>) = Some c''" "dj (fci_entries_head c'')"
        "settled (fci_entries_head c'')" "fld_owner (fci_entries_head c'') = fld_owner es'"
        "booked (c'\<lparr>fci_entries_head := es'\<rparr>) es' c'' (fci_entries_head c'')"
      by auto
    from booked_trans [OF book *(5)] * own p True show ?thesis
      by (subst fld_fix_new_list.simps) simp
  next
    case False
    with post p own book show ?thesis
      by (subst fld_fix_new_list.simps) (simp add: pass_post_def booked_def)
  qed
qed

text \<open>On a settled list the fix-up loop does nothing.\<close>

lemma fld_fix_pass_settled:
  "dj es \<Longrightarrow> settled es \<Longrightarrow> fld_fix_pass c es = Some (False, c, es)"
proof (induction es)
  case (Cons e es)
  show ?case
  proof (cases es)
    case (Cons n rest)
    have "e_start e \<le> e_end e" "e_end e \<le> e_start n" "\<not> e_start n < e_end e"
      using Cons.prems(1) Cons by auto
    with Cons.IH Cons.prems Cons show ?thesis
      by (auto simp: Let_def mergeable_def lu_seq_range_is_sane_def LASSERT_bind_True)
  qed (use Cons.prems in \<open>auto simp: lu_seq_range_is_sane_def\<close>)
qed simp

lemma fld_fix_new_list_settled:
  "dj (fci_entries_head c) \<Longrightarrow> settled (fci_entries_head c) \<Longrightarrow> fld_fix_new_list c = Some c"
  by (subst fld_fix_new_list.simps) (simp add: fld_fix_pass_settled)


section \<open>The cache invariant\<close>

definition fld_cache_wf :: "fld_cache \<Rightarrow> bool" where
  "fld_cache_wf c \<longleftrightarrow> dj (fci_entries_head c) \<and> settled (fci_entries_head c) \<and>
     distinct (ptrs (fci_entries_head c)) \<and> distinct (fci_lru c) \<and>
     set (fci_lru c) = set (ptrs (fci_entries_head c)) \<and>
     fci_cache_count c = int (length (fci_entries_head c))"

lemma dj_settled_pairwise:
  "dj es \<Longrightarrow> settled es \<longleftrightarrow> sorted_wrt (\<lambda>a b. \<not> mergeable a b) es"
proof (induction es rule: settled.induct)
  case (1 a b es)
  have "\<not> mergeable a p" if "p \<in> set es" for p
    using 1(2) that by (fastforce simp: mergeable_def)
  with 1 show ?case by auto
qed auto

lemma dj_filter: "dj es \<Longrightarrow> dj (filter P es)"
  by (auto simp: dj_def sorted_wrt_filter)

lemma settled_filter: "dj es \<Longrightarrow> settled es \<Longrightarrow> settled (filter P es)"
  by (simp add: dj_settled_pairwise dj_filter sorted_wrt_filter)

lemma fld_cache_entry_delete_wf:
  assumes "fld_cache_wf c" and "p \<in> set (fci_lru c)"
  shows "fld_cache_wf (fld_cache_entry_delete c p)"
proof -
  let ?es = "fci_entries_head c"
  have wf: "dj ?es" "settled ?es" "distinct (ptrs ?es)" "p \<in> set (ptrs ?es)"
    using assms by (auto simp: fld_cache_wf_def)
  have "int (length (filter (\<lambda>e. fce_ptr e \<noteq> p) ?es)) = int (length ?es) - 1"
    using length_filter_addr [of fce_ptr ?es p] wf(3,4) by simp
  then show ?thesis
    using assms wf dj_filter [OF wf(1)] settled_filter [OF wf(1,2)]
    by (auto simp: fld_cache_wf_def fld_cache_entry_delete_def distinct_map_filter)
qed

lemma fld_cache_shrink_loop_wf:
  "fld_cache_wf c \<Longrightarrow> fld_cache_wf (fld_cache_shrink_loop c) \<and>
     set (fci_entries_head (fld_cache_shrink_loop c)) \<subseteq> set (fci_entries_head c)"
proof (induction c rule: fld_cache_shrink_loop.induct)
  case (1 c)
  show ?case
  proof (cases "fci_cache_count c + fci_threshold c > fci_cache_size c \<and> fci_lru c \<noteq> []")
    case True
    from 1(1) [OF True] fld_cache_entry_delete_wf [OF 1(2), of "last (fci_lru c)"] True show ?thesis
      by (subst (1 2) fld_cache_shrink_loop.simps) (auto simp: fld_cache_entry_delete_def)
  next
    case False
    with 1(2) show ?thesis by (subst (1 2) fld_cache_shrink_loop.simps) auto
  qed
qed

lemma fld_cache_shrink_wf:
  assumes "fld_cache_wf c"
  shows "fld_cache_wf (fld_cache_shrink c)"
    and "set (fci_entries_head (fld_cache_shrink c)) \<subseteq> set (fci_entries_head c)"
  using fld_cache_shrink_loop_wf [OF assms] assms by (auto simp: fld_cache_shrink_def)

text \<open>After a shrink the cache is within its size, or empty.\<close>

lemma fld_cache_shrink_loop_bound:
  "fld_cache_wf c \<Longrightarrow> fci_cache_count (fld_cache_shrink_loop c) + fci_threshold c \<le> fci_cache_size c
     \<or> fci_entries_head (fld_cache_shrink_loop c) = []"
proof (induction c rule: fld_cache_shrink_loop.induct)
  case (1 c)
  show ?case
  proof (cases "fci_cache_count c + fci_threshold c > fci_cache_size c \<and> fci_lru c \<noteq> []")
    case True
    from 1(1) [OF True] fld_cache_entry_delete_wf [OF 1(2), of "last (fci_lru c)"] True show ?thesis
      by (subst (1 2) fld_cache_shrink_loop.simps) (auto simp: fld_cache_entry_delete_def)
  next
    case False
    with 1(2) show ?thesis
      by (subst (1 2) fld_cache_shrink_loop.simps) (auto simp: fld_cache_wf_def)
  qed
qed

text \<open>The common end of every insertion: run the fix-up loop on a list of the right shape.\<close>

lemma fld_fix_new_list_wf:
  assumes "okl (fci_entries_head c)" and "distinct (ptrs (fci_entries_head c))"
    and "distinct (fci_lru c)" and "set (fci_lru c) = set (ptrs (fci_entries_head c))"
    and "fci_cache_count c = int (length (fci_entries_head c))"
  shows "\<exists>c'. fld_fix_new_list c = Some c' \<and> fld_cache_wf c' \<and>
    fld_owner (fci_entries_head c') = fld_owner (fci_entries_head c)"
proof -
  obtain c' where c': "fld_fix_new_list c = Some c'" "dj (fci_entries_head c')"
    "settled (fci_entries_head c')" "fld_owner (fci_entries_head c') = fld_owner (fci_entries_head c)"
    and book: "booked c (fci_entries_head c) c' (fci_entries_head c')"
    using fld_fix_new_list_ok [OF assms(1,2)] by blast
  from book assms(3-5) have "distinct (ptrs (fci_entries_head c'))" "distinct (fci_lru c')"
    "set (fci_lru c') = set (ptrs (fci_entries_head c'))"
    "fci_cache_count c' = int (length (fci_entries_head c'))"
    unfolding booked_def by auto
  with c' show ?thesis by (auto simp: fld_cache_wf_def)
qed

end
