(* ===== verification/Fld_Insert.thy ===== *)
theory Fld_Insert
  imports Fld_Correct
begin

text \<open>
  Insertion into the FLD cache and lookup in it, against the owner function.
\<close>

section \<open>Insertion\<close>

text \<open>
  The new range does not cut into a range of the other type. Two entries of the cache that
  share the type of the new range and a different index are special: one that ends where the
  new range ends but starts before it, and one that strictly contains it.
\<close>

definition cross_disjoint :: "lu_seq_range \<Rightarrow> fld_cache_entry list \<Rightarrow> bool" where
  "cross_disjoint new es \<longleftrightarrow> (\<forall>e\<in>set es. e_flags e \<noteq> lsr_flags new \<longrightarrow>
     e_end e \<le> lsr_start new \<or> lsr_end new \<le> e_start e)"

definition tail_conflict :: "lu_seq_range \<Rightarrow> fld_cache_entry \<Rightarrow> bool" where
  "tail_conflict new e \<longleftrightarrow> e_flags e = lsr_flags new \<and> e_index e \<noteq> lsr_index new \<and>
     e_start e < lsr_start new \<and> e_end e = lsr_end new"

definition hole :: "lu_seq_range \<Rightarrow> fld_cache_entry \<Rightarrow> bool" where
  "hole new e \<longleftrightarrow> e_flags e = lsr_flags new \<and> e_index e \<noteq> lsr_index new \<and>
     e_start e < lsr_start new \<and> lsr_end new < e_end e"

lemma fld_cache_insert_scan_Inl:
  assumes "fld_cache_insert_scan new prev es = Inl q" and "dj es" and "cross_disjoint new es"
    and "lsr_start new < lsr_end new"
  shows "\<exists>pre post. es = pre @ post \<and> q = (if pre = [] then prev else Some (fce_ptr (last pre))) \<and>
    (\<forall>e\<in>set pre. e_end e \<le> lsr_start new) \<and> (\<forall>e\<in>set post. lsr_end new \<le> e_start e)"
  using assms
proof (induction es arbitrary: prev)
  case (Cons e es)
  show ?case
  proof (cases "lsr_end new < e_start e \<or> lsr_end new = e_start e \<and> lsr_flags new \<noteq> e_flags e")
    case True
    with Cons.prems have "q = prev" "\<forall>x\<in>set (e # es). lsr_end new \<le> e_start x"
      by (auto simp: Let_def)
    then show ?thesis by (intro exI [of _ "[]"] exI [of _ "e # es"]) simp
  next
    case False
    with Cons.prems have e: "e_end e \<le> lsr_start new"
      and scan: "fld_cache_insert_scan new (Some (fce_ptr e)) es = Inl q"
      by (auto simp: Let_def cross_disjoint_def split: if_splits)
    from Cons.IH [OF scan] Cons.prems obtain pre post where
      *: "es = pre @ post" "q = (if pre = [] then Some (fce_ptr e) else Some (fce_ptr (last pre)))"
        "\<forall>e\<in>set pre. e_end e \<le> lsr_start new" "\<forall>e\<in>set post. lsr_end new \<le> e_start e"
      by (auto simp: cross_disjoint_def)
    then show ?thesis using e
      by (intro exI [of _ "e # pre"] exI [of _ post]) auto
  qed
qed auto

lemma fld_cache_insert_scan_Inr:
  assumes "fld_cache_insert_scan new prev es = Inr fc" and "dj es" and "cross_disjoint new es"
  shows "\<exists>pre post. es = pre @ fc # post \<and> (\<forall>e\<in>set pre. e_end e \<le> lsr_start new) \<and>
    e_flags fc = lsr_flags new \<and> lsr_start new < e_end fc \<and> e_start fc \<le> lsr_end new"
  using assms
proof (induction es arbitrary: prev)
  case (Cons e es)
  show ?case
  proof (cases "lsr_start new < e_end e \<and> lsr_flags new = e_flags e")
    case True
    with Cons.prems have "fc = e" "e_start e \<le> lsr_end new"
      by (auto simp: Let_def split: if_splits)
    with True show ?thesis by (intro exI [of _ "[]"] exI [of _ es]) simp
  next
    case False
    then have scan: "fld_cache_insert_scan new (Some (fce_ptr e)) es = Inr fc"
      and nb: "\<not> (lsr_end new < e_start e \<or> lsr_end new = e_start e \<and> lsr_flags new \<noteq> e_flags e)"
      using Cons.prems(1) by (simp_all add: Let_def split: if_splits)
    have "e_flags e \<noteq> lsr_flags new \<longrightarrow> e_end e \<le> lsr_start new \<or> lsr_end new \<le> e_start e"
      using Cons.prems(3) by (simp add: cross_disjoint_def)
    with False nb have e: "e_end e \<le> lsr_start new" by force
    from Cons.IH [OF scan] Cons.prems obtain pre post where
      *: "es = pre @ fc # post" "\<forall>e\<in>set pre. e_end e \<le> lsr_start new"
        "e_flags fc = lsr_flags new" "lsr_start new < e_end fc" "e_start fc \<le> lsr_end new"
      by (auto simp: cross_disjoint_def)
    then show ?thesis using e
      by (intro exI [of _ "e # pre"] exI [of _ post]) auto
  qed
qed auto

text \<open>The list operations of the insertion, on a list with distinct addresses.\<close>

lemma map_at_ptr:
  assumes "distinct (ptrs (pre @ fc # post))"
  shows "map (\<lambda>e. if fce_ptr e = fce_ptr fc then f e else e) (pre @ fc # post) = pre @ f fc # post"
proof -
  have "\<forall>e\<in>set pre \<union> set post. fce_ptr e \<noteq> fce_ptr fc" using assms by (auto simp: rev_image_eqI)
  then show ?thesis by (auto intro: map_idI)
qed

lemma list_add_behind:
  "fce_ptr fc \<notin> set (ptrs pre) \<Longrightarrow>
     list_add x (Some (fce_ptr fc)) (pre @ fc # post) = pre @ fc # x # post"
  by (induction pre) auto

lemma list_add_last:
  "distinct (ptrs (pre @ post)) \<Longrightarrow>
     list_add x (if pre = [] then None else Some (fce_ptr (last pre))) (pre @ post) = pre @ x # post"
proof (cases pre rule: rev_cases)
  case (snoc ys y)
  then show "distinct (ptrs (pre @ post)) \<Longrightarrow> ?thesis" using list_add_behind [of y ys x post] by simp
qed simp

lemma list_prev_at:
  "fce_ptr fc \<notin> set (ptrs pre) \<Longrightarrow>
     list_prev q (fce_ptr fc) (pre @ fc # post) = (if pre = [] then q else Some (fce_ptr (last pre)))"
  by (induction pre arbitrary: q) auto


subsection \<open>The shapes an insertion produces\<close>

definition fld_override ::
  "lu_seq_range \<Rightarrow> (u32 \<Rightarrow> u64 \<Rightarrow> u32 option) \<Rightarrow> u32 \<Rightarrow> u64 \<Rightarrow> u32 option" where
  "fld_override new own f s =
     (if f = lsr_flags new \<and> lu_seq_range_within new s then Some (lsr_index new) else own f s)"

definition overlap_at ::
  "lu_seq_range \<Rightarrow> fld_cache_entry list \<Rightarrow> fld_cache_entry \<Rightarrow> fld_cache_entry list \<Rightarrow> bool" where
  "overlap_at new pre fc post \<longleftrightarrow> dj (pre @ fc # post) \<and> cross_disjoint new (pre @ fc # post) \<and>
     (\<forall>e\<in>set pre. e_end e \<le> lsr_start new) \<and> e_flags fc = lsr_flags new \<and>
     lsr_start new < e_end fc \<and> e_start fc \<le> lsr_end new \<and> lsr_start new < lsr_end new"

lemma fld_owner_before:
  "\<forall>e\<in>set pre. e_end e \<le> lsr_start new \<Longrightarrow> lu_seq_range_within new s \<Longrightarrow> fld_owner pre f s = None"
  by (induction pre) (auto simp: lu_seq_range_within_def)

lemma fld_owner_override_append:
  assumes "\<forall>e\<in>set pre. e_end e \<le> lsr_start new"
    and "fld_owner ys' = fld_override new (fld_owner ys)"
  shows "fld_owner (pre @ ys') = fld_override new (fld_owner (pre @ ys))"
  using fld_owner_before [OF assms(1)] assms(2)
  by (auto simp: fun_eq_iff fld_owner_append fld_override_def split: option.splits)

lemma overlap_atD:
  assumes "overlap_at new pre fc post"
  shows "dj pre" "nonempty fc" "dj post" "lsr_start new < lsr_end new"
    "\<forall>x\<in>set pre. e_end x \<le> e_start fc \<and> e_end x \<le> lsr_start new \<and> (\<forall>y\<in>set post. e_end x \<le> e_start y)"
    "\<forall>p\<in>set post. e_end fc \<le> e_start p \<and> lsr_start new \<le> e_start p \<and>
       (e_flags p \<noteq> lsr_flags new \<longrightarrow> lsr_end new \<le> e_start p)"
proof -
  note o = assms [unfolded overlap_at_def dj_append dj_simps cross_disjoint_def]
  show "dj pre" "nonempty fc" "dj post" "lsr_start new < lsr_end new"
    "\<forall>x\<in>set pre. e_end x \<le> e_start fc \<and> e_end x \<le> lsr_start new \<and> (\<forall>y\<in>set post. e_end x \<le> e_start y)"
    using o by auto
  show "\<forall>p\<in>set post. e_end fc \<le> e_start p \<and> lsr_start new \<le> e_start p \<and>
     (e_flags p \<noteq> lsr_flags new \<longrightarrow> lsr_end new \<le> e_start p)"
  proof
    fix p assume p: "p \<in> set post"
    have "e_end fc \<le> e_start p" "nonempty p" using o p by (auto simp: dj_def)
    moreover have "e_flags p \<noteq> lsr_flags new \<longrightarrow> e_end p \<le> lsr_start new \<or> lsr_end new \<le> e_start p"
      "lsr_start new < e_end fc" using o p by auto
    ultimately show "e_end fc \<le> e_start p \<and> lsr_start new \<le> e_start p \<and>
        (e_flags p \<noteq> lsr_flags new \<longrightarrow> lsr_end new \<le> e_start p)" by auto
  qed
qed

lemma okl_new_post:
  assumes "overlap_at new pre fc post" and "e_start x \<le> e_end fc" and "nonempty x"
    and "e_flags x = lsr_flags new" and "e_end x = lsr_end new \<or> e_end x = max (e_end fc) (lsr_end new)"
  shows "okl (x # post)"
proof -
  note o = overlap_atD [OF assms(1)]
  have "e_start x \<le> e_start p \<and> (e_flags p \<noteq> e_flags x \<longrightarrow> e_end x \<le> e_start p)" if "p \<in> set post" for p
    using bspec [OF o(6) that] assms(2,4,5) by auto
  with o(3) assms(3) show ?thesis by simp
qed

lemma overlap_same_index:
  assumes "overlap_at new pre fc post" and "e_index fc = lsr_index new"
  defines "fc' \<equiv> fc\<lparr>fce_range := (fce_range fc)\<lparr>lsr_start := min (e_start fc) (lsr_start new),
    lsr_end := max (e_end fc) (lsr_end new)\<rparr>\<rparr>"
  shows "okl (pre @ fc' # post)"
    and "fld_owner (pre @ fc' # post) = fld_override new (fld_owner (pre @ fc # post))"
proof -
  note o = overlap_atD [OF assms(1)]
  have fc: "e_flags fc = lsr_flags new" "lsr_start new < e_end fc" "e_start fc \<le> lsr_end new"
    using assms(1) by (simp_all add: overlap_at_def)
  have "okl (fc' # post)"
    by (rule okl_new_post [OF assms(1)]) (use fc o(2,4) in \<open>auto simp: fc'_def min_def max_def\<close>)
  then show "okl (pre @ fc' # post)"
    using o(1,5) by (intro okl_append) (auto simp: fc'_def min_def)
  show "fld_owner (pre @ fc' # post) = fld_override new (fld_owner (pre @ fc # post))"
  proof (rule fld_owner_override_append)
    show "fld_owner (fc' # post) = fld_override new (fld_owner (fc # post))"
      using fc assms(2) by (auto simp: fun_eq_iff fc'_def fld_override_def lu_seq_range_within_def
          min_def max_def)
  qed (use o(5) in auto)
qed

lemma overlap_covered:
  assumes "overlap_at new pre fc post" and "lsr_start new \<le> e_start fc" and "e_end fc \<le> lsr_end new"
  shows "okl (pre @ fc\<lparr>fce_range := new\<rparr> # post)"
    and "fld_owner (pre @ fc\<lparr>fce_range := new\<rparr> # post) = fld_override new (fld_owner (pre @ fc # post))"
proof -
  note o = overlap_atD [OF assms(1)]
  have fc: "e_flags fc = lsr_flags new" "lsr_start new < e_end fc"
    using assms(1) by (simp_all add: overlap_at_def)
  have "okl (fc\<lparr>fce_range := new\<rparr> # post)"
    by (rule okl_new_post [OF assms(1)]) (use fc o(4) in auto)
  then show "okl (pre @ fc\<lparr>fce_range := new\<rparr> # post)"
    using o(1,5) by (intro okl_append) auto
  show "fld_owner (pre @ fc\<lparr>fce_range := new\<rparr> # post) = fld_override new (fld_owner (pre @ fc # post))"
  proof (rule fld_owner_override_append)
    show "fld_owner (fc\<lparr>fce_range := new\<rparr> # post) = fld_override new (fld_owner (fc # post))"
      using fc assms(2,3) by (auto simp: fun_eq_iff fld_override_def lu_seq_range_within_def)
  qed (use o(5) in auto)
qed

lemma overlap_left:
  assumes "overlap_at new pre fc post" and "lsr_start new \<le> e_start fc" and "lsr_end new < e_end fc"
    and "fce_range f_new = new"
  defines "fc' \<equiv> fc\<lparr>fce_range := (fce_range fc)\<lparr>lsr_start := lsr_end new\<rparr>\<rparr>"
  shows "okl (pre @ f_new # fc' # post)"
    and "fld_owner (pre @ f_new # fc' # post) = fld_override new (fld_owner (pre @ fc # post))"
proof -
  note o = overlap_atD [OF assms(1)]
  have fc: "e_flags fc = lsr_flags new" "e_start fc \<le> lsr_end new"
    using assms(1) by (simp_all add: overlap_at_def)
  have "dj (f_new # fc' # post)"
    using o(3,4,6) assms(3,4) by (fastforce simp: fc'_def)
  then show "okl (pre @ f_new # fc' # post)"
    using o(1,5) assms(4) fc(2) by (intro okl_append dj_okl) (fastforce simp: fc'_def)+
  show "fld_owner (pre @ f_new # fc' # post) = fld_override new (fld_owner (pre @ fc # post))"
  proof (rule fld_owner_override_append)
    show "fld_owner (f_new # fc' # post) = fld_override new (fld_owner (fc # post))"
      using fc assms(2-4)
      by (auto simp: fun_eq_iff fc'_def fld_override_def lu_seq_range_within_def)
  qed (use o(5) in auto)
qed

lemma overlap_right:
  assumes "overlap_at new pre fc post" and "e_start fc < lsr_start new" and "e_end fc < lsr_end new"
    and "fce_range f_new = new"
  defines "fc' \<equiv> fc\<lparr>fce_range := (fce_range fc)\<lparr>lsr_end := lsr_start new\<rparr>\<rparr>"
  shows "okl (pre @ fc' # f_new # post)"
    and "fld_owner (pre @ fc' # f_new # post) = fld_override new (fld_owner (pre @ fc # post))"
proof -
  note o = overlap_atD [OF assms(1)]
  have fc: "e_flags fc = lsr_flags new" "lsr_start new < e_end fc"
    using assms(1) by (simp_all add: overlap_at_def)
  have new: "okl (f_new # post)"
    by (rule okl_new_post [OF assms(1)]) (use fc o(4) assms(4) in auto)
  then have "okl (fc' # f_new # post)"
    using o(6) assms(2,4) by (auto simp: fc'_def)
  then show "okl (pre @ fc' # f_new # post)"
    using o(1,5) assms(4) by (intro okl_append) (auto simp: fc'_def)
  show "fld_owner (pre @ fc' # f_new # post) = fld_override new (fld_owner (pre @ fc # post))"
  proof (rule fld_owner_override_append)
    show "fld_owner (fc' # f_new # post) = fld_override new (fld_owner (fc # post))"
      using fc assms(2-4)
      by (auto simp: fun_eq_iff fc'_def fld_override_def lu_seq_range_within_def)
  qed (use o(5) in auto)
qed


lemma overlap_hole:
  assumes o: "overlap_at new pre fc post" and st: "settled (pre @ fc # post)"
    and h: "hole new fc" and new: "fce_range f_new = new"
    and t: "fce_range t = \<lparr>lsr_start = lsr_end new, lsr_end = e_end fc, lsr_index = e_index fc,
              lsr_flags = lsr_flags new\<rparr>"
  defines "fc' \<equiv> fc\<lparr>fce_range := (fce_range fc)\<lparr>lsr_end := lsr_start new\<rparr>\<rparr>"
  shows "dj (pre @ fc' # f_new # post)" "settled (pre @ fc' # f_new # post)"
    "dj (pre @ fc' # f_new # t # post)" "settled (pre @ fc' # f_new # t # post)"
    "fld_owner (pre @ fc' # f_new # t # post) = fld_override new (fld_owner (pre @ fc # post))"
proof -
  note od = overlap_atD [OF o]
  note hd = h [unfolded hole_def]
  show d: "dj (pre @ fc' # f_new # t # post)"
    using od hd new t by (fastforce simp: dj_append fc'_def)
  then show d1: "dj (pre @ fc' # f_new # post)"
    by (auto simp: dj_append)
  have pw: "sorted_wrt (\<lambda>a b. \<not> mergeable a b) (pre @ fc # post)"
    using o st dj_settled_pairwise by (simp add: overlap_at_def)
  have far: "\<not> mergeable a b" if "e_end a < e_start b" for a b
    using that by (auto simp: mergeable_def)
  have post: "e_end fc' < e_start p \<and> e_end f_new < e_start p \<and> \<not> mergeable t p"
    if p: "p \<in> set post" for p
  proof -
    have "lsr_end new < e_start p" "lsr_start new < e_start p"
      using od(6) hd p od(4) by (meson order.strict_trans2 order.strict_trans)+
    moreover have "\<not> mergeable t p" using pw p t hd by (auto simp: sorted_wrt_append mergeable_def)
    ultimately show ?thesis using new by (simp add: fc'_def)
  qed
  have pre: "\<not> mergeable x fc' \<and> e_end x < e_start f_new \<and> e_end x < e_start t"
    if x: "x \<in> set pre" for x
  proof -
    have "e_end x < lsr_start new" "e_end x < lsr_end new"
      using od(4,5) hd x by (meson order.strict_trans1 order.strict_trans)+
    moreover have "\<not> mergeable x fc'" using pw x by (auto simp: sorted_wrt_append mergeable_def fc'_def)
    ultimately show ?thesis using new t by simp
  qed
  have "\<not> mergeable fc' f_new" "\<not> mergeable fc' t" "\<not> mergeable f_new t"
    using hd new t od(4) by (auto simp: mergeable_def fc'_def)
  then have "sorted_wrt (\<lambda>a b. \<not> mergeable a b) (fc' # f_new # t # post)"
    using post pw far by (simp add: sorted_wrt_append)
  then have "sorted_wrt (\<lambda>a b. \<not> mergeable a b) (pre @ fc' # f_new # t # post)"
    using pw pre far by (simp add: sorted_wrt_append)
  then show "settled (pre @ fc' # f_new # t # post)" "settled (pre @ fc' # f_new # post)"
    using d d1 dj_settled_pairwise by (auto simp: sorted_wrt_append)
  show "fld_owner (pre @ fc' # f_new # t # post) = fld_override new (fld_owner (pre @ fc # post))"
  proof (rule fld_owner_override_append)
    show "fld_owner (fc' # f_new # t # post) = fld_override new (fld_owner (fc # post))"
      using hd new t od(4)
      by (auto simp: fun_eq_iff fc'_def fld_override_def lu_seq_range_within_def)
  qed (use od(5) in auto)
qed

text \<open>Inserting beside every entry of the same type.\<close>

lemma gap_shape:
  assumes "dj (pre @ post)" and "\<forall>e\<in>set pre. e_end e \<le> lsr_start new"
    and "\<forall>e\<in>set post. lsr_end new \<le> e_start e" and "lsr_start new < lsr_end new"
    and "fce_range f_new = new"
  shows "okl (pre @ f_new # post)"
    and "fld_owner (pre @ f_new # post) = fld_override new (fld_owner (pre @ post))"
proof -
  have "dj (pre @ f_new # post)" using assms by (auto simp: dj_append)
  then show "okl (pre @ f_new # post)" by (rule dj_okl)
  show "fld_owner (pre @ f_new # post) = fld_override new (fld_owner (pre @ post))"
    by (rule fld_owner_override_append) (use assms in \<open>auto simp: fun_eq_iff fld_override_def\<close>)
qed

subsection \<open>The operation\<close>

text \<open>An entry list of a well-formed cache replaced by one of the right shape and fixed up.\<close>

lemma fix_replaced:
  assumes wf: "fld_cache_wf c" and "okl L" and "ptrs L = ptrs (fci_entries_head c)"
  shows "\<exists>c'. fld_fix_new_list (c\<lparr>fci_entries_head := L\<rparr>) = Some c' \<and> fld_cache_wf c' \<and>
    fld_owner (fci_entries_head c') = fld_owner L"
  using fld_fix_new_list_wf [of "c\<lparr>fci_entries_head := L\<rparr>"] assms
  by (auto simp: fld_cache_wf_def dest: map_eq_imp_length_eq)

lemma fix_added:
  assumes wf: "fld_cache_wf c" and okl: "okl (xs @ f_new # ys)"
    and ps: "ptrs (xs @ ys) = ptrs (fci_entries_head c)"
    and fresh: "fce_ptr f_new \<notin> set (ptrs (fci_entries_head c))"
  shows "\<exists>c'. fld_fix_new_list (c\<lparr>fci_entries_head := xs @ f_new # ys,
      fci_lru := fce_ptr f_new # fci_lru c, fci_cache_count := fci_cache_count c + 1\<rparr>) = Some c' \<and>
    fld_cache_wf c' \<and> fld_owner (fci_entries_head c') = fld_owner (xs @ f_new # ys)"
proof -
  have len: "length (fci_entries_head c) = length xs + length ys"
    using map_eq_imp_length_eq [OF ps] by simp
  have set: "set (ptrs (fci_entries_head c)) = set (ptrs xs) \<union> set (ptrs ys)"
    and dist: "distinct (ptrs xs @ ptrs ys)"
    using ps wf by (simp_all add: fld_cache_wf_def flip: ps)
  show ?thesis
    using fld_fix_new_list_wf [of "c\<lparr>fci_entries_head := xs @ f_new # ys,
        fci_lru := fce_ptr f_new # fci_lru c, fci_cache_count := fci_cache_count c + 1\<rparr>"]
      okl wf fresh len set dist
    by (simp add: fld_cache_wf_def Un_insert_right)
qed


text \<open>
  What an insertion needs: a non-empty range, a new address, no cut into the other type, no
  entry of another index that ends with the new range, and, where the new range falls inside
  an entry of another index, the type 0 and an address for the third piece.
\<close>

definition insert_ok :: "nat option \<Rightarrow> fld_cache \<Rightarrow> fld_cache_entry \<Rightarrow> bool" where
  "insert_ok fldt c f_new \<longleftrightarrow>
     (let new = fce_range f_new; es = fci_entries_head c in
      lsr_start new < lsr_end new \<and> fce_ptr f_new \<notin> set (ptrs es) \<and> cross_disjoint new es \<and>
      (\<forall>e\<in>set es. \<not> tail_conflict new e) \<and>
      (\<forall>e\<in>set es. hole new e \<longrightarrow> lsr_flags new = 0 \<and>
         (\<exists>t. fldt = Some t \<and> t \<notin> set (ptrs es) \<and> t \<noteq> fce_ptr f_new)))"

lemma insert_ok_subset:
  "insert_ok fldt c f_new \<Longrightarrow> set (fci_entries_head c') \<subseteq> set (fci_entries_head c) \<Longrightarrow>
     insert_ok fldt c' f_new"
  unfolding insert_ok_def Let_def cross_disjoint_def by auto

lemma fld_cache_punch_hole_ok:
  assumes wf: "fld_cache_wf c" and es: "fci_entries_head c = pre @ fc # post"
    and o: "overlap_at (fce_range f_new) pre fc post" and h: "hole (fce_range f_new) fc"
    and z: "lsr_flags (fce_range f_new) = 0" and t: "t \<notin> set (ptrs (pre @ fc # post))"
    and ft: "t \<noteq> fce_ptr f_new" and fresh: "fce_ptr f_new \<notin> set (ptrs (pre @ fc # post))"
  shows "\<exists>c'. fld_cache_punch_hole (Some t) c fc f_new = Some c' \<and> fld_cache_wf c' \<and>
    fld_owner (fci_entries_head c') = fld_override (fce_range f_new) (fld_owner (fci_entries_head c))"
proof -
  let ?new = "fce_range f_new"
  let ?fc = "fc\<lparr>fce_range := (fce_range fc)\<lparr>lsr_end := lsr_start ?new\<rparr>\<rparr>"
  let ?t = "\<lparr>fce_ptr = t, fce_range = \<lparr>lsr_start = lsr_end ?new, lsr_end = e_end fc,
    lsr_index = e_index fc, lsr_flags = 0\<rparr>\<rparr>"
  have st: "settled (pre @ fc # post)" and dist: "distinct (ptrs (pre @ fc # post))"
    using wf es by (simp_all add: fld_cache_wf_def)
  note shape = overlap_hole [OF o st h refl, of ?t, unfolded z, simplified]
  let ?c1 = "c\<lparr>fci_entries_head := pre @ ?fc # f_new # post, fci_lru := fce_ptr f_new # fci_lru c,
    fci_cache_count := fci_cache_count c + 1\<rparr>"
  let ?c2 = "?c1\<lparr>fci_entries_head := pre @ ?fc # f_new # ?t # post,
    fci_lru := t # fce_ptr f_new # fci_lru c, fci_cache_count := fci_cache_count c + 2\<rparr>"
  have add1: "fld_cache_entry_add (set_range (fce_ptr fc) (\<lambda>r. r\<lparr>lsr_end := lsr_start ?new\<rparr>) c)
      f_new (Some (fce_ptr fc)) = Some ?c1"
    using shape(1,2) dist es map_at_ptr [OF dist]
      list_add_behind [of ?fc pre f_new post]
    by (simp add: fld_cache_entry_add_def set_range_def fld_fix_new_list_settled)
  have add2: "fld_cache_entry_add ?c1 ?t (Some (fce_ptr f_new)) = Some ?c2"
    using shape(3,4) fresh list_add_behind [of f_new "pre @ [?fc]" ?t post]
    by (simp add: fld_cache_entry_add_def fld_fix_new_list_settled)
  have "fld_cache_punch_hole (Some t) c fc f_new = Some ?c2"
    using add1 add2 by (simp add: fld_cache_punch_hole_def)
  moreover have "fld_cache_wf ?c2"
    using wf es shape(3,4) t ft fresh by (auto simp: fld_cache_wf_def)
  ultimately show ?thesis using shape(5) es by auto
qed

lemma fld_cache_overlap_handle_ok:
  assumes wf: "fld_cache_wf c" and es: "fci_entries_head c = pre @ fc # post"
    and o: "overlap_at (fce_range f_new) pre fc post" and ok: "insert_ok fldt c f_new"
  shows "\<exists>c'. fld_cache_overlap_handle fldt c fc f_new = Some c' \<and> fld_cache_wf c' \<and>
    fld_owner (fci_entries_head c') = fld_override (fce_range f_new) (fld_owner (fci_entries_head c))"
proof -
  let ?new = "fce_range f_new"
  have dist: "distinct (ptrs (pre @ fc # post))" using wf es by (simp add: fld_cache_wf_def)
  have fresh: "fce_ptr f_new \<notin> set (ptrs (pre @ fc # post))"
    and notail: "\<not> tail_conflict ?new fc" and flags: "e_flags fc = lsr_flags ?new"
    using ok es o by (auto simp: insert_ok_def overlap_at_def)
  have set_range: "set_range (fce_ptr fc) f c =
      c\<lparr>fci_entries_head := pre @ fc\<lparr>fce_range := f (fce_range fc)\<rparr> # post\<rparr>" for f
    using map_at_ptr [OF dist] es by (simp add: set_range_def)
  consider (same) "e_index fc = lsr_index ?new"
    | (covered) "e_index fc \<noteq> lsr_index ?new" "lsr_start ?new \<le> e_start fc" "e_end fc \<le> lsr_end ?new"
    | (hole) "hole ?new fc" "e_index fc \<noteq> lsr_index ?new"
    | (left) "e_index fc \<noteq> lsr_index ?new" "lsr_start ?new \<le> e_start fc" "lsr_end ?new < e_end fc"
    | (right) "e_index fc \<noteq> lsr_index ?new" "e_start fc < lsr_start ?new" "e_end fc < lsr_end ?new"
    using notail flags unfolding tail_conflict_def hole_def by (meson not_le order.not_eq_order_implies_strict)
  then show ?thesis
  proof cases
    case same
    note shape = overlap_same_index [OF o same]
    from fix_replaced [OF wf shape(1)] shape(2) show ?thesis
      using same es by (simp add: fld_cache_overlap_handle_def Let_def set_range)
  next
    case covered
    note shape = overlap_covered [OF o covered(2,3)]
    from fix_replaced [OF wf shape(1)] shape(2) show ?thesis
      using covered es by (simp add: fld_cache_overlap_handle_def Let_def set_range)
  next
    case hole
    then obtain t where t: "lsr_flags ?new = 0" "fldt = Some t" "t \<notin> set (ptrs (pre @ fc # post))"
      "t \<noteq> fce_ptr f_new"
      using ok es by (auto simp: insert_ok_def Let_def image_Un)
    from fld_cache_punch_hole_ok [OF wf es o hole(1) t(1,3,4) fresh] hole t(2) show ?thesis
      by (auto simp: fld_cache_overlap_handle_def Let_def hole_def)
  next
    case left
    note shape = overlap_left [OF o left(2,3) refl]
    have "\<not> e_end fc \<le> lsr_end ?new" "\<not> e_start fc < lsr_start ?new" "lsr_end ?new \<le> e_end fc"
      using left by auto
    with fix_added [OF wf shape(1)] fresh es shape(2) show ?thesis
      using left dist
        list_add_last [of pre "fc\<lparr>fce_range := (fce_range fc)\<lparr>lsr_start := lsr_end ?new\<rparr>\<rparr> # post" f_new]
      by (simp add: fld_cache_overlap_handle_def Let_def set_range fld_cache_entry_add_def
          list_prev_at LASSERT_bind_True)
  next
    case right
    note shape = overlap_right [OF o right(2,3) refl]
    have "\<not> lsr_start ?new \<le> e_start fc" "\<not> lsr_end ?new \<le> e_end fc" "\<not> lsr_end ?new < e_end fc"
      "e_start fc \<le> lsr_start ?new" "e_end fc \<le> lsr_end ?new"
      using right by auto
    with fix_added [OF wf, of "pre @ [fc\<lparr>fce_range := (fce_range fc)\<lparr>lsr_end := lsr_start ?new\<rparr>\<rparr>]" f_new post]
      shape fresh es show ?thesis
      using right dist
        list_add_behind [of "fc\<lparr>fce_range := (fce_range fc)\<lparr>lsr_end := lsr_start ?new\<rparr>\<rparr>" pre f_new post]
      by (simp add: fld_cache_overlap_handle_def Let_def set_range fld_cache_entry_add_def
          LASSERT_bind_True)
  qed
qed


lemma fld_cache_insert_nolock_ok:
  assumes wf: "fld_cache_wf c" and ok: "insert_ok fldt c f_new"
  shows "\<exists>c'. fld_cache_insert_nolock fldt c f_new = Some c' \<and> fld_cache_wf c' \<and>
    fld_owner (fci_entries_head c') =
      fld_override (fce_range f_new) (fld_owner (fci_entries_head (fld_cache_shrink c)))"
proof -
  let ?c = "fld_cache_shrink c" and ?new = "fce_range f_new"
  let ?es = "fci_entries_head ?c"
  have wf1: "fld_cache_wf ?c" and ok1: "insert_ok fldt ?c f_new"
    using fld_cache_shrink_wf [OF wf] insert_ok_subset [OF ok] by auto
  have d: "dj ?es" "cross_disjoint ?new ?es" "lsr_start ?new < lsr_end ?new"
    "distinct (ptrs ?es)" "fce_ptr f_new \<notin> set (ptrs ?es)"
    using wf1 ok1 by (auto simp: fld_cache_wf_def insert_ok_def Let_def)
  show ?thesis
  proof (cases "fld_cache_insert_scan ?new None ?es")
    case (Inl q)
    from fld_cache_insert_scan_Inl [OF Inl d(1-3)] obtain pre post where
      *: "?es = pre @ post" "q = (if pre = [] then None else Some (fce_ptr (last pre)))"
        "\<forall>e\<in>set pre. e_end e \<le> lsr_start ?new" "\<forall>e\<in>set post. lsr_end ?new \<le> e_start e"
      by auto
    note shape = gap_shape [OF d(1) [unfolded *(1)] *(3,4) d(3) refl]
    from fix_added [OF wf1 shape(1)] d(4,5) *(1) shape(2) show ?thesis
      using Inl * list_add_last [of pre post f_new]
      by (simp add: fld_cache_insert_nolock_def fld_cache_entry_add_def Let_def)
  next
    case (Inr fc)
    from fld_cache_insert_scan_Inr [OF Inr d(1,2)] obtain pre post where
      *: "?es = pre @ fc # post" "overlap_at ?new pre fc post"
      using d by (auto simp: overlap_at_def)
    from fld_cache_overlap_handle_ok [OF wf1 * ok1] Inr show ?thesis
      by (simp add: fld_cache_insert_nolock_def Let_def)
  qed
qed

text \<open>
  An entry that ends with the new range, starts before it and has another index is found by
  the search and stops the node at the assertion of the third case.
\<close>

lemma fld_cache_insert_scan_hits:
  assumes "dj (pre @ e # post)" and "e_flags e = lsr_flags new" and "e_start e < lsr_start new"
    and "lsr_start new < e_end e" and "lsr_start new < lsr_end new"
  shows "fld_cache_insert_scan new prev (pre @ e # post) = Inr e"
  using assms
proof (induction pre arbitrary: prev)
  case (Cons a pre)
  have "e_end a \<le> e_start e" "nonempty a" using Cons.prems(1) by auto
  then have "\<not> lsr_end new < e_start a" "lsr_end new \<noteq> e_start a" "\<not> lsr_start new < e_end a"
    using Cons.prems(3-5) by auto
  with Cons.IH Cons.prems show ?case by (auto simp: Let_def)
qed (auto simp: Let_def)

lemma fld_cache_overlap_handle_lbug:
  "tail_conflict (fce_range f_new) e \<Longrightarrow> lsr_start (fce_range f_new) < lsr_end (fce_range f_new) \<Longrightarrow>
     fld_cache_overlap_handle fldt c e f_new = None"
  by (auto simp: fld_cache_overlap_handle_def tail_conflict_def LASSERT_def Let_def)

section \<open>Deletion and lookup\<close>

lemma fld_owner_filter_ptr:
  assumes "dj es" and "fld_owner (filter P es) f s = Some i"
  shows "fld_owner es f s = Some i"
  using assms
proof (induction es)
  case (Cons e es)
  show ?case
  proof (cases "P e")
    case False
    have "\<not> lu_seq_range_within (fce_range e) s" if "fld_owner (filter P es) f s = Some i"
    proof -
      have "\<exists>x\<in>set es. e_start x \<le> s" using that
        by (induction es) (auto simp: lu_seq_range_within_def split: if_splits)
      with Cons.prems(1) show ?thesis by (auto simp: lu_seq_range_within_def)
    qed
    with False Cons show ?thesis by auto
  qed (use Cons in \<open>auto split: if_splits\<close>)
qed simp

text \<open>The search of a lookup finds the only entry that holds the sequence.\<close>

lemma fld_cache_lookup_scan_Inr:
  "fld_cache_lookup_scan s prev es = Inr r \<Longrightarrow> lu_seq_range_within r s \<and> r \<in> fce_range ` set es"
  by (induction es arbitrary: prev) (auto split: if_splits)

lemma fld_cache_lookup_scan_complete:
  assumes "dj es" and "e \<in> set es" and "lu_seq_range_within (fce_range e) s"
  shows "fld_cache_lookup_scan s prev es = Inr (fce_range e)"
  using assms
proof (induction es arbitrary: prev)
  case (Cons a es)
  show ?case
  proof (cases "e = a")
    case True
    with Cons.prems(3) show ?thesis by (auto simp: lu_seq_range_within_def)
  next
    case False
    with Cons.prems have "e \<in> set es" "e_end a \<le> s" "nonempty a"
      by (auto simp: lu_seq_range_within_def)
    with Cons show ?thesis by (auto simp: lu_seq_range_within_def)
  qed
qed simp

lemma fld_owner_in:
  "fld_owner es f s = Some i \<Longrightarrow>
     \<exists>e\<in>set es. e_flags e = f \<and> e_index e = i \<and> lu_seq_range_within (fce_range e) s"
  by (induction es) (auto split: if_splits)

lemma dj_within_unique:
  "dj es \<Longrightarrow> e \<in> set es \<Longrightarrow> e' \<in> set es \<Longrightarrow> lu_seq_range_within (fce_range e) s \<Longrightarrow>
     lu_seq_range_within (fce_range e') s \<Longrightarrow> e = e'"
  by (induction es) (auto simp: lu_seq_range_within_def dest: bspec)

lemma fld_owner_of:
  assumes "dj es" and "e \<in> set es" and "lu_seq_range_within (fce_range e) s"
  shows "fld_owner es (e_flags e) s = Some (e_index e)"
  using assms
proof (induction es)
  case (Cons a es)
  then show ?case using dj_within_unique [OF Cons.prems(1), of e a s] by auto
qed simp

end
