(* ===== verification/Fld_Interface.thy ===== *)
theory Fld_Interface
  imports Fld_Insert
begin

text \<open>
  The contract the FLD cache offers to its users (\<^verbatim>\<open>fld_server_lookup\<close>, \<^verbatim>\<open>fld_client_lookup\<close>):
  insertion, deletion and flush, with the owner function as the observable. The client lemma
  is coherence: a cache that only ever learns true ranges only ever gives true answers.
\<close>

datatype 'p cache_op = Insert 'p | Delete lu_seq_range | Flush

fun cache_run ::
  "('p \<Rightarrow> 'c \<Rightarrow> 'c option) \<Rightarrow> ('c \<Rightarrow> lu_seq_range \<Rightarrow> 'c) \<Rightarrow> ('c \<Rightarrow> 'c) \<Rightarrow> 'p cache_op list \<Rightarrow> 'c \<Rightarrow>
   'c option" where
  "cache_run ins del flush [] c = Some c"
| "cache_run ins del flush (Insert p # ops) c =
     (case ins p c of None \<Rightarrow> None | Some c' \<Rightarrow> cache_run ins del flush ops c')"
| "cache_run ins del flush (Delete r # ops) c = cache_run ins del flush ops (del c r)"
| "cache_run ins del flush (Flush # ops) c = cache_run ins del flush ops (flush c)"

text \<open>A run whose insertions are admissible where they happen and agree with \<open>truth\<close>.\<close>

fun run_ok ::
  "('p \<Rightarrow> 'c \<Rightarrow> 'c option) \<Rightarrow> ('c \<Rightarrow> lu_seq_range \<Rightarrow> 'c) \<Rightarrow> ('c \<Rightarrow> 'c) \<Rightarrow> ('p \<Rightarrow> 'c \<Rightarrow> bool) \<Rightarrow>
   ('p \<Rightarrow> lu_seq_range) \<Rightarrow> (u32 \<Rightarrow> u64 \<Rightarrow> u32 option) \<Rightarrow> 'p cache_op list \<Rightarrow> 'c \<Rightarrow> bool" where
  "run_ok ins del flush adm rng truth [] c = True"
| "run_ok ins del flush adm rng truth (Insert p # ops) c =
     (adm p c \<and> (\<forall>s. lu_seq_range_within (rng p) s \<longrightarrow>
        truth (lsr_flags (rng p)) s = Some (lsr_index (rng p))) \<and>
      (\<forall>c'. ins p c = Some c' \<longrightarrow> run_ok ins del flush adm rng truth ops c'))"
| "run_ok ins del flush adm rng truth (Delete r # ops) c =
     run_ok ins del flush adm rng truth ops (del c r)"
| "run_ok ins del flush adm rng truth (Flush # ops) c =
     run_ok ins del flush adm rng truth ops (flush c)"

definition coherent :: "(u32 \<Rightarrow> u64 \<Rightarrow> u32 option) \<Rightarrow> (u32 \<Rightarrow> u64 \<Rightarrow> u32 option) \<Rightarrow> bool" where
  "coherent truth own \<longleftrightarrow> (\<forall>f s i. own f s = Some i \<longrightarrow> truth f s = Some i)"

locale seq_cache =
  fixes wf :: "'c \<Rightarrow> bool"
    and owner :: "'c \<Rightarrow> u32 \<Rightarrow> u64 \<Rightarrow> u32 option"
    and ins :: "'p \<Rightarrow> 'c \<Rightarrow> 'c option"
    and adm :: "'p \<Rightarrow> 'c \<Rightarrow> bool"
    and rng :: "'p \<Rightarrow> lu_seq_range"
    and del :: "'c \<Rightarrow> lu_seq_range \<Rightarrow> 'c"
    and flush :: "'c \<Rightarrow> 'c"
  assumes ins_total: "wf c \<Longrightarrow> adm p c \<Longrightarrow> \<exists>c'. ins p c = Some c' \<and> wf c'"
    and ins_new: "wf c \<Longrightarrow> adm p c \<Longrightarrow> ins p c = Some c' \<Longrightarrow> lu_seq_range_within (rng p) s \<Longrightarrow>
          owner c' (lsr_flags (rng p)) s = Some (lsr_index (rng p))"
    and ins_old: "wf c \<Longrightarrow> adm p c \<Longrightarrow> ins p c = Some c' \<Longrightarrow>
          \<not> (f = lsr_flags (rng p) \<and> lu_seq_range_within (rng p) s) \<Longrightarrow>
          owner c' f s = Some i \<Longrightarrow> owner c f s = Some i"
    and del_wf: "wf c \<Longrightarrow> wf (del c r)"
    and del_old: "wf c \<Longrightarrow> owner (del c r) f s = Some i \<Longrightarrow> owner c f s = Some i"
    and flush_wf: "wf c \<Longrightarrow> wf (flush c)"
    and flush_old: "wf c \<Longrightarrow> owner (flush c) f s = Some i \<Longrightarrow> owner c f s = Some i"
begin

lemma ins_coherent:
  assumes "wf c" "adm p c" "ins p c = Some c'" "coherent truth (owner c)"
    and "\<forall>s. lu_seq_range_within (rng p) s \<longrightarrow> truth (lsr_flags (rng p)) s = Some (lsr_index (rng p))"
  shows "coherent truth (owner c')"
  unfolding coherent_def
proof (intro allI impI)
  fix f s i assume o: "owner c' f s = Some i"
  show "truth f s = Some i"
  proof (cases "f = lsr_flags (rng p) \<and> lu_seq_range_within (rng p) s")
    case True
    with ins_new [OF assms(1-3), of s] o assms(5) show ?thesis by auto
  next
    case False
    from ins_old [OF assms(1-3) False o] assms(4) show ?thesis by (simp add: coherent_def)
  qed
qed

lemma run_coherent:
  "wf c \<Longrightarrow> coherent truth (owner c) \<Longrightarrow> run_ok ins del flush adm rng truth ops c \<Longrightarrow>
     \<exists>c'. cache_run ins del flush ops c = Some c' \<and> wf c' \<and> coherent truth (owner c')"
proof (induction ops arbitrary: c)
  case (Cons a ops)
  show ?case
  proof (cases a)
    case (Insert p)
    from Cons.prems(3) Insert have ok: "adm p c"
      "\<forall>s. lu_seq_range_within (rng p) s \<longrightarrow> truth (lsr_flags (rng p)) s = Some (lsr_index (rng p))"
      "\<And>c'. ins p c = Some c' \<Longrightarrow> run_ok ins del flush adm rng truth ops c'"
      by simp_all
    from ins_total [OF Cons.prems(1) ok(1)] obtain c' where c': "ins p c = Some c'" "wf c'" by blast
    have "coherent truth (owner c')"
      by (rule ins_coherent [OF Cons.prems(1) ok(1) c'(1) Cons.prems(2) ok(2)])
    from Cons.IH [OF c'(2) this ok(3) [OF c'(1)]] show ?thesis using Insert c'(1) by simp
  next
    case (Delete r)
    have "coherent truth (owner (del c r))"
      using Cons.prems(2) del_old [OF Cons.prems(1)] unfolding coherent_def by blast
    from Cons.IH [OF del_wf [OF Cons.prems(1)] this] Cons.prems(3) show ?thesis
      unfolding Delete by simp
  next
    case Flush
    have "coherent truth (owner (flush c))"
      using Cons.prems(2) flush_old [OF Cons.prems(1)] unfolding coherent_def by blast
    from Cons.IH [OF flush_wf [OF Cons.prems(1)] this] Cons.prems(3) show ?thesis
      unfolding Flush by simp
  qed
qed auto

end

section \<open>The cache of the code implements the contract\<close>

definition fld_ins :: "nat option \<times> fld_cache_entry \<Rightarrow> fld_cache \<Rightarrow> fld_cache option" where
  "fld_ins p c = fld_cache_insert_nolock (fst p) c (snd p)"

definition fld_adm :: "nat option \<times> fld_cache_entry \<Rightarrow> fld_cache \<Rightarrow> bool" where
  "fld_adm p c = insert_ok (fst p) c (snd p)"

definition fld_cache_owner :: "fld_cache \<Rightarrow> u32 \<Rightarrow> u64 \<Rightarrow> u32 option" where
  "fld_cache_owner c = fld_owner (fci_entries_head c)"

text \<open>What a lookup answers, in terms of the owner function.\<close>

lemma fld_cache_lookup_ok:
  assumes "fld_cache_wf c" and "fld_cache_lookup c s r = (rc, r', c')"
  shows "(rc = 0 \<and> lu_seq_range_within r' s \<and>
          fld_cache_owner c (lsr_flags r') s = Some (lsr_index r') \<or>
          rc = - ENOENT \<and> (\<forall>f. fld_cache_owner c f s = None)) \<and>
    c'\<lparr>fci_stat := fci_stat c\<rparr> = c"
proof -
  let ?es = "fci_entries_head c"
  have dj: "dj ?es" using assms(1) by (simp add: fld_cache_wf_def)
  have "c'\<lparr>fci_stat := fci_stat c\<rparr> = c"
    using assms(2) by (auto simp: fld_cache_lookup_def Let_def split: sum.splits option.splits)
  moreover consider e where "fld_cache_lookup_scan s None ?es = Inr (fce_range e)" "e \<in> set ?es"
      "lu_seq_range_within (fce_range e) s"
    | p where "fld_cache_lookup_scan s None ?es = Inl p"
    using fld_cache_lookup_scan_Inr [of s None ?es] by (cases "fld_cache_lookup_scan s None ?es") auto
  then have "rc = 0 \<and> lu_seq_range_within r' s \<and>
      fld_cache_owner c (lsr_flags r') s = Some (lsr_index r') \<or>
      rc = - ENOENT \<and> (\<forall>f. fld_cache_owner c f s = None)"
  proof cases
    case (1 e)
    with assms(2) fld_owner_of [OF dj 1(2,3)] show ?thesis
      by (simp add: fld_cache_lookup_def Let_def fld_cache_owner_def)
  next
    case (2 p)
    have "fld_cache_owner c f s = None" for f
      using fld_cache_lookup_scan_complete [OF dj] fld_owner_in [of ?es f s] 2
      by (cases "fld_owner ?es f s") (fastforce simp: fld_cache_owner_def)+
    with 2 assms(2) show ?thesis
      by (auto simp: fld_cache_lookup_def Let_def split: option.splits)
  qed
  ultimately show ?thesis by blast
qed

lemma fld_cache_shrink_loop_entries:
  "\<exists>P. fci_entries_head (fld_cache_shrink_loop c) = filter P (fci_entries_head c)"
proof (induction c rule: fld_cache_shrink_loop.induct)
  case (1 c)
  show ?case
  proof (cases "fci_cache_count c + fci_threshold c > fci_cache_size c \<and> fci_lru c \<noteq> []")
    case True
    from 1 [OF True] obtain P where "fci_entries_head
        (fld_cache_shrink_loop (fld_cache_entry_delete c (last (fci_lru c)))) =
        filter P (fci_entries_head (fld_cache_entry_delete c (last (fci_lru c))))" ..
    moreover have "fld_cache_shrink_loop c =
        fld_cache_shrink_loop (fld_cache_entry_delete c (last (fci_lru c)))"
      by (subst fld_cache_shrink_loop.simps) (simp only: True simp_thms if_True)
    ultimately show ?thesis by (auto simp: fld_cache_entry_delete_def)
  next
    case False
    then have "fld_cache_shrink_loop c = c" by (subst fld_cache_shrink_loop.simps) auto
    then show ?thesis by (intro exI [of _ "\<lambda>_. True"]) simp
  qed
qed

lemma fld_cache_shrink_entries:
  "\<exists>P. fci_entries_head (fld_cache_shrink c) = filter P (fci_entries_head c)"
proof (cases "fld_cache_shrink c = c")
  case True
  then show ?thesis by (intro exI [of _ "\<lambda>_. True"]) simp
next
  case False
  then have "fld_cache_shrink c = fld_cache_shrink_loop c" by (auto simp: fld_cache_shrink_def)
  then show ?thesis using fld_cache_shrink_loop_entries by simp
qed

lemma fld_cache_shrink_owner:
  "fld_cache_wf c \<Longrightarrow> fld_cache_owner (fld_cache_shrink c) f s = Some i \<Longrightarrow> fld_cache_owner c f s = Some i"
  using fld_cache_shrink_entries [of c] fld_owner_filter_ptr
  by (auto simp: fld_cache_owner_def fld_cache_wf_def)

lemma fld_cache_delete_scan_Some:
  "fld_cache_delete_scan r es = Some p \<Longrightarrow> p \<in> set (ptrs es)"
  by (induction es) (auto split: if_splits)

lemma fld_cache_delete_nolock_cases:
  assumes "fld_cache_wf c"
  obtains "fld_cache_delete_nolock c r = c"
  | p where "fld_cache_delete_nolock c r = fld_cache_entry_delete c p" "p \<in> set (fci_lru c)"
  using assms fld_cache_delete_scan_Some
  by (cases "fld_cache_delete_scan r (fci_entries_head c)")
    (force simp: fld_cache_delete_nolock_def fld_cache_wf_def)+

lemma fld_cache_wf_size: "fld_cache_wf (c\<lparr>fci_cache_size := n\<rparr>) = fld_cache_wf c"
  by (simp add: fld_cache_wf_def)

interpretation fldc: seq_cache fld_cache_wf fld_cache_owner fld_ins fld_adm
  "\<lambda>p. fce_range (snd p)" fld_cache_delete_nolock fld_cache_flush
proof (unfold_locales, goal_cases)
  case (1 c p)
  then show ?case using fld_cache_insert_nolock_ok [of c "fst p" "snd p"] by (auto simp: fld_ins_def fld_adm_def)
next
  case (2 c p c' s)
  then show ?case using fld_cache_insert_nolock_ok [of c "fst p" "snd p"]
    by (auto simp: fld_ins_def fld_adm_def fld_cache_owner_def fld_override_def)
next
  case (3 c p c' f s i)
  then have "fld_cache_owner (fld_cache_shrink c) f s = Some i"
    using fld_cache_insert_nolock_ok [of c "fst p" "snd p"]
    by (auto simp: fld_ins_def fld_adm_def fld_cache_owner_def fld_override_def)
  then show ?case using fld_cache_shrink_owner 3(1) by blast
next
  case (4 c r)
  show ?case
    by (cases rule: fld_cache_delete_nolock_cases [OF 4, of r])
      (use 4 in \<open>auto intro: fld_cache_entry_delete_wf\<close>)
next
  case (5 c r f s i)
  show ?case
  proof (cases rule: fld_cache_delete_nolock_cases [OF 5(1), of r])
    case (2 p)
    with 5 show ?thesis using fld_owner_filter_ptr [of "fci_entries_head c"]
      by (auto simp: fld_cache_owner_def fld_cache_entry_delete_def fld_cache_wf_def)
  qed (use 5 in simp)
next
  case (6 c)
  then show ?case by (simp add: fld_cache_flush_def fld_cache_shrink_wf fld_cache_wf_size)
next
  case (7 c f s i)
  then have "fld_cache_owner (c\<lparr>fci_cache_size := 0\<rparr>) f s = Some i"
    using fld_cache_shrink_owner [of "c\<lparr>fci_cache_size := 0\<rparr>" f s i]
    by (simp add: fld_cache_flush_def fld_cache_wf_size)
  then show ?case by (simp add: fld_cache_owner_def)
qed

end
