(* ===== verification/Fld_Properties.thy ===== *)
theory Fld_Properties
  imports Fld_Interface
begin

text \<open>
  What the FLD cache guarantees to its callers, stated on the entry points \<^verbatim>\<open>fld_cache_insert\<close>,
  \<^verbatim>\<open>fld_cache_lookup\<close>, \<^verbatim>\<open>fld_cache_delete_nolock\<close> and \<^verbatim>\<open>fld_cache_flush\<close>, and two inputs on which an
  insertion goes wrong.
\<close>

section \<open>Two inputs that insertion mishandles\<close>

lemma hole_overlap_at:
  assumes "dj (pre @ fc # post)" and "hole new fc" and "lsr_start new < lsr_end new"
  shows "overlap_at new pre fc post"
  using assms unfolding overlap_at_def hole_def cross_disjoint_def
  by (fastforce simp: dj_append)

lemma fld_owner_other_type:
  assumes "dj es" and "e \<in> set es" and "lu_seq_range_within (fce_range e) s" and "f \<noteq> e_flags e"
  shows "fld_owner es f s = None"
proof (cases "fld_owner es f s")
  case (Some i)
  then obtain e' where "e' \<in> set es" "e_flags e' = f" "lu_seq_range_within (fce_range e') s"
    using fld_owner_in by blast
  with dj_within_unique [OF assms(1,2) _ assms(3)] assms(4) show ?thesis by blast
qed simp

text \<open>The tail that \<^verbatim>\<open>fld_cache_punch_hole\<close> splits off always has type 0.\<close>

lemma fld_cache_punch_hole_type:
  assumes wf: "fld_cache_wf c" and es: "fci_entries_head c = pre @ fc # post"
    and h: "hole (fce_range f_new) fc" and ne: "nonempty f_new"
    and t: "t \<notin> set (ptrs (pre @ fc # post))"
    and ft: "t \<noteq> fce_ptr f_new" and fresh: "fce_ptr f_new \<notin> set (ptrs (pre @ fc # post))"
    and s: "lsr_end (fce_range f_new) \<le> s" "s < e_end fc"
  shows "\<exists>c'. fld_cache_punch_hole (Some t) c fc f_new = Some c' \<and>
    fld_owner (fci_entries_head c') 0 s = Some (e_index fc) \<and>
    (lsr_flags (fce_range f_new) \<noteq> 0 \<longrightarrow> fld_owner (fci_entries_head c') (e_flags fc) s = None)"
proof -
  let ?new = "fce_range f_new"
  let ?fc = "fc\<lparr>fce_range := (fce_range fc)\<lparr>lsr_end := lsr_start ?new\<rparr>\<rparr>"
  let ?tail = "\<lambda>f. \<lparr>fce_ptr = t, fce_range = \<lparr>lsr_start = lsr_end ?new, lsr_end = e_end fc,
    lsr_index = e_index fc, lsr_flags = f\<rparr>\<rparr>"
  have wfd: "settled (pre @ fc # post)" "distinct (ptrs (pre @ fc # post))" "dj (pre @ fc # post)"
    using wf es by (simp_all add: fld_cache_wf_def)
  note o = hole_overlap_at [OF wfd(3) h ne]
  note shape = overlap_hole [OF o wfd(1) h refl, of "?tail (lsr_flags ?new)", simplified]
  let ?c1 = "c\<lparr>fci_entries_head := pre @ ?fc # f_new # post, fci_lru := fce_ptr f_new # fci_lru c,
    fci_cache_count := fci_cache_count c + 1\<rparr>"
  let ?L = "pre @ ?fc # f_new # ?tail 0 # post"
  have add1: "fld_cache_entry_add (set_range (fce_ptr fc) (\<lambda>r. r\<lparr>lsr_end := lsr_start ?new\<rparr>) c)
      f_new (Some (fce_ptr fc)) = Some ?c1"
    using shape(1,2) wfd es map_at_ptr [OF wfd(2)] list_add_behind [of ?fc pre f_new post]
    by (simp add: fld_cache_entry_add_def set_range_def fld_fix_new_list_settled)
  have wf1: "fld_cache_wf ?c1" using wf es shape(1,2) fresh by (auto simp: fld_cache_wf_def)
  have "dj ?L" using shape(3) by (simp add: dj_append)
  then have "okl ((pre @ [?fc, f_new]) @ ?tail 0 # post)" by (simp add: dj_okl)
  from fix_added [OF wf1 this] t ft
  obtain c' where c': "fld_cache_entry_add ?c1 (?tail 0) (Some (fce_ptr f_new)) = Some c'"
    "fld_owner (fci_entries_head c') = fld_owner ?L"
    using fresh list_add_behind [of f_new "pre @ [?fc]" "?tail 0" post]
    by (auto simp: fld_cache_entry_add_def)
  have L: "fld_owner ?L 0 s = Some (e_index fc)"
    using fld_owner_of [OF \<open>dj ?L\<close>, of "?tail 0" s] s by (simp add: lu_seq_range_within_def)
  have "fld_owner ?L (e_flags fc) s = None" if "lsr_flags ?new \<noteq> 0"
    by (rule fld_owner_other_type [OF \<open>dj ?L\<close>, of "?tail 0"])
      (use s that h in \<open>auto simp: lu_seq_range_within_def hole_def\<close>)
  with add1 c' L show ?thesis by (simp add: fld_cache_punch_hole_def)
qed

lemma fld_cache_insert_meets:
  assumes wf: "fld_cache_wf c" and e: "e \<in> set (fci_entries_head c)"
    and fl: "e_flags e = lsr_flags r" and st: "e_start e < lsr_start r" "lsr_start r < e_end e"
      "lsr_start r < lsr_end r"
    and room: "fci_cache_count c < fci_cache_size c"
  shows "fld_cache_insert (Some p) fldt c r =
    map_option (Pair 0) (fld_cache_overlap_handle fldt c e \<lparr>fce_ptr = p, fce_range = r\<rparr>)"
proof -
  obtain pre post where es: "fci_entries_head c = pre @ e # post" using e by (meson split_list)
  have "fld_cache_insert_scan r None (fci_entries_head c) = Inr e"
    unfolding es by (rule fld_cache_insert_scan_hits) (use wf es fl st in \<open>auto simp: fld_cache_wf_def\<close>)
  then show ?thesis using room less_imp_le [OF st(3)]
    by (simp add: fld_cache_insert_def fld_cache_entry_create_def fld_cache_insert_nolock_def
        fld_cache_shrink_def lu_seq_range_is_sane_def LASSERT_def)
qed

section \<open>Examples\<close>

definition example_range :: "u64 \<Rightarrow> u64 \<Rightarrow> u32 \<Rightarrow> u32 \<Rightarrow> lu_seq_range" where
  "example_range s e i f = \<lparr>lsr_start = s, lsr_end = e, lsr_index = i, lsr_flags = f\<rparr>"

text \<open>A cache for 8 entries, one of which is \<open>r\<close>.\<close>

definition example_cache :: "lu_seq_range \<Rightarrow> fld_cache" where
  "example_cache r = \<lparr>fci_threshold = 2, fci_cache_size = 8, fci_cache_count = 1, fci_lru = [1],
     fci_entries_head = [\<lparr>fce_ptr = 1, fce_range = r\<rparr>],
     fci_stat = \<lparr>fst_count = 0, fst_cache = 0\<rparr>, fci_name = ''srv''\<rparr>"

lemmas example_simps = example_cache_def example_range_def fld_cache_wf_def
  fld_cache_owner_def fld_cache_shrink_def lu_seq_range_within_def

section \<open>Properties\<close>

text \<open>
  C1: Inserting a range into a well-formed cache, under the conditions of \<^term>\<open>insert_ok\<close>, returns 0 without stopping at an assertion, keeps the cache well formed, and makes the
  target of the range the owner of exactly the sequences of the range; every other sequence keeps
  the owner it has in the shrunk cache, since a full cache is shrunk before the insertion. The conditions are: the range is not empty; the address of the
  new entry is not in use; the range overlaps no entry of the other type; no entry of another target contains the start of the range in its inside and ends where the range ends
  (a defect below shows what happens then); and if the range lies strictly inside an entry of another target, the type is MDT (another defect below shows what
  happens for OST) and a second entry with a fresh address can be allocated. All other overlaps of ranges of one type are covered, with
  \<^verbatim>\<open>fld_cache_overlap_handle\<close> and the fix-up loop.
\<close>

theorem fld_cache_insert_refines:
  assumes "fld_cache_wf c" and "insert_ok fldt c \<lparr>fce_ptr = p, fce_range = r\<rparr>"
  shows "\<exists>c'. fld_cache_insert (Some p) fldt c r = Some (0, c') \<and> fld_cache_wf c' \<and>
    (\<forall>f s. fld_cache_owner c' f s =
      (if f = lsr_flags r \<and> lu_seq_range_within r s then Some (lsr_index r)
       else fld_cache_owner (fld_cache_shrink c) f s))"
  using fld_cache_insert_nolock_ok [OF assms] assms(2)
  by (auto simp: fld_cache_insert_def fld_cache_entry_create_def LASSERT_def insert_ok_def Let_def
      lu_seq_range_is_sane_def fld_cache_owner_def fld_override_def fun_eq_iff)

theorem fld_cache_insert_refines_witness:
  "\<exists>c'. fld_cache_insert (Some 2) (Some 3) (example_cache (example_range 100 200 0 0))
      (example_range 140 160 7 0) = Some (0, c') \<and> fld_cache_wf c' \<and>
    fld_cache_owner c' 0 150 = Some 7 \<and> fld_cache_owner c' 0 120 = Some 0 \<and>
    fld_cache_owner c' 0 180 = Some 0"
proof -
  have "fld_cache_wf (example_cache (example_range 100 200 0 0))"
    "insert_ok (Some 3) (example_cache (example_range 100 200 0 0))
       \<lparr>fce_ptr = 2, fce_range = example_range 140 160 7 0\<rparr>"
    by (simp_all add: example_simps insert_ok_def cross_disjoint_def tail_conflict_def hole_def)
  from fld_cache_insert_refines [OF this] show ?thesis by (auto simp: example_simps)
qed

text \<open>
  C20: A lookup in a well-formed cache succeeds exactly for the sequences some entry owns: it returns 0
  with a range that holds the sequence and names its owner, or \<^verbatim>\<open>-ENOENT\<close> when no entry of any type
  holds it. It changes nothing but the statistics.
\<close>

theorem fld_cache_lookup_correct:
  assumes "fld_cache_wf c" and "fld_cache_lookup c s r = (rc, r', c')"
  shows "(rc = 0 \<and> lu_seq_range_within r' s \<and>
          fld_cache_owner c (lsr_flags r') s = Some (lsr_index r') \<or>
          rc = - ENOENT \<and> (\<forall>f. fld_cache_owner c f s = None)) \<and>
    c'\<lparr>fci_stat := fci_stat c\<rparr> = c"
  using assms by (rule fld_cache_lookup_ok)

theorem fld_cache_lookup_correct_witness:
  "fld_cache_owner (example_cache (example_range 100 200 7 0)) 0 150 = Some 7"
proof -
  let ?c = "example_cache (example_range 100 200 7 0)"
  have wf: "fld_cache_wf ?c" by (simp add: example_simps)
  obtain c' where l: "fld_cache_lookup ?c 150 lu_seq_range_init = (0, example_range 100 200 7 0, c')"
    by (simp add: fld_cache_lookup_def example_simps)
  from fld_cache_lookup_correct [OF wf l] show ?thesis
    by (auto simp: example_range_def ENOENT_def)
qed

text \<open>
  C12: A cache that starts coherent with the true location of every sequence stays coherent, and never
  stops at an assertion, along every run of insertions of true ranges, deletions and flushes.
\<close>

theorem fld_cache_stays_coherent:
  assumes "fld_cache_wf c" and "coherent truth (fld_cache_owner c)"
    and "run_ok fld_ins fld_cache_delete_nolock fld_cache_flush fld_adm (\<lambda>p. fce_range (snd p))
           truth ops c"
  shows "\<exists>c'. cache_run fld_ins fld_cache_delete_nolock fld_cache_flush ops c = Some c' \<and>
    fld_cache_wf c' \<and> coherent truth (fld_cache_owner c')"
  using assms by (rule fldc.run_coherent)

theorem fld_cache_stays_coherent_witness:
  "\<exists>c'. cache_run fld_ins fld_cache_delete_nolock fld_cache_flush
      [Insert (None, \<lparr>fce_ptr = 2, fce_range = example_range 200 300 5 1\<rparr>), Flush]
      (example_cache (example_range 100 200 7 0)) = Some c' \<and> fld_cache_wf c' \<and>
    coherent (\<lambda>f s. if f = 0 \<and> 100 \<le> s \<and> s < 200 then Some 7 else Some 5) (fld_cache_owner c')"
  by (rule fld_cache_stays_coherent)
    (auto simp: example_simps coherent_def fld_adm_def insert_ok_def cross_disjoint_def
      tail_conflict_def hole_def)

text \<open>
  C26: A shrink ends, keeps the cache well formed, never adds or changes an entry, and leaves the cache
  below its size limit unless it emptied it.
\<close>

theorem fld_cache_shrink_bound:
  assumes "fld_cache_wf c" and "0 \<le> fci_threshold c"
  shows "fld_cache_wf (fld_cache_shrink c) \<and>
    set (fci_entries_head (fld_cache_shrink c)) \<subseteq> set (fci_entries_head c) \<and>
    (fci_cache_count (fld_cache_shrink c) \<le> fci_cache_size c \<or>
     fci_entries_head (fld_cache_shrink c) = [])"
  using fld_cache_shrink_wf [OF assms(1)] fld_cache_shrink_loop_bound [OF assms(1)] assms(2)
  by (auto simp: fld_cache_shrink_def)

theorem fld_cache_shrink_bound_witness:
  "fci_entries_head (fld_cache_shrink ((example_cache (example_range 100 200 7 0))\<lparr>fci_cache_size := 0\<rparr>)) = []"
  using fld_cache_shrink_bound [of "(example_cache (example_range 100 200 7 0))\<lparr>fci_cache_size := 0\<rparr>"]
  by (auto simp: example_simps fld_cache_wf_def)

text \<open>
  C28: A defect: inserting a range that starts inside a cached range of another target and ends
  exactly where it ends stops at the assertion \<^verbatim>\<open>LASSERT(new_start <= f_curr->fce_range.lsr_start)\<close>,
  since the test \<^verbatim>\<open>new_end <= f_curr->fce_range.lsr_end\<close> sends it to the wrong case.
\<close>

theorem fld_cache_insert_tail_lbug:
  assumes "fld_cache_wf c" and "e \<in> set (fci_entries_head c)" and "tail_conflict r e"
    and "lsr_start r < lsr_end r" and "fci_cache_count c < fci_cache_size c"
  shows "fld_cache_insert (Some p) fldt c r = None"
  using fld_cache_insert_meets [OF assms(1,2) _ _ _ assms(4,5), of p fldt]
    fld_cache_overlap_handle_lbug [of "\<lparr>fce_ptr = p, fce_range = r\<rparr>" e fldt c] assms(3,4)
  by (simp add: tail_conflict_def)

theorem fld_cache_insert_tail_lbug_witness:
  "fld_cache_insert (Some 2) (Some 3) (example_cache (example_range 10 20 0 0))
     (example_range 15 20 1 0) = None"
  by (rule fld_cache_insert_tail_lbug [of _ "\<lparr>fce_ptr = 1, fce_range = example_range 10 20 0 0\<rparr>"])
    (simp_all add: example_simps tail_conflict_def)

text \<open>
  C29: A defect: punching a hole into a cached OST range turns the part behind the hole into an MDT
  range, because \<^verbatim>\<open>fld_cache_punch_hole\<close> leaves the flags of the entry it allocates at zero.
\<close>

theorem fld_cache_insert_hole_type:
  assumes "fld_cache_wf c" and "e \<in> set (fci_entries_head c)" and "hole r e"
    and "lsr_start r < lsr_end r" and "fci_cache_count c < fci_cache_size c"
    and "p \<notin> set (ptrs (fci_entries_head c))" and "t \<notin> set (ptrs (fci_entries_head c))" "t \<noteq> p"
    and "lsr_flags r = LU_SEQ_RANGE_OST" and "lsr_end r \<le> s" and "s < e_end e"
  shows "fld_cache_owner c LU_SEQ_RANGE_OST s = Some (e_index e) \<and>
    (\<exists>c'. fld_cache_insert (Some p) (Some t) c r = Some (0, c') \<and>
       fld_cache_owner c' LU_SEQ_RANGE_OST s = None \<and>
       fld_cache_owner c' LU_SEQ_RANGE_MDT s = Some (e_index e))"
proof -
  obtain pre post where es: "fci_entries_head c = pre @ e # post" using assms(2) by (meson split_list)
  have fl: "e_flags e = lsr_flags r" and lt: "e_start e < lsr_start r" "lsr_end r < e_end e"
    and ix: "e_index e \<noteq> lsr_index r" using assms(3) by (auto simp: hole_def)
  from lt assms(4) have mid: "lsr_start r < e_end e" by (meson order.strict_trans)
  have "fld_cache_overlap_handle (Some t) c e \<lparr>fce_ptr = p, fce_range = r\<rparr> =
      fld_cache_punch_hole (Some t) c e \<lparr>fce_ptr = p, fce_range = r\<rparr>"
    using fl lt ix by (auto simp: fld_cache_overlap_handle_def Let_def)
  moreover obtain c' where "fld_cache_punch_hole (Some t) c e \<lparr>fce_ptr = p, fce_range = r\<rparr> = Some c'"
    "fld_owner (fci_entries_head c') 0 s = Some (e_index e)"
    "fld_owner (fci_entries_head c') (e_flags e) s = None"
    using fld_cache_punch_hole_type [OF assms(1) es, of "\<lparr>fce_ptr = p, fce_range = r\<rparr>" t s] assms es
    by (auto simp: LU_SEQ_RANGE_OST_def)
  moreover have "fld_owner (fci_entries_head c) (e_flags e) s = Some (e_index e)"
    using assms(1,2,10,11) lt assms(4)
    by (intro fld_owner_of) (auto simp: fld_cache_wf_def lu_seq_range_within_def)
  ultimately show ?thesis
    using fld_cache_insert_meets [OF assms(1,2) fl lt(1) mid assms(4,5), of p "Some t"] fl assms(9)
    by (simp add: fld_cache_owner_def LU_SEQ_RANGE_MDT_def)
qed

theorem fld_cache_insert_hole_type_witness:
  "\<exists>c'. fld_cache_insert (Some 2) (Some 3) (example_cache (example_range 10 20 0 LU_SEQ_RANGE_OST))
       (example_range 12 15 1 LU_SEQ_RANGE_OST) = Some (0, c') \<and>
     fld_cache_owner c' LU_SEQ_RANGE_OST 18 = None"
  using fld_cache_insert_hole_type [of "example_cache (example_range 10 20 0 LU_SEQ_RANGE_OST)"
      "\<lparr>fce_ptr = 1, fce_range = example_range 10 20 0 LU_SEQ_RANGE_OST\<rparr>"
      "example_range 12 15 1 LU_SEQ_RANGE_OST" 2 3 18]
  by (auto simp: example_simps hole_def LU_SEQ_RANGE_OST_def)

end
