(* ===== verification/Fld_Rpc.thy ===== *)
theory Fld_Rpc
  imports Fld_Cache
begin

text \<open>
  What the server and the client of the FID location database share: the remote call \<^verbatim>\<open>fld_client_rpc\<close> of
  \<^verbatim>\<open>lustre/fld/fld_request.c\<close>, and the index in the name of a server, \<^verbatim>\<open>fld_name_to_index\<close> of \<^verbatim>\<open>lustre/fld/fld_handler.c\<close> with
  \<^verbatim>\<open>target_name2index\<close> of \<^verbatim>\<open>lustre/obdclass/obd_mount.c\<close>.
\<close>

section \<open>Names\<close>

definition LDD_F_SV_TYPE_MDT :: int where "LDD_F_SV_TYPE_MDT = 0x0001"
definition LDD_F_SV_TYPE_OST :: int where "LDD_F_SV_TYPE_OST = 0x0002"
definition LDD_F_SV_ALL :: int where "LDD_F_SV_ALL = 0x0008"

type_synonym kstrtou16 = "string \<Rightarrow> int + 16 word"

text \<open>
  \<^verbatim>\<open>kstrtou16\<close> of the kernel, here for base 16, is an argument: it gives a negative error or the number. \<^verbatim>\<open>idx0\<close> is what the index holds
  before the call. The copy into \<^verbatim>\<open>num\<close> is at most four characters.
\<close>

definition target_name2index :: "kstrtou16 \<Rightarrow> string \<Rightarrow> u32 \<Rightarrow> int \<times> u32" where
  "target_name2index kstrtou16 tgtname idx0 =
     (if take 3 tgtname \<noteq> ''MDT'' \<and> take 3 tgtname \<noteq> ''OST'' then (- EINVAL, idx0)
      else let type = (if take 3 tgtname = ''MDT'' then LDD_F_SV_TYPE_MDT else LDD_F_SV_TYPE_OST);
               dash = drop 3 tgtname
           in if take 3 dash = ''all'' then (type OR LDD_F_SV_ALL, idx0)
              else let len = length (takeWhile (\<lambda>c. c \<in> set ''0123456789ABCDEFabcdef'') dash)
                   in if len > 4 then (- ERANGE, idx0)
                      else case kstrtou16 (if length dash \<noteq> len then take 4 dash else dash) of
                             Inl rc \<Rightarrow> (rc, idx0)
                           | Inr index \<Rightarrow> (type, ucast index))"

text \<open>The part of a name behind its last dash.\<close>

fun after_last_dash :: "string \<Rightarrow> string option" where
  "after_last_dash [] = None"
| "after_last_dash (c # cs) = (case after_last_dash cs of
       Some d \<Rightarrow> Some d | None \<Rightarrow> if c = CHR ''-'' then Some cs else None)"

definition fld_name_to_index :: "kstrtou16 \<Rightarrow> string \<Rightarrow> u32 \<Rightarrow> int \<times> u32" where
  "fld_name_to_index kstrtou16 name index0 =
     (case after_last_dash name of
        None \<Rightarrow> (- EINVAL, index0)
      | Some dash \<Rightarrow> target_name2index kstrtou16 dash index0)"

section \<open>Remote calls\<close>

definition FLD_QUERY :: u32 where "FLD_QUERY = 900"
definition FLD_READ :: u32 where "FLD_READ = 901"

text \<open>
  One attempt of the loop in \<^verbatim>\<open>fld_client_rpc\<close>: the status of the allocation of the request, whether the failure point
  \<^verbatim>\<open>OBD_FAIL_FLD_QUERY_REQ\<close> is set for a request with \<^verbatim>\<open>rq_no_delay\<close>, the answer of \<^verbatim>\<open>ptlrpc_queue_wait\<close> to the range sent (a status, the range
  and the array of a reply), whether the import is an open, active connection of the lightweight proxy, and whether the
  sleep is interrupted. An attempt list that is used up means that the call has not returned: \<^term>\<open>None\<close>.
\<close>

type_synonym fld_reply = "lu_seq_range option \<times> lu_seq_range list option"

record rpc_try =
  rt_alloc :: int
  rt_fail :: bool
  rt_reply :: "lu_seq_range \<Rightarrow> int \<times> fld_reply"
  rt_lwp :: bool
  rt_interrupted :: bool

fun fld_client_rpc :: "bool \<Rightarrow> rpc_try list \<Rightarrow> lu_seq_range \<Rightarrow> u32 \<Rightarrow> (int \<times> lu_seq_range \<times> fld_reply) option" where
  "fld_client_rpc exp [] rng fld_op = None"
| "fld_client_rpc exp (t # ts) rng fld_op =
     do { LASSERT exp;
          if fld_op \<noteq> FLD_QUERY \<and> fld_op \<noteq> FLD_READ then Some (- EINVAL, rng, None, None)
          else if rt_alloc t \<noteq> 0 then Some (rt_alloc t, rng, None, None)
          else do {
            let (rc, reply) = (if rt_fail t then (- EAGAIN, None, None) else rt_reply t rng);
            if rc = - ENOENT then Some (rc, rng, None, None)
            else if rc \<noteq> 0 then
              (let rc1 = (if rt_lwp t \<and> rc \<noteq> - ENOTSUPP then - EAGAIN else rc)
               in if rc1 = - EAGAIN
                  then if rt_interrupted t then Some (- EINTR, rng, None, None)
                       else fld_client_rpc exp ts rng fld_op
                  else Some (rc1, rng, None, None))
            else if fld_op = FLD_QUERY
            then case fst reply of
                   None \<Rightarrow> Some (- EFAULT, rng, None, None)
                 | Some prange \<Rightarrow> Some (0, prange, reply)
            else Some (0, rng, reply) } }"

end
