(* ===== verification/Fld_Index.thy ===== *)
theory Fld_Index
  imports Fld_Rpc
begin

text \<open>
  The index of the FID location database on disk, \<^verbatim>\<open>lustre/fld/fld_index.c\<close>. The storage layer keeps the records of the index sorted by
  their first sequence; the status of each of its calls is an argument, and a call with status 0 has its effect. The cache
  of the server, which the index functions read and write, is that of \<open>Fld_Cache\<close>.
\<close>

record lu_server_fld =
  lsf_obj :: bool
  lsf_index :: "lu_seq_range list"
  lsf_control_exp :: bool
  lsf_cache :: fld_cache
  lsf_name :: string
  lsf_new :: bool

section \<open>The storage layer\<close>

fun index_insert :: "lu_seq_range \<Rightarrow> lu_seq_range list \<Rightarrow> lu_seq_range list" where
  "index_insert r [] = [r]"
| "index_insert r (x # xs) =
     (if lsr_start r < lsr_start x then r # x # xs else x # index_insert r xs)"

text \<open>
  The keys of an index are unique, \<^verbatim>\<open>dio_insert\<close> of \<^verbatim>\<open>lustre/include/dt_object.h\<close>: an insertion fails with \<^verbatim>\<open>-EEXIST\<close> when the index has a record
  with the key.
\<close>

definition dt_insert :: "int \<Rightarrow> lu_seq_range \<Rightarrow> lu_seq_range list \<Rightarrow> int \<times> lu_seq_range list" where
  "dt_insert status r ix =
     (if status \<noteq> 0 then (status, ix)
      else if lsr_start r \<in> lsr_start ` set ix then (- EEXIST, ix)
      else (0, index_insert r ix))"

definition index_delete :: "u64 \<Rightarrow> lu_seq_range list \<Rightarrow> lu_seq_range list" where
  "index_delete key ix = filter (\<lambda>r. lsr_start r \<noteq> key) ix"

text \<open>The status of the calls of one insertion, and the allocator results for the cache.\<close>

record index_env =
  ie_rdonly :: bool
  ie_trans_create :: int
  ie_declare_delete :: int
  ie_declare_insert :: int
  ie_trans_start :: int
  ie_delete :: int
  ie_insert :: int
  ie_alloc :: "nat option"
  ie_fldt :: "nat option"

section \<open>Lookup and insertion\<close>

text \<open>The buffer \<^verbatim>\<open>fti_rec\<close> of the thread holds \<open>rec0\<close> before the lookup; the range is written only when the cache finds the sequence.\<close>

definition fld_index_lookup ::
  "lu_seq_range \<Rightarrow> lu_server_fld \<Rightarrow> u64 \<Rightarrow> lu_seq_range \<Rightarrow> int \<times> lu_seq_range \<times> lu_server_fld" where
  "fld_index_lookup rec0 fld seq rng =
     (let (rc, fld_rec, cache) = fld_cache_lookup (lsf_cache fld) seq rec0;
          fld' = fld\<lparr>lsf_cache := cache\<rparr>
      in if rc = 0 then (if lu_seq_range_within fld_rec seq then 0 else - ENOENT, fld_rec, fld') else (rc, rng, fld'))"

text \<open>\<open>mergeable_left\<close> is the test for a record that can be extended to the right.\<close>

definition mergeable_left :: "lu_seq_range \<Rightarrow> lu_seq_range \<Rightarrow> bool" where
  "mergeable_left new_range rng \<longleftrightarrow> lsr_start new_range = lsr_end rng \<and> lsr_end rng \<noteq> 0 \<and>
     \<not> lu_seq_range_compare_loc new_range rng"

definition fld_declare_index_create ::
  "index_env \<Rightarrow> lu_seq_range \<Rightarrow> lu_server_fld \<Rightarrow> lu_seq_range \<Rightarrow> (int \<times> lu_server_fld) option" where
  "fld_declare_index_create env rec0 fld new_range =
     (let (rc, rng, fld') = fld_index_lookup rec0 fld (lsr_start new_range) lu_seq_range_init
      in if rc = 0 then do { LASSERT (\<not> lu_seq_range_compare_loc new_range rng); Some (- EEXIST, fld') }
         else if rc \<noteq> - ENOENT then Some (rc, fld')
         else if mergeable_left new_range rng \<and> ie_declare_delete env \<noteq> 0 then Some (ie_declare_delete env, fld')
         else Some (ie_declare_insert env, fld'))"

definition fld_index_create ::
  "index_env \<Rightarrow> lu_seq_range \<Rightarrow> lu_server_fld \<Rightarrow> lu_seq_range \<Rightarrow> (int \<times> lu_server_fld) option" where
  "fld_index_create env rec0 fld new_range =
     (let (rc, rng, fld1) = fld_index_lookup rec0 fld (lsr_start new_range) lu_seq_range_init;
          deleted = mergeable_left new_range rng
      in if rc \<noteq> - ENOENT then Some (if rc = 0 then - EEXIST else rc, fld1)
         else if deleted \<and> ie_delete env \<noteq> 0 then Some (ie_delete env, fld1)
         else
           (let tmp = (if deleted then new_range\<lparr>lsr_start := lsr_start rng\<rparr> else new_range);
                fld2 = (if deleted then fld1\<lparr>lsf_index := index_delete (lsr_start rng) (lsf_index fld1)\<rparr> else fld1)
            in case dt_insert (ie_insert env) tmp (lsf_index fld2) of (rc, index) \<Rightarrow>
               if rc \<noteq> 0 then Some (rc, fld2)
               else do {
                 let fld3 = fld2\<lparr>lsf_index := index\<rparr>;
                 flde \<leftarrow> fld_cache_entry_create (ie_alloc env) new_range;
                 case flde of
                   Inl err \<Rightarrow> Some (err, fld3)
                 | Inr f_new \<Rightarrow> do {
                     let cache = (if deleted then fld_cache_delete_nolock (lsf_cache fld3) new_range else lsf_cache fld3);
                     cache' \<leftarrow> fld_cache_insert_nolock (ie_fldt env) cache f_new;
                     Some (0, fld3\<lparr>lsf_cache := cache'\<rparr>) } }))"

definition fld_insert_entry ::
  "index_env \<Rightarrow> lu_seq_range \<Rightarrow> lu_server_fld \<Rightarrow> lu_seq_range \<Rightarrow> (int \<times> lu_server_fld) option" where
  "fld_insert_entry env rec0 fld rng =
     (if ie_rdonly env then Some (0, fld)
      else if ie_trans_create env \<noteq> 0 then Some (ie_trans_create env, fld)
      else do {
        (rc, fld1) \<leftarrow> fld_declare_index_create env rec0 fld rng;
        if rc \<noteq> 0 then Some (if rc = - EEXIST then 0 else rc, fld1)
        else if ie_trans_start env \<noteq> 0 then Some (ie_trans_start env, fld1)
        else do {
          (rc, fld2) \<leftarrow> fld_index_create env rec0 fld1 rng;
          Some (if rc = - EEXIST then 0 else rc, fld2) } })"

section \<open>Special sequences\<close>

definition FID_SEQ_IGIF :: u64 where "FID_SEQ_IGIF = 12"
definition FID_SEQ_IGIF_MAX :: u64 where "FID_SEQ_IGIF_MAX = 0x0ffffffff"
definition FID_SEQ_DOT_LUSTRE :: u64 where "FID_SEQ_DOT_LUSTRE = 0x200000002"
definition FID_SEQ_ROOT :: u64 where "FID_SEQ_ROOT = 0x200000007"

definition IGIF_FLD_RANGE :: lu_seq_range where
  "IGIF_FLD_RANGE = \<lparr>lsr_start = FID_SEQ_IGIF, lsr_end = FID_SEQ_IGIF_MAX + 1, lsr_index = 0, lsr_flags = LU_SEQ_RANGE_MDT\<rparr>"

definition DOT_LUSTRE_FLD_RANGE :: lu_seq_range where
  "DOT_LUSTRE_FLD_RANGE = \<lparr>lsr_start = FID_SEQ_DOT_LUSTRE, lsr_end = FID_SEQ_DOT_LUSTRE + 1, lsr_index = 0,
     lsr_flags = LU_SEQ_RANGE_MDT\<rparr>"

definition ROOT_FLD_RANGE :: lu_seq_range where
  "ROOT_FLD_RANGE = \<lparr>lsr_start = FID_SEQ_ROOT, lsr_end = FID_SEQ_ROOT + 1, lsr_index = 0, lsr_flags = LU_SEQ_RANGE_MDT\<rparr>"

definition fld_insert_special_entries ::
  "index_env \<times> index_env \<times> index_env \<Rightarrow> lu_seq_range \<Rightarrow> lu_server_fld \<Rightarrow> (int \<times> lu_server_fld) option" where
  "fld_insert_special_entries envs rec0 fld = (case envs of (env1, env2, env3) \<Rightarrow> do {
     (rc, fld1) \<leftarrow> fld_insert_entry env1 rec0 fld IGIF_FLD_RANGE;
     if rc \<noteq> 0 then Some (rc, fld1)
     else do {
       (rc, fld2) \<leftarrow> fld_insert_entry env2 rec0 fld1 DOT_LUSTRE_FLD_RANGE;
       if rc \<noteq> 0 then Some (rc, fld2) else fld_insert_entry env3 rec0 fld2 ROOT_FLD_RANGE } })"

section \<open>Loading the index\<close>

text \<open>
  What the iterator over the index returns: for each record it visits the status of \<^verbatim>\<open>rec\<close>, the record and the allocator results for its cache
  entry, and at the end the status of \<^verbatim>\<open>next\<close>, positive at the end of the index and negative on an error.
  An error of \<^verbatim>\<open>load\<close> is such an end before any record. \<open>is_index0\<close> is what the variable \<^verbatim>\<open>index\<close> holds before it is set.
\<close>

record index_scan =
  is_locate :: int
  is_exists :: bool
  is_create :: int
  is_try :: int
  is_init :: int
  is_recs :: "(int \<times> lu_seq_range \<times> nat option \<times> nat option) list"
  is_end :: int
  is_index0 :: u32

text \<open>The loop leaves with a status through \<^verbatim>\<open>goto\<close>, or it ends.\<close>

fun fld_index_load ::
  "(int \<times> lu_seq_range \<times> nat option \<times> nat option) list \<Rightarrow> int \<Rightarrow> nat \<Rightarrow> fld_cache
     \<Rightarrow> (int option \<times> nat \<times> fld_cache) option" where
  "fld_index_load [] end_rc range_count cache =
     Some (if end_rc < 0 then Some end_rc else None, range_count, cache)"
| "fld_index_load ((rc, rng, alloc, fldt) # recs) end_rc range_count cache =
     (if rc \<noteq> 0 then Some (Some rc, range_count, cache)
      else if lsr_start rng < lsr_end rng then do {
        (rc', cache') \<leftarrow> fld_cache_insert alloc fldt cache rng;
        if rc' \<noteq> 0 then Some (Some rc', range_count, cache')
        else fld_index_load recs end_rc (range_count + 1) cache' }
      else fld_index_load recs end_rc range_count cache)"

definition fld_index_out :: "int \<Rightarrow> lu_server_fld \<Rightarrow> int \<times> lu_server_fld" where
  "fld_index_out rc fld = (rc, if rc < 0 then fld\<lparr>lsf_obj := False\<rparr> else fld)"

definition fld_index_init ::
  "kstrtou16 \<Rightarrow> bool \<Rightarrow> index_scan \<Rightarrow> index_env \<times> index_env \<times> index_env \<Rightarrow> lu_seq_range \<Rightarrow> lu_server_fld \<Rightarrow> u32
     \<Rightarrow> (int \<times> lu_server_fld) option" where
  "fld_index_init kstrtou16 attr_alloc scan envs rec0 fld type =
     (if \<not> attr_alloc then Some (- ENOMEM, fld)
      else if is_locate scan \<noteq> 0 then Some (fld_index_out (is_locate scan) fld)
      else
        (let fld1 = (if is_exists scan then fld else fld\<lparr>lsf_new := True\<rparr>)
         in if \<not> is_exists scan \<and> is_create scan \<noteq> 0 then Some (fld_index_out (is_create scan) fld1)
            else
              (let fld2 = fld1\<lparr>lsf_obj := True\<rparr>
               in if is_try scan \<noteq> 0 then Some (fld_index_out (is_try scan) fld2)
                  else if is_init scan \<noteq> 0 then Some (fld_index_out (is_init scan) fld2)
                  else do {
                    (exit, range_count, cache) \<leftarrow> fld_index_load (is_recs scan) (is_end scan) 0 (lsf_cache fld2);
                    let fld3 = fld2\<lparr>lsf_cache := cache\<rparr>;
                    case exit of
                      Some rc \<Rightarrow> Some (fld_index_out rc fld3)
                    | None \<Rightarrow> do {
                        let fld4 = (if range_count = 0 then fld3\<lparr>lsf_new := True\<rparr> else fld3);
                        let (rc, index) = fld_name_to_index kstrtou16 (lsf_name fld4) (is_index0 scan);
                        if rc < 0 then Some (fld_index_out rc fld4)
                        else if index = 0 \<and> type = LU_SEQ_RANGE_MDT
                        then do { (rc, fld5) \<leftarrow> fld_insert_special_entries envs rec0 fld4; Some (fld_index_out rc fld5) }
                        else Some (0, fld4) } })))"

definition fld_index_fini :: "lu_server_fld \<Rightarrow> lu_server_fld" where
  "fld_index_fini fld = fld\<lparr>lsf_obj := False\<rparr>"

section \<open>Reading the index\<close>

text \<open>
  \<^verbatim>\<open>load_rc\<close> is the status of the iterator at the key of the request, followed by the records it visits with the status of \<^verbatim>\<open>rec\<close>. The array
  in the reply starts at offset 8 and has 24 bytes per range.
\<close>

fun fld_read_loop ::
  "lu_seq_range \<Rightarrow> nat \<Rightarrow> (int \<times> lu_seq_range) list \<Rightarrow> int \<Rightarrow> lu_seq_range list \<Rightarrow> int \<times> lu_seq_range list" where
  "fld_read_loop rng data_len [] end_rc lsra = (if end_rc > 0 then 0 else end_rc, lsra)"
| "fld_read_loop rng data_len ((rc, entry) # recs) end_rc lsra =
     (if rc \<noteq> 0 then (rc, lsra)
      else if 8 + 24 * (length lsra + 1) > data_len then (- EAGAIN, lsra)
      else fld_read_loop rng data_len recs end_rc
        (if lsr_index entry = lsr_index rng \<and> lsr_flags entry = lsr_flags rng \<and> lsr_start entry > lsr_start rng
         then lsra @ [entry] else lsra))"

definition fld_server_read ::
  "int \<Rightarrow> int \<Rightarrow> (int \<times> lu_seq_range) list \<Rightarrow> int \<Rightarrow> lu_seq_range \<Rightarrow> nat \<Rightarrow> int \<times> lu_seq_range list" where
  "fld_server_read init_rc load_rc recs end_rc rng data_len =
     (if init_rc \<noteq> 0 then (init_rc, [])
      else if load_rc \<le> 0 then (load_rc, [])
      else fld_read_loop rng data_len recs end_rc [])"

end
