(* ===== verification/Fld_Server.thy ===== *)
theory Fld_Server
  imports Fld_Index
begin

text \<open>
  The server of the FID location database, \<^verbatim>\<open>lustre/fld/fld_handler.c\<close>: lookups in its cache and at the controller, new ranges, the copy of the
  controller's ranges of a server, and the handlers of the two remote calls.
\<close>

section \<open>New ranges\<close>

definition fld_declare_server_create ::
  "index_env \<Rightarrow> lu_seq_range \<Rightarrow> lu_server_fld \<Rightarrow> lu_seq_range \<Rightarrow> (int \<times> lu_server_fld) option" where
  "fld_declare_server_create env rec0 fld rng = fld_declare_index_create env rec0 fld rng"

definition fld_server_create ::
  "index_env \<Rightarrow> lu_seq_range \<Rightarrow> lu_server_fld \<Rightarrow> lu_seq_range \<Rightarrow> (int \<times> lu_server_fld) option" where
  "fld_server_create env rec0 fld rng = fld_index_create env rec0 fld rng"

section \<open>The ranges of the controller\<close>

text \<open>The ranges of one reply, each with the storage results of its insertion.\<close>

fun fld_insert_array ::
  "u32 \<Rightarrow> index_env list \<Rightarrow> lu_seq_range \<Rightarrow> lu_seq_range list \<Rightarrow> lu_server_fld \<Rightarrow> (int \<times> lu_server_fld) option" where
  "fld_insert_array index envs rec0 [] fld = Some (0, fld)"
| "fld_insert_array index [] rec0 (r # rs) fld = None"
| "fld_insert_array index (env # envs) rec0 (r # rs) fld =
     (if lsr_flags r \<noteq> LU_SEQ_RANGE_MDT then Some (- EINVAL, fld)
      else if lsr_index r \<noteq> index then Some (- EINVAL, fld)
      else do {
        (rc, fld') \<leftarrow> fld_insert_entry env rec0 fld r;
        if rc \<noteq> 0 then Some (rc, fld') else fld_insert_array index envs rec0 rs fld' })"

text \<open>One turn of the loop for each element of \<open>rpcs\<close>, the attempts of its remote call with the storage results for the ranges.\<close>

fun fld_update_loop ::
  "u32 \<Rightarrow> (rpc_try list \<times> index_env list) list \<Rightarrow> lu_seq_range \<Rightarrow> lu_seq_range \<Rightarrow> lu_server_fld
     \<Rightarrow> (int \<times> lu_server_fld) option" where
  "fld_update_loop index [] rec0 rng fld = None"
| "fld_update_loop index ((tries, envs) # rpcs) rec0 rng fld = do {
     (rc, _, reply) \<leftarrow> fld_client_rpc (lsf_control_exp fld) tries rng FLD_READ;
     if rc \<noteq> 0 then Some (rc, fld)
     else case snd reply of
         None \<Rightarrow> Some (- EPROTO, fld)
       | Some lsra \<Rightarrow> do {
           (rc1, fld') \<leftarrow> fld_insert_array index envs rec0 lsra fld;
           if rc1 \<noteq> 0 then Some (rc1, fld')
           else if rc = - EAGAIN then fld_update_loop index rpcs rec0 (last lsra) fld'
           else Some (rc, fld'\<lparr>lsf_new := True\<rparr>) } }"

definition fld_update_from_controller ::
  "kstrtou16 \<Rightarrow> (rpc_try list \<times> index_env list) list \<Rightarrow> lu_seq_range \<Rightarrow> lu_server_fld \<Rightarrow> (int \<times> lu_server_fld) option" where
  "fld_update_from_controller kstrtou16 rpcs rec0 fld =
     (if \<not> lsf_new fld then Some (0, fld)
      else let (rc, index) = fld_name_to_index kstrtou16 (lsf_name fld) 0
           in if rc < 0 then Some (rc, fld)
              else if index = 0 then Some (0, fld)
              else fld_update_loop index rpcs rec0 (fld_range_set_mdt (lu_seq_range_init\<lparr>lsr_index := index\<rparr>)) fld)"

section \<open>Lookup\<close>

definition fld_local_lookup ::
  "lu_seq_range \<Rightarrow> lu_server_fld \<Rightarrow> u64 \<Rightarrow> lu_seq_range \<Rightarrow> int \<times> lu_seq_range \<times> lu_server_fld" where
  "fld_local_lookup erange0 fld seq rng =
     (let (rc, erange, cache) = fld_cache_lookup (lsf_cache fld) seq erange0;
          fld' = fld\<lparr>lsf_cache := cache\<rparr>
      in if rc = 0
         then if fld_range_type erange \<noteq> fld_range_type rng \<and> \<not> fld_range_is_any rng then (- EIO, rng, fld')
              else (0, erange, fld')
         else (rc, rng, fld'))"

text \<open>At most five calls of the controller, as long as a call gives \<^verbatim>\<open>-EAGAIN\<close>.\<close>

fun fld_control_query :: "nat \<Rightarrow> bool \<Rightarrow> rpc_try list list \<Rightarrow> lu_seq_range \<Rightarrow> int \<Rightarrow> (int \<times> lu_seq_range) option" where
  "fld_control_query 0 exp rpcs rng rc = Some (rc, rng)"
| "fld_control_query (Suc i) exp [] rng rc = None"
| "fld_control_query (Suc i) exp (tries # rpcs) rng rc0 = do {
     (rc, rng', _) \<leftarrow> fld_client_rpc exp tries rng FLD_QUERY;
     if rc \<noteq> - EAGAIN then Some (rc, rng') else fld_control_query i exp rpcs rng' rc }"

record lookup_env =
  le_kstrtou16 :: kstrtou16
  le_index0 :: u32
  le_rpcs :: "rpc_try list list"
  le_alloc :: "nat option"
  le_fldt :: "nat option"
  le_erange :: lu_seq_range

definition fld_server_lookup ::
  "lookup_env \<Rightarrow> lu_server_fld \<Rightarrow> u64 \<Rightarrow> lu_seq_range \<Rightarrow> (int \<times> lu_seq_range \<times> lu_server_fld) option" where
  "fld_server_lookup env fld seq rng =
     (let (rc, rng1, fld1) = fld_local_lookup (le_erange env) fld seq rng
      in if rc = 0 then Some (0, rng1, fld1)
         else let (rc, index) = fld_name_to_index (le_kstrtou16 env) (lsf_name fld1) (le_index0 env)
              in if rc < 0 then Some (rc, rng1, fld1)
                 else if index = 0 \<and> rc = LDD_F_SV_TYPE_MDT then Some (- ENOENT, rng1, fld1)
                 else if \<not> lsf_control_exp fld1 then Some (- EIO, rng1, fld1)
                 else do {
                   (rc, rng2) \<leftarrow> fld_control_query 5 (lsf_control_exp fld1) (le_rpcs env) (rng1\<lparr>lsr_start := seq\<rparr>) 0;
                   if rc = 0
                   then do { (_, cache') \<leftarrow> fld_cache_insert (le_alloc env) (le_fldt env) (lsf_cache fld1) rng2;
                             Some (0, rng2, fld1\<lparr>lsf_cache := cache'\<rparr>) }
                   else Some (rc, rng2, fld1) })"

section \<open>Handlers\<close>

text \<open>A serious error is \<^term>\<open>Inl\<close>. The buffers of the request may be missing and the reply may fail to pack.\<close>

definition fld_handle_lookup ::
  "lookup_env \<Rightarrow> int \<Rightarrow> bool \<Rightarrow> lu_server_fld \<Rightarrow> lu_seq_range option
     \<Rightarrow> ((int + int) \<times> lu_seq_range option \<times> lu_server_fld) option" where
  "fld_handle_lookup env pack has_out fld req =
     (case req of
        None \<Rightarrow> Some (Inl (- EPROTO), None, fld)
      | Some r \<Rightarrow>
          if pack \<noteq> 0 then Some (Inl pack, None, fld)
          else if \<not> has_out then Some (Inl (- EPROTO), None, fld)
          else do { (rc, out, fld') \<leftarrow> fld_server_lookup env fld (lsr_start r) r; Some (Inr rc, Some out, fld') })"

definition fld_handle_read ::
  "nat \<Rightarrow> int \<Rightarrow> (u64 \<Rightarrow> int \<times> (int \<times> lu_seq_range) list \<times> int) \<Rightarrow> int \<Rightarrow> lu_seq_range option \<Rightarrow> (int + int) \<times> lu_seq_range list" where
  "fld_handle_read page_size init_rc iter pack req =
     (case req of
        None \<Rightarrow> (Inl (- EPROTO), [])
      | Some r \<Rightarrow>
          if pack \<noteq> 0 then (Inl pack, [])
          else let (load_rc, recs, end_rc) = iter (lsr_end r);
                   (rc, lsra) = fld_server_read init_rc load_rc recs end_rc r page_size
               in (Inr rc, lsra))"

text \<open>A guess for assertions: \<^term>\<open>True\<close> also when the cache does not know the sequence.\<close>

definition fid_is_local :: "fld_cache option \<Rightarrow> u64 \<Rightarrow> u32 \<Rightarrow> lu_seq_range \<Rightarrow> bool \<times> fld_cache option" where
  "fid_is_local client_cache seq node_id rng0 =
     (case client_cache of
        None \<Rightarrow> (True, None)
      | Some cache \<Rightarrow> (let (rc, rng, cache') = fld_cache_lookup cache seq rng0
                       in (if rc = 0 then lsr_index rng = node_id else True, Some cache')))"

section \<open>Setup\<close>

definition FLD_SERVER_CACHE_SIZE :: int where "FLD_SERVER_CACHE_SIZE = 4 * 0x100000"
definition FLD_SERVER_CACHE_THRESHOLD :: int where "FLD_SERVER_CACHE_THRESHOLD = 10"

text \<open>Two list heads and a range on a 64-bit machine.\<close>

definition sizeof_fld_cache_entry :: int where "sizeof_fld_cache_entry = 56"

text \<open>\<^verbatim>\<open>fld_cache_fini\<close> is a flush and frees the cache. A server without a cache keeps the old one in the record; no operation is called on it.\<close>

definition fld_server_init ::
  "kstrtou16 \<Rightarrow> bool \<Rightarrow> bool \<Rightarrow> index_scan \<Rightarrow> index_env \<times> index_env \<times> index_env \<Rightarrow> lu_seq_range \<Rightarrow> lu_server_fld \<Rightarrow> string \<Rightarrow> u32
     \<Rightarrow> (int \<times> lu_server_fld) option" where
  "fld_server_init kstrtou16 cache_alloc attr_alloc scan envs rec0 fld prefix type =
     do { let name = take (LUSTRE_MDT_MAXNAMELEN - 1) (''srv-'' @ prefix);
          let cache_size = FLD_SERVER_CACHE_SIZE div sizeof_fld_cache_entry;
          let cache_threshold = cache_size * FLD_SERVER_CACHE_THRESHOLD div 100;
          r \<leftarrow> fld_cache_init cache_alloc (Some name) cache_size cache_threshold;
          case r of
            Inl rc \<Rightarrow> Some (rc, fld\<lparr>lsf_name := name\<rparr>)
          | Inr cache \<Rightarrow> do {
              (rc, fld') \<leftarrow> fld_index_init kstrtou16 attr_alloc scan envs rec0 (fld\<lparr>lsf_name := name, lsf_cache := cache\<rparr>) type;
              Some (rc, if rc \<noteq> 0 then fld'\<lparr>lsf_cache := fld_cache_flush (lsf_cache fld')\<rparr> else fld'\<lparr>lsf_control_exp := False\<rparr>) } }"

definition fld_server_fini :: "lu_server_fld \<Rightarrow> lu_server_fld" where
  "fld_server_fini fld = (fld_index_fini fld)\<lparr>lsf_cache := fld_cache_flush (lsf_cache fld)\<rparr>"

end
