(* ===== verification/Fld_Client.thy ===== *)
theory Fld_Client
  imports Fld_Server
begin

text \<open>
  The client of the FID location database, \<^verbatim>\<open>lustre/fld/fld_request.c\<close>: its targets, the choice of a target for a sequence, and the lookup in the
  cache and then at the targets. A target is a server on the same node, whose state is passed along, or a remote one.
\<close>

section \<open>Targets\<close>

record lu_fld_target =
  ft_exp :: bool
  ft_srv :: bool
  ft_idx :: u64

text \<open>\<open>lcf_hash\<close> is the number of the entry of the table \<^verbatim>\<open>fld_hash\<close>, which has one function and the end mark.\<close>

record lu_client_fld =
  lcf_targets :: "lu_fld_target list"
  lcf_hash :: nat
  lcf_count :: int
  lcf_cache :: "fld_cache option"
  lcf_name :: string

definition FID_SEQ_NORMAL :: u64 where "FID_SEQ_NORMAL = 0x200000400"

definition fid_seq_is_norm :: "u64 \<Rightarrow> bool" where
  "fid_seq_is_norm seq \<longleftrightarrow> seq \<ge> FID_SEQ_NORMAL"

definition fld_rrb_hash :: "lu_client_fld \<Rightarrow> u64 \<Rightarrow> u64 option" where
  "fld_rrb_hash fld seq = do { LASSERT (lcf_count fld > 0); Some (seq mod of_int (lcf_count fld)) }"

text \<open>The target is named by its position in the list of targets.\<close>

fun find_target :: "u64 \<Rightarrow> lu_fld_target list \<Rightarrow> nat option" where
  "find_target hash [] = None"
| "find_target hash (t # ts) = (if ft_idx t = hash then Some 0 else map_option Suc (find_target hash ts))"

definition fld_rrb_scan :: "lu_client_fld \<Rightarrow> u64 \<Rightarrow> nat option" where
  "fld_rrb_scan fld seq = do {
     hash \<leftarrow> (if fid_seq_is_norm seq then fld_rrb_hash fld seq else Some 0);
     case find_target hash (lcf_targets fld) of
       Some i \<Rightarrow> Some i
     | None \<Rightarrow> find_target 0 (lcf_targets fld) }"

definition fld_client_get_target :: "lu_client_fld \<Rightarrow> u64 \<Rightarrow> nat option" where
  "fld_client_get_target fld seq = (if lcf_hash fld = 0 then fld_rrb_scan fld seq else None)"

definition fld_client_add_target :: "bool \<Rightarrow> lu_client_fld \<Rightarrow> lu_fld_target \<Rightarrow> (int \<times> lu_client_fld) option" where
  "fld_client_add_target alloc fld tar = do {
     LASSERT (ft_srv tar \<or> ft_exp tar);
     Some (if \<not> alloc then (- ENOMEM, fld)
       else if \<exists>t\<in>set (lcf_targets fld). ft_idx t = ft_idx tar then (- EEXIST, fld)
       else (0, fld\<lparr>lcf_targets := lcf_targets fld @ [tar], lcf_count := lcf_count fld + 1\<rparr>)) }"

fun remove_target :: "u64 \<Rightarrow> lu_fld_target list \<Rightarrow> lu_fld_target list" where
  "remove_target idx [] = []"
| "remove_target idx (t # ts) = (if ft_idx t = idx then ts else t # remove_target idx ts)"

definition fld_client_del_target :: "lu_client_fld \<Rightarrow> u64 \<Rightarrow> int \<times> lu_client_fld" where
  "fld_client_del_target fld idx =
     (if \<exists>t\<in>set (lcf_targets fld). ft_idx t = idx
      then (0, fld\<lparr>lcf_targets := remove_target idx (lcf_targets fld), lcf_count := lcf_count fld - 1\<rparr>)
      else (- ENOENT, fld))"

section \<open>Setup\<close>

definition FLD_CLIENT_CACHE_SIZE :: int where "FLD_CLIENT_CACHE_SIZE = 1 * 0x100000"
definition FLD_CLIENT_CACHE_THRESHOLD :: int where "FLD_CLIENT_CACHE_THRESHOLD = 10"

definition hash_is_sane :: "int \<Rightarrow> bool" where
  "hash_is_sane hash \<longleftrightarrow> hash \<ge> 0 \<and> hash < 2"

definition fld_client_fini :: "lu_client_fld \<Rightarrow> lu_client_fld" where
  "fld_client_fini fld =
     fld\<lparr>lcf_targets := [], lcf_count := lcf_count fld - int (length (lcf_targets fld)), lcf_cache := None\<rparr>"

definition fld_client_init :: "bool \<Rightarrow> lu_client_fld \<Rightarrow> string \<Rightarrow> int \<Rightarrow> (int \<times> lu_client_fld) option" where
  "fld_client_init alloc fld prefix hash =
     (let fld1 = fld\<lparr>lcf_name := take (LUSTRE_MDT_MAXNAMELEN - 1) (''cli-'' @ prefix)\<rparr> in
      if \<not> hash_is_sane hash then Some (- EINVAL, fld1)
      else do {
        let fld2 = fld1\<lparr>lcf_count := 0, lcf_hash := nat hash, lcf_targets := []\<rparr>;
        let cache_size = FLD_CLIENT_CACHE_SIZE div sizeof_fld_cache_entry;
        let cache_threshold = cache_size * FLD_CLIENT_CACHE_THRESHOLD div 100;
        r \<leftarrow> fld_cache_init alloc (Some (lcf_name fld2)) cache_size cache_threshold;
        Some (case r of
            Inl rc \<Rightarrow> (rc, fld_client_fini (fld2\<lparr>lcf_cache := None\<rparr>))
          | Inr cache \<Rightarrow> (0, fld2\<lparr>lcf_cache := Some cache\<rparr>)) })"

definition fld_client_flush :: "lu_client_fld \<Rightarrow> lu_client_fld" where
  "fld_client_flush fld = fld\<lparr>lcf_cache := map_option fld_cache_flush (lcf_cache fld)\<rparr>"

section \<open>Lookup\<close>

text \<open>
  The arguments of a lookup: whether the caller gave an environment, the arguments of a lookup on the server of this node,
  the attempts of the call of each remote target, by its index, and the allocator results of the cache.
\<close>

record client_env =
  ce_env :: bool
  ce_server :: "u64 \<Rightarrow> lookup_env"
  ce_tries :: "u64 \<Rightarrow> rpc_try list"
  ce_alloc :: "nat option"
  ce_fldt :: "nat option"

definition fld_client_query ::
  "client_env \<Rightarrow> lu_fld_target \<Rightarrow> u64 \<Rightarrow> lu_seq_range \<Rightarrow> lu_server_fld option
     \<Rightarrow> (int \<times> lu_seq_range \<times> lu_server_fld option) option" where
  "fld_client_query env target seq res srv =
     (if ft_srv target
      then do { LASSERT (ce_env env);
                s \<leftarrow> srv;
                (rc, res', s') \<leftarrow> fld_server_lookup (ce_server env (ft_idx target)) s seq res;
                Some (rc, res', Some s') }
      else do { (rc, res', _) \<leftarrow> fld_client_rpc (ft_exp target) (ce_tries env (ft_idx target)) res FLD_QUERY;
                Some (rc, res', srv) })"

text \<open>The targets from the chosen one on, around the list and up to the one before it.\<close>

fun fld_client_try ::
  "client_env \<Rightarrow> u64 \<Rightarrow> u32 \<Rightarrow> lu_fld_target list \<Rightarrow> lu_seq_range \<Rightarrow> lu_server_fld option
     \<Rightarrow> (int \<times> lu_seq_range \<times> lu_server_fld option) option" where
  "fld_client_try env seq flags [] res srv = None"
| "fld_client_try env seq flags (target # targets) res srv = do {
     (rc, res', srv') \<leftarrow> fld_client_query env target seq (fld_range_set_type (res\<lparr>lsr_start := seq\<rparr>) flags) srv;
     if rc = - ESHUTDOWN \<and> targets \<noteq> [] then fld_client_try env seq flags targets res' srv'
     else Some (rc, res', srv') }"

definition fld_client_lookup ::
  "client_env \<Rightarrow> lu_client_fld \<Rightarrow> u64 \<Rightarrow> u32 \<Rightarrow> lu_seq_range \<Rightarrow> lu_server_fld option
     \<Rightarrow> (int \<times> lu_seq_range \<times> lu_client_fld \<times> lu_server_fld option) option" where
  "fld_client_lookup env fld seq flags res srv = do {
     cache \<leftarrow> lcf_cache fld;
     let (rc, res1, cache1) = fld_cache_lookup cache seq res;
     let fld1 = fld\<lparr>lcf_cache := Some cache1\<rparr>;
     if rc = 0 then Some (0, res1, fld1, srv)
     else do {
       i \<leftarrow> fld_client_get_target fld1 seq;
       (rc, res2, srv2) \<leftarrow> fld_client_try env seq flags (rotate i (lcf_targets fld1)) res1 srv;
       if rc = 0
       then do { (_, cache2) \<leftarrow> fld_cache_insert (ce_alloc env) (ce_fldt env) cache1 res2;
                 Some (0, res2, fld1\<lparr>lcf_cache := Some cache2\<rparr>, srv2) }
       else Some (rc, res2, fld1, srv2) } }"

end
