(* ===== verification/Fld_Service.thy ===== *)
theory Fld_Service
  imports Fld_Client Fld_Interface
begin

text \<open>
  The FID location database as a whole. The index on disk has an owner function like the cache, and a server is consistent when the
  two agree, and sound when the cache, which may be smaller, says nothing else: new ranges, lookups and a restart keep it so. A client whose targets tell the truth learns the truth.
\<close>

section \<open>The index\<close>

fun index_owner :: "lu_seq_range list \<Rightarrow> u32 \<Rightarrow> u64 \<Rightarrow> u32 option" where
  "index_owner [] f s = None"
| "index_owner (r # rs) f s = (if lsr_flags r = f \<and> lu_seq_range_within r s then Some (lsr_index r) else index_owner rs f s)"

definition index_dj :: "lu_seq_range list \<Rightarrow> bool" where
  "index_dj rs \<longleftrightarrow> sorted_wrt (\<lambda>a b. lsr_end a \<le> lsr_start b) rs \<and> (\<forall>r\<in>set rs. lsr_start r < lsr_end r)"

definition apart :: "lu_seq_range \<Rightarrow> lu_seq_range \<Rightarrow> bool" where
  "apart a b \<longleftrightarrow> lsr_end a \<le> lsr_start b \<or> lsr_end b \<le> lsr_start a"

lemma index_dj_Cons: "index_dj (r # rs) \<longleftrightarrow> lsr_start r < lsr_end r \<and> (\<forall>x\<in>set rs. lsr_end r \<le> lsr_start x) \<and> index_dj rs"
  by (auto simp: index_dj_def)

lemma index_insert_set: "set (index_insert r rs) \<subseteq> insert r (set rs)"
  by (induction rs) auto

lemma index_insert_dj:
  assumes "index_dj rs" and "lsr_start r < lsr_end r" and "\<forall>x\<in>set rs. apart r x"
  shows "index_dj (index_insert r rs)"
  using assms
proof (induction rs)
  case (Cons x rs)
  have x: "lsr_start x < lsr_end x" "\<forall>y\<in>set rs. lsr_end x \<le> lsr_start y" "index_dj rs" "apart r x"
    using Cons.prems by (simp_all add: index_dj_Cons)
  have "lsr_start r \<noteq> lsr_start x" using x(1,4) Cons.prems(2) by (auto simp: apart_def)
  then consider "lsr_start r < lsr_start x" | "lsr_start x < lsr_start r" by fastforce
  then show ?case
  proof cases
    case 1
    then have "lsr_end r \<le> lsr_start x" using x(1,4) by (auto simp: apart_def)
    then have "\<forall>y\<in>set (x # rs). lsr_end r \<le> lsr_start y" using x(1,2) by (auto intro: order_trans less_imp_le)
    then show ?thesis using 1 Cons.prems(1,2) by (simp add: index_dj_Cons)
  next
    case 2
    then have "lsr_end x \<le> lsr_start r" using Cons.prems(2) x(4) by (auto simp: apart_def)
    then have "\<forall>y\<in>set (index_insert r rs). lsr_end x \<le> lsr_start y" using index_insert_set [of r rs] x(2) by auto
    moreover have "index_insert r (x # rs) = x # index_insert r rs" using 2 by auto
    ultimately show ?thesis using x(1) Cons.IH [OF x(3)] Cons.prems(2,3) by (simp add: index_dj_Cons)
  qed
qed (simp add: index_dj_def)

lemma index_owner_apart: "\<forall>x\<in>set rs. apart r x \<Longrightarrow> lu_seq_range_within r s \<Longrightarrow> index_owner rs f s = None"
  by (induction rs) (auto simp: apart_def lu_seq_range_within_def)

lemma index_insert_owner:
  assumes "lsr_start r < lsr_end r" and "\<forall>x\<in>set rs. lsr_start x < lsr_end x \<and> apart r x"
  shows "index_owner (index_insert r rs) f s =
    (if f = lsr_flags r \<and> lu_seq_range_within r s then Some (lsr_index r) else index_owner rs f s)"
  using assms
proof (induction rs)
  case (Cons x rs)
  have "lsr_start r \<noteq> lsr_start x" using Cons.prems by (auto simp: apart_def)
  moreover have "\<not> (lu_seq_range_within r s \<and> lu_seq_range_within x s)"
    using Cons.prems by (auto simp: apart_def lu_seq_range_within_def)
  ultimately show ?case using Cons by auto
qed auto

section \<open>New ranges in the cache\<close>

lemma entry_apart:
  assumes "dj es" and "e \<in> set es" and "lsr_start r < lsr_end r" and "\<forall>f s. lu_seq_range_within r s \<longrightarrow> fld_owner es f s = None"
  shows "apart r (fce_range e)"
proof (rule ccontr)
  assume n: "\<not> apart r (fce_range e)"
  define s where "s = max (lsr_start r) (e_start e)"
  have "nonempty e" using assms(1,2) by (simp add: dj_def)
  then have "lu_seq_range_within (fce_range e) s" "lu_seq_range_within r s"
    using n assms(3) unfolding s_def by (auto simp: apart_def lu_seq_range_within_def)
  then show False using fld_owner_of [OF assms(1,2)] assms(4) by fastforce
qed

lemma insert_ok_apart:
  assumes "fld_cache_wf c" and "lsr_start r < lsr_end r" and "p \<notin> set (ptrs (fci_entries_head c))"
    and "\<forall>f s. lu_seq_range_within r s \<longrightarrow> fld_cache_owner c f s = None"
  shows "insert_ok fldt c \<lparr>fce_ptr = p, fce_range = r\<rparr>"
proof -
  have "apart r (fce_range e)" if "e \<in> set (fci_entries_head c)" for e
    using entry_apart [OF _ that assms(2)] assms(1,4) by (simp add: fld_cache_wf_def fld_cache_owner_def)
  then show ?thesis
    using assms(2,3) unfolding insert_ok_def Let_def cross_disjoint_def tail_conflict_def hole_def apart_def by fastforce
qed

lemma fld_cache_entry_delete_stat:
  "fld_cache_entry_delete (c\<lparr>fci_stat := st\<rparr>) p = (fld_cache_entry_delete c p)\<lparr>fci_stat := st\<rparr>"
  by (cases c) (simp add: fld_cache_entry_delete_def)

lemma fld_cache_shrink_loop_stat:
  "fld_cache_shrink_loop (c\<lparr>fci_stat := st\<rparr>) = (fld_cache_shrink_loop c)\<lparr>fci_stat := st\<rparr>"
proof (induction c rule: fld_cache_shrink_loop.induct)
  case (1 c)
  show ?case
  proof (cases "fci_cache_count c + fci_threshold c > fci_cache_size c \<and> fci_lru c \<noteq> []")
    case True
    from 1 [OF True] show ?thesis using True
      by (subst (1 2) fld_cache_shrink_loop.simps) (simp add: fld_cache_entry_delete_stat)
  next
    case False
    then show ?thesis by (subst (1 2) fld_cache_shrink_loop.simps) auto
  qed
qed

lemma fld_cache_shrink_stat: "fld_cache_shrink (c\<lparr>fci_stat := st\<rparr>) = (fld_cache_shrink c)\<lparr>fci_stat := st\<rparr>"
  by (simp add: fld_cache_shrink_def fld_cache_shrink_loop_stat)

lemma fld_cache_shrink_room: "fci_cache_count c < fci_cache_size c \<Longrightarrow> fld_cache_shrink c = c"
  by (simp add: fld_cache_shrink_def)

section \<open>A consistent server\<close>

definition db_ok :: "lu_server_fld \<Rightarrow> bool" where
  "db_ok fld \<longleftrightarrow> fld_cache_wf (lsf_cache fld) \<and> index_dj (lsf_index fld) \<and>
     fld_cache_owner (lsf_cache fld) = index_owner (lsf_index fld)"

text \<open>The cache may be smaller than the index; then it says nothing that the index does not say.\<close>

definition db_sound :: "lu_server_fld \<Rightarrow> bool" where
  "db_sound fld \<longleftrightarrow> fld_cache_wf (lsf_cache fld) \<and> index_dj (lsf_index fld) \<and>
     coherent (index_owner (lsf_index fld)) (fld_cache_owner (lsf_cache fld))"

lemma db_ok_sound: "db_ok fld \<Longrightarrow> db_sound fld"
  by (simp add: db_ok_def db_sound_def coherent_def)

lemma fld_cache_lookup_miss:
  assumes "fld_cache_wf c" and "\<forall>f. fld_cache_owner c f s = None" and "fld_cache_lookup c s r = (rc, r', c')"
  shows "rc = - ENOENT" and "c'\<lparr>fci_stat := fci_stat c\<rparr> = c"
  using fld_cache_lookup_ok [OF assms(1,3)] assms(2) by auto

lemma fld_cache_stat_irrelevant:
  assumes "c'\<lparr>fci_stat := st\<rparr> = c"
  shows "fld_cache_wf c' = fld_cache_wf c" and "fld_cache_owner c' = fld_cache_owner c"
    and "fci_entries_head c' = fci_entries_head c" and "fci_cache_count c' = fci_cache_count c"
    and "fci_cache_size c' = fci_cache_size c" and "fci_lru c' = fci_lru c" and "fci_threshold c' = fci_threshold c"
  using assms by (auto simp: fld_cache_wf_def fld_cache_owner_def)

text \<open>The lookup of the index leaves its range alone when it finds nothing, so nothing is ever merged.\<close>

lemma fld_index_lookup_miss:
  assumes "fld_index_lookup rec0 fld seq rng = (rc, rng', fld')"
  shows "(rc = - ENOENT \<longrightarrow> rng' = rng) \<and> (\<exists>cache. fld' = fld\<lparr>lsf_cache := cache\<rparr>)"
proof -
  obtain rc1 r1 c1 where l: "fld_cache_lookup (lsf_cache fld) seq rec0 = (rc1, r1, c1)" by (metis prod_cases3)
  have "rc1 = 0 \<longrightarrow> lu_seq_range_within r1 seq"
    using l fld_cache_lookup_scan_Inr [of seq None "fci_entries_head (lsf_cache fld)"]
    by (auto simp: fld_cache_lookup_def Let_def ENOENT_def split: sum.splits option.splits)
  then show ?thesis using assms by (auto simp: fld_index_lookup_def l Let_def ENOENT_def split: if_splits)
qed

lemma mergeable_left_init [simp]: "\<not> mergeable_left r lu_seq_range_init"
  by (simp add: mergeable_left_def lu_seq_range_init_def)

lemma fld_index_create_index:
  assumes "fld_index_create env rec0 fld r = Some (rc, fld')"
  shows "lsf_index fld' = lsf_index fld \<or> lsf_index fld' = index_insert r (lsf_index fld)"
    and "rc = 0 \<Longrightarrow> lsf_index fld' = index_insert r (lsf_index fld)"
proof -
  obtain rc1 rng fld1 where l: "fld_index_lookup rec0 fld (lsr_start r) lu_seq_range_init = (rc1, rng, fld1)" by (metis prod_cases3)
  have "lsf_index fld1 = lsf_index fld" and n: "rc1 = - ENOENT \<Longrightarrow> rng = lu_seq_range_init"
    using fld_index_lookup_miss [OF l] by auto
  then show "lsf_index fld' = lsf_index fld \<or> lsf_index fld' = index_insert r (lsf_index fld)"
    and "rc = 0 \<Longrightarrow> lsf_index fld' = index_insert r (lsf_index fld)"
    using assms n by (cases "ie_alloc env"; auto simp: fld_index_create_def l Let_def bind_eq_Some_conv errno_defs
        dt_insert_def fld_cache_entry_create_def split: if_split_asm)+
qed

text \<open>A new range that overlaps nothing in the index.\<close>

definition new_range :: "lu_server_fld \<Rightarrow> nat \<Rightarrow> lu_seq_range \<Rightarrow> bool" where
  "new_range fld p r \<longleftrightarrow> lsr_start r < lsr_end r \<and> (\<forall>x\<in>set (lsf_index fld). apart r x) \<and>
     p \<notin> set (ptrs (fci_entries_head (lsf_cache fld)))"

lemma new_range_owner:
  "db_sound fld \<Longrightarrow> new_range fld p r \<Longrightarrow> lu_seq_range_within r s \<Longrightarrow> fld_cache_owner (lsf_cache fld) f s = None"
  using index_owner_apart [of "lsf_index fld" r s f] unfolding db_sound_def coherent_def new_range_def
  by (metis option.distinct(1) option.exhaust)

lemma fld_index_lookup_new:
  assumes db: "db_sound fld" and n: "new_range fld p r"
  obtains st where "fld_index_lookup rec0 fld (lsr_start r) rng =
    (- ENOENT, rng, fld\<lparr>lsf_cache := (lsf_cache fld)\<lparr>fci_stat := st\<rparr>\<rparr>)"
proof -
  let ?c = "lsf_cache fld"
  obtain rc1 r1 c1 where l: "fld_cache_lookup ?c (lsr_start r) rec0 = (rc1, r1, c1)" by (metis prod_cases3)
  have "lu_seq_range_within r (lsr_start r)" using n by (simp add: new_range_def lu_seq_range_within_def)
  then have none: "\<forall>f. fld_cache_owner ?c f (lsr_start r) = None" using new_range_owner [OF db n] by blast
  have wf: "fld_cache_wf ?c" using db by (simp add: db_sound_def)
  note m = fld_cache_lookup_miss [OF wf none l]
  have "c1 = ?c\<lparr>fci_stat := fci_stat c1\<rparr>" using m(2) by (metis (no_types, lifting) fld_cache.surjective fld_cache.update_convs(6))
  then show thesis using that [of "fci_stat c1"] m(1) by (simp add: fld_index_lookup_def l Let_def ENOENT_def)
qed

lemma fld_index_create_new:
  assumes db: "db_sound fld" and n: "new_range fld p r" and env: "ie_insert env = 0" "ie_alloc env = Some p"
  shows "\<exists>fld'. fld_index_create env rec0 fld r = Some (0, fld') \<and> fld_cache_wf (lsf_cache fld') \<and>
    lsf_index fld' = index_insert r (lsf_index fld) \<and> lsf_name fld' = lsf_name fld \<and>
    fld_cache_owner (lsf_cache fld') = fld_override r (fld_cache_owner (fld_cache_shrink (lsf_cache fld)))"
proof -
  obtain st where l: "fld_index_lookup rec0 fld (lsr_start r) lu_seq_range_init =
      (- ENOENT, lu_seq_range_init, fld\<lparr>lsf_cache := (lsf_cache fld)\<lparr>fci_stat := st\<rparr>\<rparr>)"
    using fld_index_lookup_new [OF db n] .
  let ?c = "(lsf_cache fld)\<lparr>fci_stat := st\<rparr>"
  have c: "fld_cache_wf ?c" "fld_cache_owner ?c = fld_cache_owner (lsf_cache fld)"
    using db by (simp_all add: db_sound_def fld_cache_wf_def fld_cache_owner_def)
  have ne: "lsr_start r < lsr_end r" using n by (simp add: new_range_def)
  have "insert_ok (ie_fldt env) ?c \<lparr>fce_ptr = p, fce_range = r\<rparr>"
    by (rule insert_ok_apart [OF c(1) ne]) (use n new_range_owner [OF db n] c(2) in \<open>auto simp: new_range_def\<close>)
  from fld_cache_insert_nolock_ok [OF c(1) this] obtain c' where c':
    "fld_cache_insert_nolock (ie_fldt env) ?c \<lparr>fce_ptr = p, fce_range = r\<rparr> = Some c'" "fld_cache_wf c'"
    "fld_cache_owner c' = fld_override r (fld_cache_owner (fld_cache_shrink ?c))"
    by (auto simp: fld_cache_owner_def)
  have "fld_cache_owner (fld_cache_shrink ?c) = fld_cache_owner (fld_cache_shrink (lsf_cache fld))"
    by (simp add: fld_cache_owner_def fld_cache_shrink_stat)
  moreover have "lsr_start r \<notin> lsr_start ` set (lsf_index fld)"
    using n db unfolding new_range_def apart_def db_sound_def index_dj_def by fastforce
  ultimately show ?thesis
    using c' ne env by (simp add: fld_index_create_def l dt_insert_def fld_cache_entry_create_def lu_seq_range_is_sane_def)
qed

lemma fld_cache_coherent_shrink:
  assumes "fld_cache_wf c" and "coherent t (fld_cache_owner c)"
  shows "coherent (fld_override r t) (fld_override r (fld_cache_owner (fld_cache_shrink c)))"
  using assms(2) fld_cache_shrink_owner [OF assms(1)] by (simp add: coherent_def fld_override_def)

theorem fld_index_create_sound:
  assumes db: "db_sound fld" and n: "new_range fld p r" and env: "ie_insert env = 0" "ie_alloc env = Some p"
  shows "\<exists>fld'. fld_index_create env rec0 fld r = Some (0, fld') \<and> db_sound fld' \<and> lsf_index fld' = index_insert r (lsf_index fld) \<and>
    index_owner (lsf_index fld') = fld_override r (index_owner (lsf_index fld)) \<and>
    (db_ok fld \<and> fci_cache_count (lsf_cache fld) < fci_cache_size (lsf_cache fld) \<longrightarrow> db_ok fld')"
proof -
  obtain fld' where f: "fld_index_create env rec0 fld r = Some (0, fld')" "fld_cache_wf (lsf_cache fld')"
    "lsf_index fld' = index_insert r (lsf_index fld)"
    "fld_cache_owner (lsf_cache fld') = fld_override r (fld_cache_owner (fld_cache_shrink (lsf_cache fld)))"
    using fld_index_create_new [OF db n env] by blast
  have i: "index_dj (lsf_index fld)" "lsr_start r < lsr_end r" "\<forall>x\<in>set (lsf_index fld). apart r x"
    using db n by (simp_all add: db_sound_def new_range_def)
  then have dj: "index_dj (lsf_index fld')" using index_insert_dj f(3) by simp
  have o: "index_owner (lsf_index fld') = fld_override r (index_owner (lsf_index fld))"
    unfolding f(3) fun_eq_iff using i by (auto simp: index_insert_owner index_dj_def fld_override_def)
  have "coherent (index_owner (lsf_index fld')) (fld_cache_owner (lsf_cache fld'))"
    unfolding o f(4) using db by (intro fld_cache_coherent_shrink) (simp_all add: db_sound_def)
  then have "db_sound fld'" using f(2) dj by (simp add: db_sound_def)
  moreover have "db_ok fld'" if "db_ok fld" "fci_cache_count (lsf_cache fld) < fci_cache_size (lsf_cache fld)"
    using that f(2,4) dj o by (simp add: db_ok_def fld_cache_shrink_room)
  ultimately show ?thesis using f(1,3) o by blast
qed

end
