(* ===== verification/Fld_Reload.thy ===== *)
theory Fld_Reload
  imports Fld_Service
begin

text \<open>
  A restarted server fills its cache from the index, and the cache then agrees with the index; a full cache, on the other hand, forgets
  ranges that are in the index.
\<close>

section \<open>The addresses in the cache\<close>

text \<open>A step of the cache that uses no addresses but those of the cache and \<open>P\<close>, and keeps the limits.\<close>

definition uses_ptrs :: "nat set \<Rightarrow> fld_cache \<Rightarrow> fld_cache \<Rightarrow> bool" where
  "uses_ptrs P c c' \<longleftrightarrow> set (ptrs (fci_entries_head c')) \<subseteq> set (ptrs (fci_entries_head c)) \<union> P \<and>
     fci_cache_size c' = fci_cache_size c"

lemma uses_ptrs_trans: "uses_ptrs P a b \<Longrightarrow> uses_ptrs Q b c \<Longrightarrow> uses_ptrs (P \<union> Q) a c"
  unfolding uses_ptrs_def by (intro conjI) (blast, simp)

lemma fld_fix_pass_ptrs:
  "fld_fix_pass c es = Some (r, c', es') \<Longrightarrow> set (ptrs es') \<subseteq> set (ptrs es) \<and> fci_cache_size c' = fci_cache_size c"
proof (induction "length es" arbitrary: c es r c' es' rule: less_induct)
  case less
  consider "es = []" | e where "es = [e]" | e n rest where "es = e # n # rest" by (metis list.exhaust)
  then show ?case
  proof cases
    case (3 e n rest)
    from less.prems [unfolded 3] show ?thesis
    proof (cases rule: fld_fix_pass_iter)
      case (skip l)
      with less.hyps [of "n # rest", OF _ skip(1)] 3 show ?thesis by auto
    next
      case merge
      with less.hyps [OF _ merge(2)] 3 show ?thesis by (auto simp: fld_cache_entry_delete_def)
    next
      case dup
      with less.hyps [OF _ dup(3)] 3 show ?thesis by (auto simp: fld_cache_entry_delete_def)
    qed (auto simp: 3 fld_cache_entry_delete_def)
  qed (use less.prems in auto)
qed

lemma fld_fix_new_list_ptrs: "fld_fix_new_list c = Some c' \<Longrightarrow> uses_ptrs {} c c'"
proof (induction c arbitrary: c' rule: fld_fix_new_list.induct)
  case (1 c)
  obtain r c1 es where p: "fld_fix_pass c (fci_entries_head c) = Some (r, c1, es)"
    using 1(2) by (subst (asm) fld_fix_new_list.simps) (auto split: option.split_asm)
  have step: "uses_ptrs {} c (c1\<lparr>fci_entries_head := es\<rparr>)" using fld_fix_pass_ptrs [OF p] by (simp add: uses_ptrs_def)
  show ?case
  proof (cases r)
    case True
    then have "fld_fix_new_list (c1\<lparr>fci_entries_head := es\<rparr>) = Some c'"
      using 1(2) p by (subst (asm) fld_fix_new_list.simps) simp
    from 1(1) [OF p _ _ True this] uses_ptrs_trans [OF step, of "{}"] show ?thesis by simp
  next
    case False
    then show ?thesis using 1(2) p step by (simp add: fld_fix_new_list.simps [of c])
  qed
qed

lemma list_add_ptrs: "set (ptrs (list_add e q es)) \<subseteq> insert (fce_ptr e) (set (ptrs es))"
  by (induction e q es rule: list_add.induct) auto

lemma fld_cache_entry_add_ptrs:
  assumes "fld_cache_entry_add c e q = Some c'"
  shows "uses_ptrs {fce_ptr e} c c'"
proof -
  define c1 where "c1 = c\<lparr>fci_entries_head := list_add e q (fci_entries_head c), fci_lru := fce_ptr e # fci_lru c,
    fci_cache_count := fci_cache_count c + 1\<rparr>"
  have "uses_ptrs {fce_ptr e} c c1" using list_add_ptrs [of e q "fci_entries_head c"] by (simp add: uses_ptrs_def c1_def)
  moreover have "fld_fix_new_list c1 = Some c'" using assms by (simp add: fld_cache_entry_add_def c1_def)
  ultimately show ?thesis using uses_ptrs_trans fld_fix_new_list_ptrs by fastforce
qed

lemma set_range_ptrs: "uses_ptrs {} c (set_range p f c)"
  by (auto simp: uses_ptrs_def set_range_def)

lemma fld_cache_overlap_handle_ptrs:
  assumes "fld_cache_overlap_handle None c fc e = Some c'"
  shows "uses_ptrs {fce_ptr e} c c'"
proof -
  have same: "uses_ptrs P k k" for P k by (auto simp: uses_ptrs_def)
  have add: "uses_ptrs {fce_ptr e} c c''" if "fld_cache_entry_add (set_range p f c) e q = Some c''" for p f q c''
    using uses_ptrs_trans [OF set_range_ptrs fld_cache_entry_add_ptrs [OF that]] by simp
  have fix_new: "uses_ptrs {fce_ptr e} c c''" if "fld_fix_new_list (set_range p f c) = Some c''" for p f c''
    using uses_ptrs_trans [OF set_range_ptrs fld_fix_new_list_ptrs [OF that]] by (auto simp: uses_ptrs_def)
  show ?thesis
    using assms unfolding fld_cache_overlap_handle_def fld_cache_punch_hole_def Let_def
    by (auto split: if_split_asm intro: add fix_new same)
qed

lemma fld_cache_shrink_loop_size: "fci_cache_size (fld_cache_shrink_loop c) = fci_cache_size c"
proof (induction c rule: fld_cache_shrink_loop.induct)
  case (1 c)
  then show ?case
    by (cases "fci_cache_count c + fci_threshold c > fci_cache_size c \<and> fci_lru c \<noteq> []")
      (subst fld_cache_shrink_loop.simps, simp add: fld_cache_entry_delete_def)+
qed

lemma fld_cache_shrink_ptrs: "uses_ptrs {} c (fld_cache_shrink c)"
  using fld_cache_shrink_entries [of c] by (auto simp: uses_ptrs_def fld_cache_shrink_def fld_cache_shrink_loop_size)

lemma fld_cache_insert_nolock_ptrs:
  assumes "fld_cache_insert_nolock None c e = Some c'"
  shows "uses_ptrs {fce_ptr e} c c'"
proof -
  let ?c = "fld_cache_shrink c"
  have same: "uses_ptrs {fce_ptr e} ?c ?c" by (auto simp: uses_ptrs_def)
  have "uses_ptrs {fce_ptr e} ?c c'"
    using assms same fld_cache_entry_add_ptrs [of ?c e] fld_cache_overlap_handle_ptrs [of ?c _ e]
    by (auto simp: fld_cache_insert_nolock_def Let_def split: sum.split_asm)
  from uses_ptrs_trans [OF fld_cache_shrink_ptrs this] show ?thesis by simp
qed

lemma fld_cache_wf_count: "fld_cache_wf c \<Longrightarrow> fci_cache_count c = int (card (set (ptrs (fci_entries_head c))))"
  using distinct_card [of "ptrs (fci_entries_head c)"] by (simp add: fld_cache_wf_def)

lemma fld_cache_insert_count:
  assumes "fld_cache_wf c1" and "fld_cache_wf c" and "set (ptrs (fci_entries_head c1)) \<subseteq> insert p (set (ptrs (fci_entries_head c)))"
    and "p \<notin> set (ptrs (fci_entries_head c))"
  shows "fci_cache_count c1 \<le> fci_cache_count c + 1"
proof -
  have "card (set (ptrs (fci_entries_head c1))) \<le> Suc (card (set (ptrs (fci_entries_head c))))"
    using card_mono [OF _ assms(3)] card_insert_disjoint [OF _ assms(4)] by (metis List.finite_set finite.insertI)
  then show ?thesis using fld_cache_wf_count [OF assms(1)] fld_cache_wf_count [OF assms(2)] by simp
qed

lemma fld_cache_init_empty:
  assumes "fld_cache_init True name cache_size threshold = Some (Inr c)"
  shows "fci_entries_head c = []" and "fci_cache_count c = 0" and "fci_cache_size c = cache_size" and "fci_lru c = []"
    and "fci_threshold c = threshold"
  using assms by (auto simp: fld_cache_init_def)

section \<open>Loading the index\<close>

text \<open>The records of the index, read without an error, with addresses for the cache entries.\<close>

definition loads :: "lu_seq_range list \<Rightarrow> nat list \<Rightarrow> (int \<times> lu_seq_range \<times> nat option \<times> nat option) list" where
  "loads rs ps = map (\<lambda>(r, p). (0, r, Some p, None)) (zip rs ps)"

lemma fld_index_load_ok:
  assumes "fld_cache_wf c" and "index_dj rs" and "\<forall>r\<in>set rs. \<forall>f s. lu_seq_range_within r s \<longrightarrow> fld_cache_owner c f s = None"
    and "length ps = length rs" and "distinct ps" and "set ps \<inter> set (ptrs (fci_entries_head c)) = {}" and "0 \<le> end_rc"
    and "coherent truth (fld_cache_owner c)"
    and "\<forall>r\<in>set rs. \<forall>s. lu_seq_range_within r s \<longrightarrow> truth (lsr_flags r) s = Some (lsr_index r)"
  shows "\<exists>c'. fld_index_load (loads rs ps) end_rc n c = Some (None, n + length rs, c') \<and> fld_cache_wf c' \<and>
    coherent truth (fld_cache_owner c') \<and>
    (fci_cache_count c + int (length rs) \<le> fci_cache_size c \<longrightarrow>
      (\<forall>f s. fld_cache_owner c' f s = (case index_owner rs f s of Some i \<Rightarrow> Some i | None \<Rightarrow> fld_cache_owner c f s)))"
  using assms
proof (induction rs arbitrary: ps c n)
  case (Cons r rs)
  obtain p ps' where ps: "ps = p # ps'" using Cons.prems(4) by (cases ps) auto
  have r: "lsr_start r < lsr_end r" "index_dj rs" "\<forall>x\<in>set rs. lsr_end r \<le> lsr_start x" using Cons.prems(2) by (simp_all add: index_dj_Cons)
  have fresh: "p \<notin> set (ptrs (fci_entries_head c))" using Cons.prems(6) ps by auto
  have none: "\<forall>f s. lu_seq_range_within r s \<longrightarrow> fld_cache_owner c f s = None" using Cons.prems(3) by simp
  let ?e = "\<lparr>fce_ptr = p, fce_range = r\<rparr>"
  obtain c1 where c1: "fld_cache_insert_nolock None c ?e = Some c1" "fld_cache_wf c1"
    "fld_cache_owner c1 = fld_override r (fld_cache_owner (fld_cache_shrink c))"
    using fld_cache_insert_nolock_ok [OF Cons.prems(1) insert_ok_apart [OF Cons.prems(1) r(1) fresh none]]
    by (auto simp: fld_cache_owner_def)
  have u: "set (ptrs (fci_entries_head c1)) \<subseteq> insert p (set (ptrs (fci_entries_head c)))" "fci_cache_size c1 = fci_cache_size c"
    using fld_cache_insert_nolock_ptrs [OF c1(1)] by (auto simp: uses_ptrs_def)
  have cnt: "fci_cache_count c1 \<le> fci_cache_count c + 1"
    using fld_cache_insert_count [OF c1(2) Cons.prems(1) u(1) fresh] .
  have "fld_cache_owner (fld_cache_shrink c) f s = None" if "fld_cache_owner c f s = None" for f s
    using fld_cache_shrink_owner [OF Cons.prems(1), of f s] that by (metis not_None_eq)
  then have own: "\<forall>x\<in>set rs. \<forall>f s. lu_seq_range_within x s \<longrightarrow> fld_cache_owner c1 f s = None"
    using Cons.prems(3) r(3) unfolding c1(3) fld_override_def by (auto simp: lu_seq_range_within_def)
  have co: "coherent truth (fld_cache_owner c1)"
    using Cons.prems(8,9) fld_cache_shrink_owner [OF Cons.prems(1)] unfolding c1(3) by (auto simp: coherent_def fld_override_def)
  have ps': "length ps' = length rs" "distinct ps'" "p \<notin> set ps'" using Cons.prems(4,5) ps by simp_all
  have sep: "set ps' \<inter> set (ptrs (fci_entries_head c1)) = {}" using u(1) ps'(3) Cons.prems(6) unfolding ps by fastforce
  have step: "fld_index_load (loads (r # rs) ps) end_rc n c = fld_index_load (loads rs ps') end_rc (n + 1) c1"
    using r(1) c1(1)
    by (simp add: loads_def ps fld_cache_insert_def fld_cache_entry_create_def lu_seq_range_is_sane_def LASSERT_def less_imp_le)
  have truth: "\<forall>x\<in>set rs. \<forall>s. lu_seq_range_within x s \<longrightarrow> truth (lsr_flags x) s = Some (lsr_index x)" using Cons.prems(9) by simp
  obtain c' where c': "fld_index_load (loads rs ps') end_rc (n + 1) c1 = Some (None, (n + 1) + length rs, c')" "fld_cache_wf c'"
    "coherent truth (fld_cache_owner c')" "fci_cache_count c1 + int (length rs) \<le> fci_cache_size c1 \<longrightarrow>
      (\<forall>f s. fld_cache_owner c' f s = (case index_owner rs f s of Some i \<Rightarrow> Some i | None \<Rightarrow> fld_cache_owner c1 f s))"
    using Cons.IH [OF c1(2) r(2) own ps'(1,2) sep Cons.prems(7) co truth, of "n + 1"] by blast
  have "index_owner rs f s = None" if "lu_seq_range_within r s" for f s
    using index_owner_apart [OF _ that, of rs f] r(3) by (simp add: apart_def)
  then have "\<forall>f s. fld_cache_owner c' f s = (case index_owner (r # rs) f s of Some i \<Rightarrow> Some i | None \<Rightarrow> fld_cache_owner c f s)"
    if "fci_cache_count c + int (length (r # rs)) \<le> fci_cache_size c"
    using that cnt u(2) c'(4) unfolding c1(3) fld_override_def by (auto simp: fld_cache_shrink_room split: option.split)
  then show ?case using step c'(1-3) by auto
qed (simp add: loads_def)

section \<open>A full cache\<close>

lemma fld_cache_shrink_drops:
  assumes wf: "fld_cache_wf c" and full: "fci_cache_count c \<ge> fci_cache_size c" "fci_cache_size c > 0" "fci_threshold c > 0"
  obtains e where "e \<in> set (fci_entries_head c)" and "\<And>f s. lu_seq_range_within (fce_range e) s \<Longrightarrow> fld_cache_owner (fld_cache_shrink c) f s = None"
proof -
  let ?p = "last (fci_lru c)"
  have "fci_entries_head c \<noteq> []" using wf full by (auto simp: fld_cache_wf_def)
  then have lru: "fci_lru c \<noteq> []" using wf by (auto simp: fld_cache_wf_def)
  then obtain e where e: "e \<in> set (fci_entries_head c)" "fce_ptr e = ?p"
    using wf last_in_set [OF lru] by (auto simp: fld_cache_wf_def)
  have "fld_cache_shrink c = fld_cache_shrink_loop (fld_cache_entry_delete c ?p)"
    using full lru fld_cache_shrink_loop.simps [of c] by (simp add: fld_cache_shrink_def)
  then obtain P where P: "fci_entries_head (fld_cache_shrink c) = filter P (filter (\<lambda>x. fce_ptr x \<noteq> ?p) (fci_entries_head c))"
    using fld_cache_shrink_loop_entries [of "fld_cache_entry_delete c ?p"] by (auto simp: fld_cache_entry_delete_def)
  have "fld_cache_owner (fld_cache_shrink c) f s = None" if s: "lu_seq_range_within (fce_range e) s" for f s
  proof (cases "fld_cache_owner (fld_cache_shrink c) f s")
    case (Some i)
    then obtain x where "x \<in> set (fci_entries_head c)" "fce_ptr x \<noteq> ?p" "lu_seq_range_within (fce_range x) s"
      using fld_owner_in [of "fci_entries_head (fld_cache_shrink c)" f s i] unfolding fld_cache_owner_def P by auto
    then show ?thesis using dj_within_unique [of "fci_entries_head c" e x s] e s wf by (auto simp: fld_cache_wf_def)
  qed
  then show thesis using that e(1) by blast
qed

end
