(* ===== verification/Fld_Lookup.thy ===== *)
theory Fld_Lookup
  imports Fld_Reload
begin

text \<open>
  Lookups: the server that has the whole database answers from its cache, and a client asks its targets until one answers. The truth is the
  owner function of the database; a client that only hears the truth stays coherent with it.
\<close>

section \<open>Server\<close>

definition on_mdt0 :: "lookup_env \<Rightarrow> lu_server_fld \<Rightarrow> bool" where
  "on_mdt0 env fld \<longleftrightarrow> fld_name_to_index (le_kstrtou16 env) (lsf_name fld) (le_index0 env) = (LDD_F_SV_TYPE_MDT, 0)"

text \<open>A range that holds the sequence and that the truth gives to its target as a whole.\<close>

definition true_range :: "(u32 \<Rightarrow> u64 \<Rightarrow> u32 option) \<Rightarrow> u64 \<Rightarrow> lu_seq_range \<Rightarrow> bool" where
  "true_range truth seq r \<longleftrightarrow> lu_seq_range_within r seq \<and>
     (\<forall>s. lu_seq_range_within r s \<longrightarrow> truth (lsr_flags r) s = Some (lsr_index r))"

lemma true_range_nonempty: "true_range truth seq r \<Longrightarrow> lsr_start r < lsr_end r"
  by (auto simp: true_range_def lu_seq_range_within_def)

lemma fld_cache_lookup_hit:
  assumes "fld_cache_wf c" and "fld_cache_lookup c s r = (0, r', c')"
  shows "true_range (fld_cache_owner c) s r'"
proof -
  have "fld_cache_lookup_scan s None (fci_entries_head c) = Inr r'"
    using assms(2) by (auto simp: fld_cache_lookup_def Let_def ENOENT_def split: sum.split_asm option.split_asm)
  from fld_cache_lookup_scan_Inr [OF this] obtain e where e: "e \<in> set (fci_entries_head c)" "r' = fce_range e"
    "lu_seq_range_within r' s" by auto
  have "dj (fci_entries_head c)" using assms(1) by (simp add: fld_cache_wf_def)
  from fld_owner_of [OF this e(1)] show ?thesis using e(2,3) by (simp add: true_range_def fld_cache_owner_def)
qed

lemma fld_server_lookup_mdt0:
  assumes wf: "fld_cache_wf (lsf_cache fld)" and m: "on_mdt0 env fld"
  shows "\<exists>rc res fld'. fld_server_lookup env fld seq rng = Some (rc, res, fld') \<and>
    (rc = 0 \<longrightarrow> true_range (fld_cache_owner (lsf_cache fld)) seq res) \<and> (rc \<noteq> 0 \<longrightarrow> rc = - ENOENT) \<and>
    (fld_range_is_any rng \<longrightarrow> (rc = 0 \<longleftrightarrow> (\<exists>f. fld_cache_owner (lsf_cache fld) f seq \<noteq> None)))"
proof -
  obtain rc r c where l: "fld_cache_lookup (lsf_cache fld) seq (le_erange env) = (rc, r, c)" by (metis prod_cases3)
  note ok = fld_cache_lookup_ok [OF wf l]
  show ?thesis
  proof (cases "rc = 0")
    case True
    then have t: "true_range (fld_cache_owner (lsf_cache fld)) seq r" using fld_cache_lookup_hit [OF wf] l by simp
    have "\<exists>f. fld_cache_owner (lsf_cache fld) f seq \<noteq> None" using t unfolding true_range_def by blast
    then show ?thesis
      using l True t m by (auto simp: fld_server_lookup_def fld_local_lookup_def Let_def on_mdt0_def LDD_F_SV_TYPE_MDT_def errno_defs)
  next
    case False
    then have "rc = - ENOENT" "\<forall>f. fld_cache_owner (lsf_cache fld) f seq = None" using ok by auto
    then show ?thesis
      using l m by (auto simp: fld_server_lookup_def fld_local_lookup_def Let_def on_mdt0_def LDD_F_SV_TYPE_MDT_def errno_defs)
  qed
qed

text \<open>Ranges the server has in its index and no longer in its cache.\<close>

lemma fld_server_forgets:
  assumes db: "db_ok fld" and n: "new_range fld p r" and env: "ie_insert env = 0" "ie_alloc env = Some p"
    and full: "fci_cache_count (lsf_cache fld) \<ge> fci_cache_size (lsf_cache fld)" "fci_cache_size (lsf_cache fld) > 0"
      "fci_threshold (lsf_cache fld) > 0"
  shows "\<exists>fld' f s i. fld_index_create env rec0 fld r = Some (0, fld') \<and> fld_cache_wf (lsf_cache fld') \<and>
    lsf_name fld' = lsf_name fld \<and> index_owner (lsf_index fld) f s = Some i \<and> index_owner (lsf_index fld') f s = Some i \<and>
    (\<forall>f. fld_cache_owner (lsf_cache fld') f s = None)"
proof -
  let ?c = "lsf_cache fld"
  have wf: "fld_cache_wf ?c" and o: "fld_cache_owner ?c = index_owner (lsf_index fld)" using db by (simp_all add: db_ok_def)
  obtain e where e: "e \<in> set (fci_entries_head ?c)"
    "\<And>f s. lu_seq_range_within (fce_range e) s \<Longrightarrow> fld_cache_owner (fld_cache_shrink ?c) f s = None"
    using fld_cache_shrink_drops [OF wf full] by blast
  have dj: "dj (fci_entries_head ?c)" using wf by (simp add: fld_cache_wf_def)
  let ?s = "e_start e"
  have s: "lu_seq_range_within (fce_range e) ?s" using dj e(1) by (simp add: dj_def lu_seq_range_within_def)
  have i: "index_owner (lsf_index fld) (e_flags e) ?s = Some (e_index e)"
    using fld_owner_of [OF dj e(1) s] o by (simp add: fld_cache_owner_def)
  then have out: "\<not> lu_seq_range_within r ?s" using new_range_owner [OF db_ok_sound [OF db] n] o by fastforce
  obtain fld' where f: "fld_index_create env rec0 fld r = Some (0, fld')" "fld_cache_wf (lsf_cache fld')"
    "lsf_index fld' = index_insert r (lsf_index fld)" "lsf_name fld' = lsf_name fld"
    "fld_cache_owner (lsf_cache fld') = fld_override r (fld_cache_owner (fld_cache_shrink ?c))"
    using fld_index_create_new [OF db_ok_sound [OF db] n env] by blast
  have "index_owner (lsf_index fld') (e_flags e) ?s = Some (e_index e)"
    unfolding f(3) using n db i out by (subst index_insert_owner) (auto simp: new_range_def db_ok_def index_dj_def)
  moreover have "fld_cache_owner (lsf_cache fld') g ?s = None" for g
    unfolding f(5) using e(2) [OF s] out by (simp add: fld_override_def)
  ultimately show ?thesis using f(1,2,4) i by blast
qed

section \<open>Client\<close>

definition one_type :: "(u32 \<Rightarrow> u64 \<Rightarrow> u32 option) \<Rightarrow> bool" where
  "one_type truth \<longleftrightarrow> (\<forall>f g s. truth f s \<noteq> None \<longrightarrow> truth g s \<noteq> None \<longrightarrow> f = g)"

lemma insert_ok_true:
  assumes wf: "fld_cache_wf c" and co: "coherent truth (fld_cache_owner c)" and t: "one_type truth"
    and r: "true_range truth seq r" and p: "p \<notin> set (ptrs (fci_entries_head c))"
  shows "insert_ok fldt c \<lparr>fce_ptr = p, fce_range = r\<rparr>"
proof -
  have agree: "apart r (fce_range e) \<or> e_flags e = lsr_flags r \<and> e_index e = lsr_index r" if e: "e \<in> set (fci_entries_head c)" for e
  proof (rule ccontr)
    assume n: "\<not> ?thesis"
    have ne: "lsr_start r < lsr_end r" "nonempty e"
      using true_range_nonempty [OF r] wf e by (simp_all add: fld_cache_wf_def dj_def)
    define s where "s = max (lsr_start r) (e_start e)"
    have s: "lu_seq_range_within (fce_range e) s" "lu_seq_range_within r s"
      using n ne unfolding s_def by (auto simp: apart_def lu_seq_range_within_def)
    have "fld_cache_owner c (e_flags e) s = Some (e_index e)"
      using fld_owner_of [of "fci_entries_head c" e s] wf e s(1) by (simp add: fld_cache_wf_def fld_cache_owner_def)
    then have "truth (e_flags e) s = Some (e_index e)" "truth (lsr_flags r) s = Some (lsr_index r)"
      using co r s(2) by (auto simp: coherent_def true_range_def)
    then show False using n t unfolding one_type_def by (metis option.distinct(1) option.inject)
  qed
  show ?thesis
    using true_range_nonempty [OF r] p agree
    unfolding insert_ok_def Let_def cross_disjoint_def tail_conflict_def hole_def apart_def by fastforce
qed

text \<open>
  A remote target answers every call, and what it answers with status 0 is true; it is alive when it finds every sequence that exists
  for a query of any type.
\<close>

definition tells_truth :: "(u32 \<Rightarrow> u64 \<Rightarrow> u32 option) \<Rightarrow> u64 \<Rightarrow> rpc_try list \<Rightarrow> bool" where
  "tells_truth truth seq tries \<longleftrightarrow> (\<forall>res. lsr_start res = seq \<longrightarrow>
     (\<exists>rc res' reply. fld_client_rpc True tries res FLD_QUERY = Some (rc, res', reply) \<and> (rc = 0 \<longrightarrow> true_range truth seq res')))"

definition finds :: "(u32 \<Rightarrow> u64 \<Rightarrow> u32 option) \<Rightarrow> u64 \<Rightarrow> rpc_try list \<Rightarrow> bool" where
  "finds truth seq tries \<longleftrightarrow> (\<forall>res. lsr_start res = seq \<longrightarrow> fld_range_is_any res \<longrightarrow> (\<exists>f. truth f seq \<noteq> None) \<longrightarrow>
     (\<exists>res' reply. fld_client_rpc True tries res FLD_QUERY = Some (0, res', reply)))"

definition shut_down :: "rpc_try list \<Rightarrow> bool" where
  "shut_down tries \<longleftrightarrow> (\<forall>res. \<exists>res' reply. fld_client_rpc True tries res FLD_QUERY = Some (- ESHUTDOWN, res', reply))"

definition remote_ok :: "client_env \<Rightarrow> (u32 \<Rightarrow> u64 \<Rightarrow> u32 option) \<Rightarrow> u64 \<Rightarrow> lu_fld_target \<Rightarrow> bool" where
  "remote_ok env truth seq t \<longleftrightarrow> \<not> ft_srv t \<and> ft_exp t \<and> tells_truth truth seq (ce_tries env (ft_idx t))"

lemma fld_client_query_remote:
  "\<not> ft_srv t \<Longrightarrow> ft_exp t \<Longrightarrow> fld_client_query env t seq res srv =
     do { (rc, res', _) \<leftarrow> fld_client_rpc True (ce_tries env (ft_idx t)) res FLD_QUERY; Some (rc, res', srv) }"
  by (simp add: fld_client_query_def)

lemma fld_range_set_type_start [simp]: "lsr_start (fld_range_set_type r f) = lsr_start r"
  by (simp add: fld_range_set_type_def)

lemma fld_range_set_type_any: "fld_range_is_any (fld_range_set_type r LU_SEQ_RANGE_ANY)"
proof -
  have "(x OR m) AND m = m" for x m :: u32 by (rule bit_eqI) (auto simp: bit_simps)
  then show ?thesis
    by (simp add: fld_range_set_type_def fld_range_is_any_def fld_range_type_def LU_SEQ_RANGE_ANY_def LU_SEQ_RANGE_MASK_def)
qed

lemma fld_client_try_true:
  "\<forall>t\<in>set ts. remote_ok env truth seq t \<Longrightarrow> ts \<noteq> [] \<Longrightarrow>
     \<exists>rc res'. fld_client_try env seq flags ts res srv = Some (rc, res', srv) \<and> (rc = 0 \<longrightarrow> true_range truth seq res')"
proof (induction ts arbitrary: res)
  case (Cons t ts)
  let ?r = "fld_range_set_type (res\<lparr>lsr_start := seq\<rparr>) flags"
  have t: "\<not> ft_srv t" "ft_exp t" "tells_truth truth seq (ce_tries env (ft_idx t))" using Cons.prems(1) by (simp_all add: remote_ok_def)
  obtain rc res' reply where q: "fld_client_rpc True (ce_tries env (ft_idx t)) ?r FLD_QUERY = Some (rc, res', reply)"
    "rc = 0 \<longrightarrow> true_range truth seq res'" using t(3) [unfolded tells_truth_def, rule_format, of ?r] by auto
  show ?case
  proof (cases "rc = - ESHUTDOWN \<and> ts \<noteq> []")
    case True
    then show ?thesis using Cons.IH [of res'] Cons.prems(1) q(1) by (simp add: fld_client_query_remote [OF t(1,2)])
  next
    case False
    then show ?thesis using q by (auto simp: fld_client_query_remote [OF t(1,2)])
  qed
qed simp

lemma fld_client_try_finds:
  assumes "\<forall>t\<in>set ts. remote_ok env truth seq t \<and> (finds truth seq (ce_tries env (ft_idx t)) \<or> shut_down (ce_tries env (ft_idx t)))"
    and "\<exists>t\<in>set ts. finds truth seq (ce_tries env (ft_idx t))" and "\<exists>f. truth f seq \<noteq> None"
  shows "\<exists>res'. fld_client_try env seq LU_SEQ_RANGE_ANY ts res srv = Some (0, res', srv)"
  using assms
proof (induction ts arbitrary: res)
  case (Cons t ts)
  let ?r = "fld_range_set_type (res\<lparr>lsr_start := seq\<rparr>) LU_SEQ_RANGE_ANY"
  have t: "\<not> ft_srv t" "ft_exp t" using Cons.prems(1) by (simp_all add: remote_ok_def)
  consider "finds truth seq (ce_tries env (ft_idx t))" | "shut_down (ce_tries env (ft_idx t))" "\<exists>t\<in>set ts. finds truth seq (ce_tries env (ft_idx t))"
    using Cons.prems(1,2) by auto
  then show ?case
  proof cases
    case 1
    then obtain res' reply where "fld_client_rpc True (ce_tries env (ft_idx t)) ?r FLD_QUERY = Some (0, res', reply)"
      using Cons.prems(3) fld_range_set_type_any 1 [unfolded finds_def, rule_format, of ?r] by auto
    then show ?thesis by (simp add: fld_client_query_remote [OF t] ESHUTDOWN_def)
  next
    case 2
    then obtain res' reply where "fld_client_rpc True (ce_tries env (ft_idx t)) ?r FLD_QUERY = Some (- ESHUTDOWN, res', reply)"
      unfolding shut_down_def by blast
    moreover have "ts \<noteq> []" using 2(2) by auto
    ultimately show ?thesis using Cons.IH [of res'] 2(2) Cons.prems(1,3) by (simp add: fld_client_query_remote [OF t])
  qed
qed simp

text \<open>The choice of the target does not fail when there is a target with index 0.\<close>

definition client_ok :: "lu_client_fld \<Rightarrow> bool" where
  "client_ok fld \<longleftrightarrow> lcf_hash fld = 0 \<and> lcf_count fld > 0 \<and> (\<exists>t\<in>set (lcf_targets fld). ft_idx t = 0)"

lemma find_target_Some: "find_target h ts = Some i \<Longrightarrow> i < length ts \<and> ft_idx (ts ! i) = h"
  by (induction ts arbitrary: i) (auto split: if_split_asm)

lemma find_target_None: "find_target h ts = None \<longleftrightarrow> (\<forall>t\<in>set ts. ft_idx t \<noteq> h)"
  by (induction ts) auto

lemma fld_client_get_target_ok:
  assumes "client_ok fld"
  shows "\<exists>i < length (lcf_targets fld). fld_client_get_target fld seq = Some i"
proof -
  have z: "find_target 0 (lcf_targets fld) \<noteq> None" using assms by (auto simp: find_target_None client_ok_def)
  define h where "h = (if fid_seq_is_norm seq then seq mod of_int (lcf_count fld) else 0)"
  have "(if fid_seq_is_norm seq then fld_rrb_hash fld seq else Some 0) = Some h"
    using assms by (simp add: fld_rrb_hash_def client_ok_def h_def)
  then have "fld_client_get_target fld seq = (case find_target h (lcf_targets fld) of Some i \<Rightarrow> Some i | None \<Rightarrow> find_target 0 (lcf_targets fld))"
    using assms by (simp add: fld_client_get_target_def fld_rrb_scan_def client_ok_def)
  then show ?thesis using z find_target_Some by (fastforce split: option.splits)
qed

lemma fld_client_lookup_ok:
  assumes wf: "fld_cache_wf c" and co: "coherent truth (fld_cache_owner c)" and t: "one_type truth"
    and kn: "coherent truth known"
    and fld: "client_ok fld" "lcf_cache fld = Some c" "\<forall>t\<in>set (lcf_targets fld). remote_ok env known seq t"
    and p: "ce_alloc env = Some p" "p \<notin> set (ptrs (fci_entries_head c))"
  shows "\<exists>rc res' fld' c'. fld_client_lookup env fld seq flags res srv = Some (rc, res', fld', srv) \<and>
    lcf_cache fld' = Some c' \<and> fld_cache_wf c' \<and> coherent truth (fld_cache_owner c') \<and>
    (rc = 0 \<longrightarrow> lu_seq_range_within res' seq \<and> truth (lsr_flags res') seq = Some (lsr_index res') \<and>
      (\<exists>f. fld_cache_owner c f seq \<noteq> None \<or> known f seq \<noteq> None)) \<and>
    (flags = LU_SEQ_RANGE_ANY \<longrightarrow> (\<exists>f. fld_cache_owner c f seq \<noteq> None \<or> known f seq \<noteq> None) \<longrightarrow>
      (\<exists>t\<in>set (lcf_targets fld). finds known seq (ce_tries env (ft_idx t))) \<longrightarrow>
      (\<forall>t\<in>set (lcf_targets fld). finds known seq (ce_tries env (ft_idx t)) \<or> shut_down (ce_tries env (ft_idx t))) \<longrightarrow> rc = 0)"
proof -
  obtain rc r1 c1 where l: "fld_cache_lookup c seq res = (rc, r1, c1)" by (metis prod_cases3)
  note ok = fld_cache_lookup_ok [OF wf l]
  have c1: "fld_cache_wf c1" "fld_cache_owner c1 = fld_cache_owner c" "fci_entries_head c1 = fci_entries_head c"
    using fld_cache_stat_irrelevant [OF conjunct2 [OF ok]] wf by simp_all
  show ?thesis
  proof (cases "rc = 0")
    case True
    then have "true_range (fld_cache_owner c) seq r1" "\<exists>f. fld_cache_owner c f seq \<noteq> None"
      using fld_cache_lookup_hit [OF wf] l ok by (auto simp: ENOENT_def)
    then show ?thesis using True l fld(2) c1 co by (auto simp: fld_client_lookup_def true_range_def coherent_def)
  next
    case False
    let ?fld = "fld\<lparr>lcf_cache := Some c1\<rparr>"
    obtain i where i: "i < length (lcf_targets fld)" "fld_client_get_target ?fld seq = Some i"
      using fld_client_get_target_ok [of ?fld seq] fld(1) by (auto simp: client_ok_def)
    let ?ts = "rotate i (lcf_targets fld)"
    have ts: "\<forall>t\<in>set ?ts. remote_ok env known seq t" "?ts \<noteq> []" using fld(3) i(1) by auto
    from fld_client_try_true [OF this, of flags r1 srv] obtain rc2 r2
      where q: "fld_client_try env seq flags ?ts r1 srv = Some (rc2, r2, srv)" "rc2 = 0 \<longrightarrow> true_range known seq r2" by blast
    have miss: "fld_cache_owner c f seq = None" for f using ok False by auto
    have found: "rc2 = 0" if "flags = LU_SEQ_RANGE_ANY" "\<exists>f. known f seq \<noteq> None"
      "\<exists>t\<in>set (lcf_targets fld). finds known seq (ce_tries env (ft_idx t))"
      "\<forall>t\<in>set (lcf_targets fld). finds known seq (ce_tries env (ft_idx t)) \<or> shut_down (ce_tries env (ft_idx t))"
      using fld_client_try_finds [of ?ts env known seq r1 srv] ts(1) that q(1) by auto
    show ?thesis
    proof (cases "rc2 = 0")
      case True
      have k: "known (lsr_flags r2) seq = Some (lsr_index r2)" using q(2) True by (simp add: true_range_def)
      have tr: "true_range truth seq r2" using q(2) True kn by (simp add: true_range_def coherent_def)
      have p1: "p \<notin> set (ptrs (fci_entries_head c1))" using p(2) c1(3) by simp
      have adm: "fld_adm (ce_fldt env, \<lparr>fce_ptr = p, fce_range = r2\<rparr>) c1"
        using insert_ok_true [OF c1(1) _ t tr p1] co c1(2) by (simp add: fld_adm_def)
      obtain c2 where c2: "fld_ins (ce_fldt env, \<lparr>fce_ptr = p, fce_range = r2\<rparr>) c1 = Some c2" "fld_cache_wf c2"
        using fldc.ins_total [OF c1(1) adm] by blast
      have "coherent truth (fld_cache_owner c2)"
        using fldc.ins_coherent [OF c1(1) adm c2(1)] co c1(2) tr by (simp add: true_range_def)
      moreover have "fld_cache_insert (ce_alloc env) (ce_fldt env) c1 r2 = Some (0, c2)"
        using c2(1) true_range_nonempty [OF tr] p(1)
        by (simp add: fld_cache_insert_def fld_cache_entry_create_def fld_ins_def lu_seq_range_is_sane_def LASSERT_def less_imp_le)
      ultimately show ?thesis
        using True False l fld(2) i q(1) tr k c2(2) by (simp add: fld_client_lookup_def true_range_def) blast
    next
      case n: False
      then show ?thesis using False l fld(2) i q(1) c1 co miss found by (simp add: fld_client_lookup_def) blast
    qed
  qed
qed

section \<open>Server and client together\<close>

text \<open>One attempt of a remote call whose request \<^verbatim>\<open>fld_handle_lookup\<close> of a server answers.\<close>

definition served_by :: "lookup_env \<Rightarrow> lu_server_fld \<Rightarrow> rpc_try" where
  "served_by env fld = \<lparr>rt_alloc = 0, rt_fail = False,
     rt_reply = (\<lambda>r. case fld_handle_lookup env 0 True fld (Some r) of
         Some (Inr rc, out, _) \<Rightarrow> (rc, out, None) | _ \<Rightarrow> (- EPROTO, None, None)),
     rt_lwp = False, rt_interrupted = False\<rparr>"

lemma served_by_rpc:
  assumes "fld_server_lookup env fld (lsr_start r) r = Some (rc, res, fld')" and "rc = 0 \<or> rc = - ENOENT"
  shows "fld_client_rpc True [served_by env fld] r FLD_QUERY =
    Some (if rc = 0 then (0, res, Some res, None) else (- ENOENT, r, None, None))"
  using assms by (auto simp: served_by_def fld_handle_lookup_def ENOENT_def)

lemma served_by_ok:
  assumes wf: "fld_cache_wf (lsf_cache fld)" and m: "on_mdt0 env fld"
  shows "tells_truth (fld_cache_owner (lsf_cache fld)) seq [served_by env fld]"
    and "finds (fld_cache_owner (lsf_cache fld)) seq [served_by env fld]"
proof -
  let ?own = "fld_cache_owner (lsf_cache fld)"
  have rpc: "\<exists>rc res' reply. fld_client_rpc True [served_by env fld] r FLD_QUERY = Some (rc, res', reply) \<and>
      (rc = 0 \<longrightarrow> true_range ?own seq res') \<and> (fld_range_is_any r \<longrightarrow> (\<exists>f. ?own f seq \<noteq> None) \<longrightarrow> rc = 0)"
    if r: "lsr_start r = seq" for r
  proof -
    obtain rc res fld' where l: "fld_server_lookup env fld (lsr_start r) r = Some (rc, res, fld')"
      "rc = 0 \<longrightarrow> true_range ?own seq res" "rc \<noteq> 0 \<longrightarrow> rc = - ENOENT"
      "fld_range_is_any r \<longrightarrow> (rc = 0 \<longleftrightarrow> (\<exists>f. ?own f seq \<noteq> None))"
      using fld_server_lookup_mdt0 [OF wf m, of seq r] unfolding r by blast
    show ?thesis
    proof (cases "rc = 0")
      case True
      then show ?thesis using served_by_rpc [OF l(1)] l(2) by simp
    next
      case False
      then have "rc = - ENOENT" "ENOENT \<noteq> 0" using l(3) by (simp_all add: ENOENT_def)
      then show ?thesis using served_by_rpc [OF l(1)] l(4) False by (intro exI conjI) auto
    qed
  qed
  show "tells_truth ?own seq [served_by env fld]" using rpc unfolding tells_truth_def by blast
  show "finds ?own seq [served_by env fld]" using rpc unfolding finds_def by blast
qed

lemma shut_down_tells_truth: "shut_down tries \<Longrightarrow> tells_truth truth seq tries"
proof -
  have "- ESHUTDOWN \<noteq> 0" by (simp add: ESHUTDOWN_def)
  then show "shut_down tries \<Longrightarrow> tells_truth truth seq tries" unfolding shut_down_def tells_truth_def by metis
qed

lemma fld_cache_one_type: "fld_cache_wf c \<Longrightarrow> one_type (fld_cache_owner c)"
proof -
  assume wf: "fld_cache_wf c"
  have "f = g" if fg: "fld_owner (fci_entries_head c) f s = Some i" "fld_owner (fci_entries_head c) g s = Some j" for f g s i j
  proof -
    obtain a b where "a \<in> set (fci_entries_head c)" "e_flags a = f" "lu_seq_range_within (fce_range a) s"
      "b \<in> set (fci_entries_head c)" "e_flags b = g" "lu_seq_range_within (fce_range b) s"
      using fld_owner_in [OF fg(1)] fld_owner_in [OF fg(2)] by blast
    then show ?thesis using dj_within_unique [of "fci_entries_head c" a b s] wf by (auto simp: fld_cache_wf_def)
  qed
  then show ?thesis unfolding one_type_def fld_cache_owner_def by blast
qed

lemma index_one_type: "index_dj rs \<Longrightarrow> one_type (index_owner rs)"
proof (induction rs)
  case (Cons r rs)
  have none: "index_owner rs f s = None" if "lu_seq_range_within r s" for f s
    using index_owner_apart [OF _ that, of rs f] Cons.prems by (simp add: index_dj_Cons apart_def)
  have "one_type (index_owner rs)" using Cons by (simp add: index_dj_Cons)
  then have "f = g" if "index_owner (r # rs) f s \<noteq> None" "index_owner (r # rs) g s \<noteq> None" for f g s
    using that none [of s] unfolding one_type_def by (cases "lu_seq_range_within r s") (simp_all split: if_split_asm)
  then show ?case unfolding one_type_def by blast
qed (simp add: one_type_def)

lemma fld_lookup_served:
  assumes db: "db_sound server" "on_mdt0 lenv server"
    and c: "fld_cache_wf c" "coherent (index_owner (lsf_index server)) (fld_cache_owner c)"
    and fld: "client_ok fld" "lcf_cache fld = Some c"
    and ts: "\<forall>t\<in>set (lcf_targets fld). \<not> ft_srv t \<and> ft_exp t \<and>
      (ce_tries env (ft_idx t) = [served_by lenv server] \<or> shut_down (ce_tries env (ft_idx t)))"
      "\<exists>t\<in>set (lcf_targets fld). ce_tries env (ft_idx t) = [served_by lenv server]"
    and p: "ce_alloc env = Some p" "p \<notin> set (ptrs (fci_entries_head c))"
  shows "\<exists>rc res' fld' c'. fld_client_lookup env fld seq LU_SEQ_RANGE_ANY res srv = Some (rc, res', fld', srv) \<and>
    (rc = 0 \<longleftrightarrow> (\<exists>f. fld_cache_owner c f seq \<noteq> None \<or> fld_cache_owner (lsf_cache server) f seq \<noteq> None)) \<and>
    (db_ok server \<longrightarrow> (rc = 0 \<longleftrightarrow> (\<exists>f. index_owner (lsf_index server) f seq \<noteq> None))) \<and>
    (rc = 0 \<longrightarrow> index_owner (lsf_index server) (lsr_flags res') seq = Some (lsr_index res')) \<and>
    lcf_cache fld' = Some c' \<and> fld_cache_wf c' \<and> coherent (index_owner (lsf_index server)) (fld_cache_owner c')"
proof -
  let ?own = "index_owner (lsf_index server)" and ?known = "fld_cache_owner (lsf_cache server)"
  have wf: "fld_cache_wf (lsf_cache server)" and kn: "coherent ?own ?known" and one: "one_type ?own"
    using db(1) index_one_type by (simp_all add: db_sound_def)
  note s = served_by_ok [OF wf db(2)]
  have r: "\<forall>t\<in>set (lcf_targets fld). remote_ok env ?known seq t" using ts(1) s(1) shut_down_tells_truth unfolding remote_ok_def by metis
  have f: "\<forall>t\<in>set (lcf_targets fld). finds ?known seq (ce_tries env (ft_idx t)) \<or> shut_down (ce_tries env (ft_idx t))"
    "\<exists>t\<in>set (lcf_targets fld). finds ?known seq (ce_tries env (ft_idx t))"
    using ts s(2) by metis+
  obtain rc res' fld' c' where l: "fld_client_lookup env fld seq LU_SEQ_RANGE_ANY res srv = Some (rc, res', fld', srv)"
    "lcf_cache fld' = Some c'" "fld_cache_wf c'" "coherent ?own (fld_cache_owner c')"
    "rc = 0 \<longrightarrow> ?own (lsr_flags res') seq = Some (lsr_index res')"
    "rc = 0 \<longleftrightarrow> (\<exists>f. fld_cache_owner c f seq \<noteq> None \<or> ?known f seq \<noteq> None)"
    using fld_client_lookup_ok [OF c one kn fld r p, of LU_SEQ_RANGE_ANY res srv] f by blast
  have "rc = 0 \<longleftrightarrow> (\<exists>f. ?own f seq \<noteq> None)" if "db_ok server"
    using l(6) c(2) that unfolding db_ok_def coherent_def by (metis option.distinct(1) option.exhaust)
  then show ?thesis using l by blast
qed

text \<open>A query for one type does not find a range of the other.\<close>

lemma fld_server_lookup_type:
  assumes wf: "fld_cache_wf (lsf_cache fld)" and m: "on_mdt0 env fld" and o: "fld_cache_owner (lsf_cache fld) f seq = Some i"
  shows "\<exists>rc res fld'. fld_server_lookup env fld seq rng = Some (rc, res, fld') \<and>
    rc = (if f AND LU_SEQ_RANGE_MASK = fld_range_type rng \<or> fld_range_is_any rng then 0 else - ENOENT)"
proof -
  obtain rc r c where l: "fld_cache_lookup (lsf_cache fld) seq (le_erange env) = (rc, r, c)" by (metis prod_cases3)
  have "rc = 0" using fld_cache_lookup_ok [OF wf l] o by auto
  then have "true_range (fld_cache_owner (lsf_cache fld)) seq r" using fld_cache_lookup_hit [OF wf] l by simp
  then have "fld_cache_owner (lsf_cache fld) (lsr_flags r) seq \<noteq> None" unfolding true_range_def by blast
  then have "lsr_flags r = f" using fld_cache_one_type [OF wf] o unfolding one_type_def by blast
  then show ?thesis
    using l \<open>rc = 0\<close> m by (auto simp: fld_server_lookup_def fld_local_lookup_def Let_def on_mdt0_def LDD_F_SV_TYPE_MDT_def errno_defs
        fld_range_type_def)
qed

text \<open>A miss between two entries of the cache leaves the range of the left one behind.\<close>

lemma fld_cache_lookup_scan_left:
  assumes "dj (xs @ a # b # ys)" and "e_end a \<le> seq" and "seq < e_start b"
  shows "fld_cache_lookup_scan seq prev (xs @ a # b # ys) = Inl (Some (fce_range a))"
  using assms
proof (induction xs arbitrary: prev)
  case Nil
  then have "\<not> seq < e_start a" by (auto simp: dj_def)
  moreover have "\<not> lu_seq_range_within (fce_range a) seq" using Nil(2) by (simp add: lu_seq_range_within_def not_less)
  ultimately show ?case using Nil(3) by simp
next
  case (Cons x xs)
  have "e_start x < e_end x" "e_end x \<le> e_start a" "e_start a < e_end a" using Cons.prems(1) by (auto simp: dj_def)
  then have "\<not> seq < e_start x" "\<not> lu_seq_range_within (fce_range x) seq" using Cons.prems(2) by (auto simp: lu_seq_range_within_def)
  then show ?case using Cons.IH Cons.prems by (simp add: dj_def)
qed

lemma fld_client_wrong_answer:
  assumes wf: "fld_cache_wf (lsf_cache server)" and m: "on_mdt0 lenv server"
    and o: "fld_cache_owner (lsf_cache server) LU_SEQ_RANGE_MDT seq = Some i"
    and t: "\<not> ft_srv t" "ft_exp t" "ce_tries env (ft_idx t) = [served_by lenv server]"
    and r: "lsr_flags r = LU_SEQ_RANGE_OST"
  shows "\<exists>res'. fld_client_try env seq LU_SEQ_RANGE_MDT (t # ts) r srv = Some (- ENOENT, res', srv)"
proof -
  let ?r = "fld_range_set_type (r\<lparr>lsr_start := seq\<rparr>) LU_SEQ_RANGE_MDT"
  have "fld_range_type ?r = LU_SEQ_RANGE_OST"
    using r by (simp add: fld_range_set_type_def fld_range_type_def LU_SEQ_RANGE_MDT_def LU_SEQ_RANGE_OST_def LU_SEQ_RANGE_MASK_def)
  then obtain res fld' where l: "fld_server_lookup lenv server (lsr_start ?r) ?r = Some (- ENOENT, res, fld')"
    using fld_server_lookup_type [OF wf m o, of ?r]
    by (auto simp: fld_range_is_any_def LU_SEQ_RANGE_MDT_def LU_SEQ_RANGE_OST_def LU_SEQ_RANGE_ANY_def)
  have "- ENOENT \<noteq> 0" "- ENOENT \<noteq> - ESHUTDOWN" by (simp_all add: ENOENT_def ESHUTDOWN_def)
  then show ?thesis using served_by_rpc [OF l] t by (simp add: fld_client_query_remote [OF t(1,2)])
qed

section \<open>The special ranges of MDT0\<close>

text \<open>The status 0 of every call to the storage layer.\<close>

definition env_ok0 :: "index_env \<Rightarrow> bool" where
  "env_ok0 env \<longleftrightarrow> ie_trans_create env = 0 \<and> ie_declare_insert env = 0 \<and> ie_trans_start env = 0 \<and> ie_insert env = 0"

lemma index_owner_of: "index_dj rs \<Longrightarrow> r \<in> set rs \<Longrightarrow> lu_seq_range_within r s \<Longrightarrow> index_owner rs (lsr_flags r) s = Some (lsr_index r)"
proof (induction rs)
  case (Cons x rs)
  have "\<not> lu_seq_range_within x s" if "r \<in> set rs" using that Cons.prems(1,3) by (auto simp: index_dj_Cons lu_seq_range_within_def)
  then show ?case using Cons by (auto simp: index_dj_Cons)
qed simp

text \<open>An entry whose record is in the index is not stored again, whether or not the cache has it.\<close>

definition same_but_stat :: "lu_server_fld \<Rightarrow> lu_server_fld \<Rightarrow> bool" where
  "same_but_stat fld fld' \<longleftrightarrow> (\<exists>st. fld' = fld\<lparr>lsf_cache := (lsf_cache fld)\<lparr>fci_stat := st\<rparr>\<rparr>)"

lemma same_but_stat_ok:
  assumes "same_but_stat fld fld'"
  shows "db_sound fld' = db_sound fld" and "db_ok fld' = db_ok fld" and "lsf_index fld' = lsf_index fld"
  using assms by (auto simp: same_but_stat_def db_sound_def db_ok_def fld_cache_wf_def fld_cache_owner_def)

lemma fld_index_lookup_present:
  assumes db: "db_sound fld" and r: "r \<in> set (lsf_index fld)"
  obtains rc rng fld' where "fld_index_lookup rec0 fld (lsr_start r) lu_seq_range_init = (rc, rng, fld')" and "same_but_stat fld fld'"
    and "rc = 0 \<and> \<not> lu_seq_range_compare_loc r rng \<or> rc = - ENOENT \<and> rng = lu_seq_range_init"
proof -
  let ?c = "lsf_cache fld"
  have wf: "fld_cache_wf ?c" and dj: "index_dj (lsf_index fld)" using db by (simp_all add: db_sound_def)
  have "lsr_start r < lsr_end r" using dj r by (simp add: index_dj_def)
  then have s: "lu_seq_range_within r (lsr_start r)" by (simp add: lu_seq_range_within_def)
  obtain rc1 r1 c1 where l: "fld_cache_lookup ?c (lsr_start r) rec0 = (rc1, r1, c1)" by (metis prod_cases3)
  note ok = fld_cache_lookup_ok [OF wf l]
  have "c1 = ?c\<lparr>fci_stat := fci_stat c1\<rparr>"
    using conjunct2 [OF ok] by (metis (no_types, lifting) fld_cache.surjective fld_cache.update_convs(6))
  then have same: "same_but_stat fld (fld\<lparr>lsf_cache := c1\<rparr>)" unfolding same_but_stat_def by metis
  show thesis
  proof (cases "rc1 = 0")
    case True
    have "true_range (fld_cache_owner ?c) (lsr_start r) r1" using fld_cache_lookup_hit [OF wf] l True by simp
    then have w: "lu_seq_range_within r1 (lsr_start r)" and "index_owner (lsf_index fld) (lsr_flags r1) (lsr_start r) = Some (lsr_index r1)"
      using db by (auto simp: true_range_def db_sound_def coherent_def)
    then have "\<not> lu_seq_range_compare_loc r r1"
      using index_owner_of [OF dj r s] index_one_type [OF dj] unfolding one_type_def lu_seq_range_compare_loc_def
      by (metis option.distinct(1) option.inject)
    then show thesis using that [OF _ same] l True w by (simp add: fld_index_lookup_def Let_def)
  next
    case False
    then have "rc1 = - ENOENT" using ok by auto
    then show thesis using that [OF _ same] l by (simp add: fld_index_lookup_def Let_def ENOENT_def)
  qed
qed

lemma fld_index_create_present:
  assumes "db_sound fld" and "r \<in> set (lsf_index fld)" and "ie_insert env = 0"
  shows "\<exists>fld'. fld_index_create env rec0 fld r = Some (- EEXIST, fld') \<and> same_but_stat fld fld'"
proof -
  obtain rc rng fld' where l: "fld_index_lookup rec0 fld (lsr_start r) lu_seq_range_init = (rc, rng, fld')" "same_but_stat fld fld'"
    "rc = 0 \<and> \<not> lu_seq_range_compare_loc r rng \<or> rc = - ENOENT \<and> rng = lu_seq_range_init"
    by (rule fld_index_lookup_present [OF assms(1,2)])
  then show ?thesis
    using assms(2,3) same_but_stat_ok(3) [OF l(2)] by (auto simp: fld_index_create_def dt_insert_def errno_defs)
qed

lemma fld_declare_index_create_present:
  assumes "db_sound fld" and "r \<in> set (lsf_index fld)" and "ie_declare_insert env = 0"
  shows "\<exists>rc fld'. fld_declare_index_create env rec0 fld r = Some (rc, fld') \<and> (rc = 0 \<or> rc = - EEXIST) \<and> same_but_stat fld fld'"
proof -
  obtain rc rng fld' where l: "fld_index_lookup rec0 fld (lsr_start r) lu_seq_range_init = (rc, rng, fld')" "same_but_stat fld fld'"
    "rc = 0 \<and> \<not> lu_seq_range_compare_loc r rng \<or> rc = - ENOENT \<and> rng = lu_seq_range_init"
    by (rule fld_index_lookup_present [OF assms(1,2)])
  then show ?thesis using assms(3) by (auto simp: fld_declare_index_create_def LASSERT_def errno_defs)
qed

lemma fld_insert_entry_present:
  assumes db: "db_sound fld" and r: "r \<in> set (lsf_index fld)" and env: "env_ok0 env"
  shows "\<exists>fld'. fld_insert_entry env rec0 fld r = Some (0, fld') \<and> same_but_stat fld fld'"
proof (cases "ie_rdonly env")
  case True
  then show ?thesis by (auto simp: fld_insert_entry_def same_but_stat_def intro: exI [of _ "fci_stat (lsf_cache fld)"])
next
  case False
  obtain rc fld1 where d: "fld_declare_index_create env rec0 fld r = Some (rc, fld1)" "rc = 0 \<or> rc = - EEXIST" "same_but_stat fld fld1"
    using fld_declare_index_create_present [OF db r] env unfolding env_ok0_def by blast
  obtain fld2 where c: "fld_index_create env rec0 fld1 r = Some (- EEXIST, fld2)" "same_but_stat fld1 fld2"
    using fld_index_create_present [of fld1 r env] same_but_stat_ok [OF d(3)] db r env unfolding env_ok0_def by metis
  have "same_but_stat fld fld2" using d(3) c(2) by (auto simp: same_but_stat_def)
  then show ?thesis using False d c env by (auto simp: fld_insert_entry_def env_ok0_def errno_defs)
qed

lemma fld_insert_special_entries_present:
  assumes db: "db_sound fld" and r: "{IGIF_FLD_RANGE, DOT_LUSTRE_FLD_RANGE, ROOT_FLD_RANGE} \<subseteq> set (lsf_index fld)"
    and env: "env_ok0 env1" "env_ok0 env2" "env_ok0 env3"
  shows "\<exists>fld'. fld_insert_special_entries (env1, env2, env3) rec0 fld = Some (0, fld') \<and> same_but_stat fld fld'"
proof -
  obtain fld1 where f1: "fld_insert_entry env1 rec0 fld IGIF_FLD_RANGE = Some (0, fld1)" "same_but_stat fld fld1"
    using fld_insert_entry_present [OF db _ env(1)] r by blast
  note s1 = same_but_stat_ok [OF f1(2)]
  obtain fld2 where f2: "fld_insert_entry env2 rec0 fld1 DOT_LUSTRE_FLD_RANGE = Some (0, fld2)" "same_but_stat fld1 fld2"
    using fld_insert_entry_present [of fld1 _ env2] env(2) db r s1 by (metis insert_subset)
  note s2 = same_but_stat_ok [OF f2(2)]
  obtain fld3 where f3: "fld_insert_entry env3 rec0 fld2 ROOT_FLD_RANGE = Some (0, fld3)" "same_but_stat fld2 fld3"
    using fld_insert_entry_present [of fld2 _ env3] env(3) db r s1 s2 by (metis insert_subset)
  have "same_but_stat fld fld3" using f1(2) f2(2) f3(2) by (auto simp: same_but_stat_def)
  then show ?thesis using f1(1) f2(1) f3(1) by (simp add: fld_insert_special_entries_def)
qed

section \<open>Reading the ranges of a server\<close>

definition read_by :: "nat \<Rightarrow> (u64 \<Rightarrow> int \<times> (int \<times> lu_seq_range) list \<times> int) \<Rightarrow> rpc_try" where
  "read_by page_size iter = \<lparr>rt_alloc = 0, rt_fail = False,
     rt_reply = (\<lambda>r. case fld_handle_read page_size 0 iter 0 (Some r) of
         (Inr rc, lsra) \<Rightarrow> (rc, None, Some lsra) | (Inl rc, _) \<Rightarrow> (rc, None, None)),
     rt_lwp = False, rt_interrupted = False\<rparr>"

definition of_server :: "lu_seq_range \<Rightarrow> lu_seq_range \<Rightarrow> bool" where
  "of_server rng entry \<longleftrightarrow> lsr_index entry = lsr_index rng \<and> lsr_flags entry = lsr_flags rng \<and> lsr_start entry > lsr_start rng"

lemma fld_read_loop_full:
  assumes "\<forall>x\<in>set recs. fst x = 0" and "8 + 24 * length lsra \<le> data_len"
    and "data_len < 8 + 24 * (length lsra + length (filter (\<lambda>x. of_server rng (snd x)) recs))"
  shows "\<exists>lsra'. fld_read_loop rng data_len recs end_rc lsra = (- EAGAIN, lsra')"
  using assms
proof (induction recs arbitrary: lsra)
  case (Cons x recs)
  obtain entry where x: "x = (0, entry)" using Cons.prems(1) by (cases x) auto
  show ?case
  proof (cases "8 + 24 * (length lsra + 1) > data_len")
    case False
    then show ?thesis
      using Cons.prems Cons.IH [of "if of_server rng entry then lsra @ [entry] else lsra"]
      by (auto simp: x of_server_def split: if_split_asm)
  qed (simp add: x)
qed simp

lemma fld_client_rpc_again:
  "rt_alloc t = 0 \<Longrightarrow> \<not> rt_fail t \<Longrightarrow> fst (rt_reply t rng) = - EAGAIN \<Longrightarrow> \<not> rt_interrupted t \<Longrightarrow>
     fld_client_rpc True (replicate n t) rng FLD_READ = None"
  by (induction n) (auto simp: errno_defs FLD_READ_def FLD_QUERY_def split: prod.split)

end
