(* ===== verification/Fld_Service_Properties.thy ===== *)
theory Fld_Service_Properties
  imports Fld_Lookup Fld_Properties
begin

text \<open>
  The properties of the FID location database around its cache: new ranges reach disk and cache alike, a restart finds them again, a client gets the
  answer of the index, and four situations in which the service loses or does not give an answer that it has.
\<close>

section \<open>Examples\<close>

definition ex_kstrtou16 :: kstrtou16 where
  "ex_kstrtou16 s = (if s = ''0000'' then Inr 0 else if s = ''0001'' then Inr 1 else Inl (- EINVAL))"

definition ex_server :: "string \<Rightarrow> lu_seq_range \<Rightarrow> lu_server_fld" where
  "ex_server name r = \<lparr>lsf_obj = True, lsf_index = [r], lsf_control_exp = False, lsf_cache = example_cache r, lsf_name = name, lsf_new = False\<rparr>"

definition ex_index_env :: "nat \<Rightarrow> index_env" where
  "ex_index_env p = \<lparr>ie_rdonly = False, ie_trans_create = 0, ie_declare_delete = 0, ie_declare_insert = 0, ie_trans_start = 0, ie_delete = 0,
     ie_insert = 0, ie_alloc = Some p, ie_fldt = None\<rparr>"

definition ex_lookup_env :: lookup_env where
  "ex_lookup_env = \<lparr>le_kstrtou16 = ex_kstrtou16, le_index0 = 0, le_rpcs = [], le_alloc = None, le_fldt = None, le_erange = lu_seq_range_init\<rparr>"

lemma ex_server_ok:
  "lsr_start r < lsr_end r \<Longrightarrow> db_ok (ex_server name r)"
  "on_mdt0 ex_lookup_env (ex_server ''srv-fs-MDT0000'' r)"
proof -
  show "db_ok (ex_server name r)" if "lsr_start r < lsr_end r"
    using that by (auto simp: db_ok_def ex_server_def example_simps index_dj_def fun_eq_iff dj_def)
  have "fld_name_to_index ex_kstrtou16 ''srv-fs-MDT0000'' 0 = (LDD_F_SV_TYPE_MDT, 0)" by code_simp
  then show "on_mdt0 ex_lookup_env (ex_server ''srv-fs-MDT0000'' r)" by (simp add: on_mdt0_def ex_lookup_env_def ex_server_def)
qed

section \<open>Disk and cache\<close>

text \<open>
  C13: A new range that overlaps nothing in the index is stored, whether or not the cache has room. When the cache says nothing that the index does not say and
  the storage layer and the allocator do not fail, \<^verbatim>\<open>fld_server_create\<close> returns 0 and no assertion stops it. The owners in the index change exactly on the range,
  the index stays sorted and free of overlaps, the cache stays well formed, and it still says nothing that the index does not say. If index and cache agreed on every
  sequence before and the cache is not full, they agree on every sequence afterwards. A full cache drops entries, which is the first of the lost answers below.
\<close>

theorem fld_server_create_refines:
  assumes "db_sound fld" and "new_range fld p r" and "ie_insert env = 0" and "ie_alloc env = Some p"
  shows "\<exists>fld'. fld_server_create env rec0 fld r = Some (0, fld') \<and> db_sound fld' \<and>
    (\<forall>f s. index_owner (lsf_index fld') f s =
      (if f = lsr_flags r \<and> lu_seq_range_within r s then Some (lsr_index r) else index_owner (lsf_index fld) f s)) \<and>
    (db_ok fld \<and> fci_cache_count (lsf_cache fld) < fci_cache_size (lsf_cache fld) \<longrightarrow> db_ok fld')"
proof -
  obtain fld' where "fld_index_create env rec0 fld r = Some (0, fld')" "db_sound fld'"
    "index_owner (lsf_index fld') = fld_override r (index_owner (lsf_index fld))"
    "db_ok fld \<and> fci_cache_count (lsf_cache fld) < fci_cache_size (lsf_cache fld) \<longrightarrow> db_ok fld'"
    using fld_index_create_sound [OF assms, of rec0] by blast
  then show ?thesis by (simp add: fld_server_create_def fld_override_def)
qed

definition ex_full :: lu_server_fld where
  "ex_full = (ex_server ''srv-fs-MDT0000'' (example_range 100 200 0 0))\<lparr>lsf_cache :=
     (example_cache (example_range 100 200 0 0))\<lparr>fci_cache_size := 1\<rparr>\<rparr>"

lemma ex_full_ok: "db_ok ex_full"
proof -
  have "db_ok (ex_server ''srv-fs-MDT0000'' (example_range 100 200 0 0))" by (rule ex_server_ok) (simp add: example_range_def)
  then show ?thesis by (simp add: ex_full_def db_ok_def ex_server_def fld_cache_wf_size fld_cache_owner_def)
qed

theorem fld_server_create_refines_witness:
  "(\<exists>fld'. fld_server_create (ex_index_env 2) lu_seq_range_init (ex_server ''srv-fs-MDT0000'' (example_range 100 200 0 0))
      (example_range 200 300 0 0) = Some (0, fld') \<and> db_ok fld' \<and> index_owner (lsf_index fld') 0 250 = Some 0) \<and>
   (\<exists>fld'. fld_server_create (ex_index_env 2) lu_seq_range_init ex_full (example_range 200 300 0 0) = Some (0, fld') \<and> db_sound fld' \<and>
      index_owner (lsf_index fld') 0 150 = Some 0 \<and> index_owner (lsf_index fld') 0 250 = Some 0)"
proof -
  let ?fld = "ex_server ''srv-fs-MDT0000'' (example_range 100 200 0 0)"
  have db: "db_ok ?fld" by (rule ex_server_ok) (simp add: example_range_def)
  have n: "new_range ?fld 2 (example_range 200 300 0 0)" "new_range ex_full 2 (example_range 200 300 0 0)"
    by (simp_all add: new_range_def ex_full_def ex_server_def example_simps apart_def)
  have room: "fci_cache_count (lsf_cache ?fld) < fci_cache_size (lsf_cache ?fld)" by (simp add: ex_server_def example_cache_def)
  have e: "ie_insert (ex_index_env 2) = 0" "ie_alloc (ex_index_env 2) = Some 2" by (simp_all add: ex_index_env_def)
  have w: "lu_seq_range_within (example_range 200 300 0 0) 250" "\<not> lu_seq_range_within (example_range 200 300 0 0) 150"
    "lsr_flags (example_range 200 300 0 0) = 0" "lsr_index (example_range 200 300 0 0) = 0"
    "index_owner (lsf_index ex_full) 0 150 = Some 0"
    by (simp_all add: example_range_def lu_seq_range_within_def ex_full_def ex_server_def)
  from fld_server_create_refines [OF db_ok_sound [OF db] n(1) e, of lu_seq_range_init]
    fld_server_create_refines [OF db_ok_sound [OF ex_full_ok] n(2) e, of lu_seq_range_init]
  show ?thesis using db room w by (metis (full_types))
qed

text \<open>
  C19: A restart finds what was stored. \<^verbatim>\<open>fld_index_init\<close> with an empty cache and no error from the storage layer reads all records of the index and returns 0.
  Then the index is unchanged, the cache is well formed and says nothing that the index does not say, and when the records fit into the cache
  the cache gives every sequence the owner it has in the index. A larger index leaves only a part in the cache. On MDT0 the index has the three
  special ranges already, as after an earlier start, and they are not stored again; the first start of MDT0, which stores them, is not covered.
\<close>

theorem fld_restart_roundtrip:
  assumes "index_dj (lsf_index fld)" and "fld_cache_init True (Some name) cache_size threshold = Some (Inr (lsf_cache fld))"
    and "length ps = length (lsf_index fld)" and "distinct ps"
    and "is_locate scan = 0" and "is_exists scan" and "is_try scan = 0" and "is_init scan = 0"
    and "is_recs scan = loads (lsf_index fld) ps" and "is_end scan \<ge> 0"
    and "fld_name_to_index kstrtou16 (lsf_name fld) (is_index0 scan) = (rc, index)" and "rc \<ge> 0"
    and "index = 0 \<and> type = LU_SEQ_RANGE_MDT \<Longrightarrow> env_ok0 env1 \<and> env_ok0 env2 \<and> env_ok0 env3 \<and>
      {IGIF_FLD_RANGE, DOT_LUSTRE_FLD_RANGE, ROOT_FLD_RANGE} \<subseteq> set (lsf_index fld)"
  shows "\<exists>fld'. fld_index_init kstrtou16 True scan (env1, env2, env3) rec0 fld type = Some (0, fld') \<and> lsf_index fld' = lsf_index fld \<and>
    db_sound fld' \<and> (int (length (lsf_index fld)) \<le> cache_size \<longrightarrow> db_ok fld')"
proof -
  let ?c = "lsf_cache fld" and ?ix = "lsf_index fld"
  note c = fld_cache_init_empty [OF assms(2)]
  have own: "fld_cache_owner ?c f s = None" for f s using c(1) by (simp add: fld_cache_owner_def)
  have wf: "fld_cache_wf ?c" and co: "coherent (index_owner ?ix) (fld_cache_owner ?c)"
    using c own by (simp_all add: fld_cache_wf_def dj_def coherent_def)
  have all: "(case index_owner ?ix f s of Some i \<Rightarrow> Some i | None \<Rightarrow> fld_cache_owner ?c f s) = index_owner ?ix f s" for f s
    by (simp add: own split: option.split)
  obtain c' where l: "fld_index_load (loads ?ix ps) (is_end scan) 0 ?c = Some (None, length ?ix, c')" "fld_cache_wf c'"
    "coherent (index_owner ?ix) (fld_cache_owner c')"
    "int (length ?ix) \<le> cache_size \<longrightarrow> fld_cache_owner c' = index_owner ?ix"
    using fld_index_load_ok [OF wf assms(1) _ assms(3,4) _ assms(10) co, of 0, unfolded all] index_owner_of [OF assms(1)] own c
    by (auto simp: fun_eq_iff)
  define fld4 where "fld4 = fld\<lparr>lsf_obj := True, lsf_cache := c', lsf_new := (?ix = [] \<or> lsf_new fld)\<rparr>"
  have f4: "lsf_index fld4 = ?ix" "db_sound fld4" "int (length ?ix) \<le> cache_size \<longrightarrow> db_ok fld4"
    using l assms(1) by (auto simp: fld4_def db_sound_def db_ok_def)
  have run: "fld_index_init kstrtou16 True scan (env1, env2, env3) rec0 fld type =
    (if index = 0 \<and> type = LU_SEQ_RANGE_MDT
     then do { (rc, fld5) \<leftarrow> fld_insert_special_entries (env1, env2, env3) rec0 fld4; Some (fld_index_out rc fld5) } else Some (0, fld4))"
    using assms(5-12) l(1) by (cases "?ix = []") (auto simp: fld_index_init_def Let_def fld4_def)
  show ?thesis
  proof (cases "index = 0 \<and> type = LU_SEQ_RANGE_MDT")
    case True
    then obtain fld5 where "fld_insert_special_entries (env1, env2, env3) rec0 fld4 = Some (0, fld5)" "same_but_stat fld4 fld5"
      using fld_insert_special_entries_present [OF f4(2)] assms(13) unfolding f4(1) by metis
    then show ?thesis using True run f4 same_but_stat_ok [of fld4 fld5] by (simp add: fld_index_out_def)
  next
    case False
    then show ?thesis using run f4 by auto
  qed
qed

definition ex_empty_cache :: fld_cache where
  "ex_empty_cache = \<lparr>fci_threshold = 2, fci_cache_size = 8, fci_cache_count = 0, fci_lru = [], fci_entries_head = [],
     fci_stat = \<lparr>fst_count = 0, fst_cache = 0\<rparr>, fci_name = ''c''\<rparr>"

definition ex_scan :: "lu_seq_range list \<Rightarrow> index_scan" where
  "ex_scan rs = \<lparr>is_locate = 0, is_exists = True, is_create = 0, is_try = 0, is_init = 0, is_recs = loads rs [1..<length rs + 1], is_end = 1, is_index0 = 0\<rparr>"

definition ex_down :: lu_server_fld where
  "ex_down = (ex_server ''srv-fs-MDT0001'' (example_range 100 200 1 0))\<lparr>lsf_cache := ex_empty_cache,
     lsf_index := [example_range 100 200 1 0, example_range 200 300 1 0]\<rparr>"

definition ex_mdt0_down :: lu_server_fld where
  "ex_mdt0_down = (ex_server ''srv-fs-MDT0000'' IGIF_FLD_RANGE)\<lparr>lsf_cache := ex_empty_cache\<lparr>fci_threshold := 1, fci_cache_size := 2\<rparr>,
     lsf_index := [IGIF_FLD_RANGE, DOT_LUSTRE_FLD_RANGE, ROOT_FLD_RANGE]\<rparr>"

lemma ex_index_env_ok0 [simp]: "env_ok0 (ex_index_env p)"
  by (simp add: env_ok0_def ex_index_env_def)

lemma special_ranges_dj: "index_dj [IGIF_FLD_RANGE, DOT_LUSTRE_FLD_RANGE, ROOT_FLD_RANGE]"
  by (simp add: index_dj_def IGIF_FLD_RANGE_def DOT_LUSTRE_FLD_RANGE_def ROOT_FLD_RANGE_def FID_SEQ_IGIF_def FID_SEQ_IGIF_MAX_def
      FID_SEQ_DOT_LUSTRE_def FID_SEQ_ROOT_def)

theorem fld_restart_roundtrip_witness:
  "(\<exists>fld'. fld_index_init ex_kstrtou16 True (ex_scan (lsf_index ex_down)) (ex_index_env 5, ex_index_env 6, ex_index_env 7) lu_seq_range_init
      ex_down 0 = Some (0, fld') \<and> lsf_index fld' = lsf_index ex_down \<and> db_ok fld') \<and>
   (\<exists>fld'. fld_index_init ex_kstrtou16 True (ex_scan (lsf_index ex_mdt0_down)) (ex_index_env 5, ex_index_env 6, ex_index_env 7) lu_seq_range_init
      ex_mdt0_down 0 = Some (0, fld') \<and> lsf_index fld' = lsf_index ex_mdt0_down \<and> db_sound fld')"
proof -
  let ?envs = "(ex_index_env 5, ex_index_env 6, ex_index_env 7)"
  have name: "fld_name_to_index ex_kstrtou16 ''srv-fs-MDT0001'' 0 = (LDD_F_SV_TYPE_MDT, 1)"
    "fld_name_to_index ex_kstrtou16 ''srv-fs-MDT0000'' 0 = (LDD_F_SV_TYPE_MDT, 0)" by code_simp+
  have scan: "is_recs (ex_scan rs) = loads rs [1..<length rs + 1]" for rs by (simp add: ex_scan_def)
  have "\<exists>fld'. fld_index_init ex_kstrtou16 True (ex_scan (lsf_index ex_down)) ?envs lu_seq_range_init ex_down 0 = Some (0, fld') \<and>
      lsf_index fld' = lsf_index ex_down \<and> db_sound fld' \<and> (int (length (lsf_index ex_down)) \<le> 8 \<longrightarrow> db_ok fld')"
    by (rule fld_restart_roundtrip [where name = "''c''" and threshold = 2 and index = 1 and rc = LDD_F_SV_TYPE_MDT, OF _ _ _ _ _ _ _ _ scan])
      (simp_all add: ex_down_def ex_scan_def ex_server_def ex_empty_cache_def fld_cache_init_def LUSTRE_MDT_MAXNAMELEN_def example_range_def index_dj_def LDD_F_SV_TYPE_MDT_def name [unfolded LDD_F_SV_TYPE_MDT_def])
  moreover have "\<exists>fld'. fld_index_init ex_kstrtou16 True (ex_scan (lsf_index ex_mdt0_down)) ?envs lu_seq_range_init ex_mdt0_down 0 = Some (0, fld') \<and>
      lsf_index fld' = lsf_index ex_mdt0_down \<and> db_sound fld' \<and> (int (length (lsf_index ex_mdt0_down)) \<le> 2 \<longrightarrow> db_ok fld')"
    by (rule fld_restart_roundtrip [where name = "''c''" and threshold = 1 and index = 0 and rc = LDD_F_SV_TYPE_MDT, OF _ _ _ _ _ _ _ _ scan])
      (simp_all add: ex_mdt0_down_def ex_scan_def ex_server_def ex_empty_cache_def fld_cache_init_def LUSTRE_MDT_MAXNAMELEN_def special_ranges_dj LDD_F_SV_TYPE_MDT_def name [unfolded LDD_F_SV_TYPE_MDT_def])
  ultimately show ?thesis by (auto simp: ex_down_def)
qed

section \<open>From the client to the index\<close>

text \<open>
  C11: A lookup of any type on a client never gives an answer that the index does not give. All targets of the client are remote; each is MDT0 or shut down, and not all
  are shut down. The caches of the client and of MDT0 may be smaller than the index, but say nothing that it does not say, and the client can allocate a cache entry.
  Then \<^verbatim>\<open>fld_client_lookup\<close> returns, with 0 exactly when the cache of the client or that of MDT0 has the sequence; the range it
  returns has the owner in the index, and the cache of the client still says nothing else afterwards. When the cache of MDT0 has the whole index, the status is 0 exactly when the index has
  the sequence.
\<close>

theorem fld_lookup_end_to_end:
  assumes "db_sound server" and "on_mdt0 lenv server"
    and "fld_cache_wf c" and "coherent (index_owner (lsf_index server)) (fld_cache_owner c)"
    and "client_ok fld" and "lcf_cache fld = Some c"
    and "\<forall>t\<in>set (lcf_targets fld). \<not> ft_srv t \<and> ft_exp t \<and>
      (ce_tries env (ft_idx t) = [served_by lenv server] \<or> shut_down (ce_tries env (ft_idx t)))"
    and "\<exists>t\<in>set (lcf_targets fld). ce_tries env (ft_idx t) = [served_by lenv server]"
    and "ce_alloc env = Some p" and "p \<notin> set (ptrs (fci_entries_head c))"
  shows "\<exists>rc res' fld' c'. fld_client_lookup env fld seq LU_SEQ_RANGE_ANY res srv = Some (rc, res', fld', srv) \<and>
    (rc = 0 \<longleftrightarrow> (\<exists>f. fld_cache_owner c f seq \<noteq> None \<or> fld_cache_owner (lsf_cache server) f seq \<noteq> None)) \<and>
    (db_ok server \<longrightarrow> (rc = 0 \<longleftrightarrow> (\<exists>f. index_owner (lsf_index server) f seq \<noteq> None))) \<and>
    (rc = 0 \<longrightarrow> index_owner (lsf_index server) (lsr_flags res') seq = Some (lsr_index res')) \<and>
    lcf_cache fld' = Some c' \<and> fld_cache_wf c' \<and> coherent (index_owner (lsf_index server)) (fld_cache_owner c')"
  using assms by (rule fld_lookup_served)

definition ex_client :: "fld_cache \<Rightarrow> lu_client_fld" where
  "ex_client c = \<lparr>lcf_targets = [\<lparr>ft_exp = True, ft_srv = False, ft_idx = 0\<rparr>], lcf_hash = 0, lcf_count = 1, lcf_cache = Some c, lcf_name = ''cli''\<rparr>"

definition ex_client_env :: "lu_server_fld \<Rightarrow> client_env" where
  "ex_client_env server = \<lparr>ce_env = False, ce_server = (\<lambda>_. ex_lookup_env), ce_tries = (\<lambda>_. [served_by ex_lookup_env server]),
     ce_alloc = Some 9, ce_fldt = None\<rparr>"

theorem fld_lookup_end_to_end_witness:
  "\<exists>res' fld'. fld_client_lookup (ex_client_env (ex_server ''srv-fs-MDT0000'' (example_range 100 200 7 0))) (ex_client ex_empty_cache) 150
      LU_SEQ_RANGE_ANY lu_seq_range_init None = Some (0, res', fld', None) \<and>
    index_owner [example_range 100 200 7 0] (lsr_flags res') 150 = Some (lsr_index res')"
proof -
  let ?srv = "ex_server ''srv-fs-MDT0000'' (example_range 100 200 7 0)"
  have db: "db_ok ?srv" "on_mdt0 ex_lookup_env ?srv" by (rule ex_server_ok, simp add: example_range_def) (rule ex_server_ok)
  have c: "fld_cache_wf ex_empty_cache" "coherent (index_owner (lsf_index ?srv)) (fld_cache_owner ex_empty_cache)"
    by (simp_all add: ex_empty_cache_def fld_cache_wf_def dj_def coherent_def fld_cache_owner_def)
  have "index_owner (lsf_index ?srv) 0 150 = Some 7" by (simp add: ex_server_def example_range_def lu_seq_range_within_def)
  then have f: "\<exists>f. index_owner (lsf_index ?srv) f 150 \<noteq> None" by (metis option.distinct(1))
  have i: "lsf_index ?srv = [example_range 100 200 7 0]" by (simp add: ex_server_def)
  have "client_ok (ex_client ex_empty_cache)" "lcf_cache (ex_client ex_empty_cache) = Some ex_empty_cache"
    by (simp_all add: ex_client_def client_ok_def)
  note e2e = fld_lookup_end_to_end [OF db_ok_sound [OF db(1)] db(2) c this, of "ex_client_env ?srv" 9 150 lu_seq_range_init None]
  have "\<forall>t\<in>set (lcf_targets (ex_client ex_empty_cache)). \<not> ft_srv t \<and> ft_exp t \<and>
      (ce_tries (ex_client_env ?srv) (ft_idx t) = [served_by ex_lookup_env ?srv] \<or> shut_down (ce_tries (ex_client_env ?srv) (ft_idx t)))"
    "\<exists>t\<in>set (lcf_targets (ex_client ex_empty_cache)). ce_tries (ex_client_env ?srv) (ft_idx t) = [served_by ex_lookup_env ?srv]"
    "ce_alloc (ex_client_env ?srv) = Some 9" "9 \<notin> set (ptrs (fci_entries_head ex_empty_cache))"
    by (simp_all add: ex_client_def ex_client_env_def ex_empty_cache_def)
  from e2e [OF this] f db(1) show ?thesis unfolding i by blast
qed

section \<open>Answers that get lost\<close>

text \<open>
  C30: A defect: when the cache of MDT0 is full, storing a new range evicts an entry, and from then on MDT0 answers \<^verbatim>\<open>-ENOENT\<close> for sequences that
  are in its index. \<^verbatim>\<open>fld_server_lookup\<close> relies on all entries being in the cache and does not look into the index.
\<close>

theorem fld_full_cache_forgets:
  assumes "db_ok fld" and "new_range fld p r" and "ie_insert env = 0" and "ie_alloc env = Some p"
    and "fci_cache_count (lsf_cache fld) \<ge> fci_cache_size (lsf_cache fld)" and "fci_cache_size (lsf_cache fld) > 0"
    and "fci_threshold (lsf_cache fld) > 0" and "on_mdt0 lenv fld"
  shows "\<exists>fld' f s i. fld_server_create env rec0 fld r = Some (0, fld') \<and> index_owner (lsf_index fld') f s = Some i \<and>
    (\<exists>res fld''. fld_server_lookup lenv fld' s rng = Some (- ENOENT, res, fld''))"
proof -
  obtain fld' f s i where f: "fld_index_create env rec0 fld r = Some (0, fld')" "fld_cache_wf (lsf_cache fld')" "lsf_name fld' = lsf_name fld"
    "index_owner (lsf_index fld') f s = Some i" "\<forall>f. fld_cache_owner (lsf_cache fld') f s = None"
    using fld_server_forgets [OF assms(1-7), of rec0] by blast
  have "on_mdt0 lenv fld'" using assms(8) f(3) by (simp add: on_mdt0_def)
  from fld_server_lookup_mdt0 [OF f(2) this, of s rng] obtain rc res fld'' where
    "fld_server_lookup lenv fld' s rng = Some (rc, res, fld'')" "rc = 0 \<longrightarrow> true_range (fld_cache_owner (lsf_cache fld')) s res"
    "rc \<noteq> 0 \<longrightarrow> rc = - ENOENT" by blast
  then have "fld_server_lookup lenv fld' s rng = Some (- ENOENT, res, fld'')"
    using f(5) by (auto simp: true_range_def)
  then show ?thesis using f(1,4) by (auto simp: fld_server_create_def)
qed

theorem fld_full_cache_forgets_witness:
  "\<exists>fld' f s i. fld_server_create (ex_index_env 2) lu_seq_range_init ex_full (example_range 300 400 0 0) = Some (0, fld') \<and>
     index_owner (lsf_index fld') f s = Some i \<and>
     (\<exists>res fld''. fld_server_lookup ex_lookup_env fld' s lu_seq_range_init = Some (- ENOENT, res, fld''))"
proof (rule fld_full_cache_forgets [of _ 2])
  show "db_ok ex_full" by (rule ex_full_ok)
  show "on_mdt0 ex_lookup_env ex_full"
    using ex_server_ok(2) [of "example_range 100 200 0 0"] by (simp add: on_mdt0_def ex_full_def)
qed (simp_all add: new_range_def ex_full_def ex_server_def ex_index_env_def example_simps apart_def)

text \<open>
  C33: A defect: records are never merged. Whatever the cache and the storage layer do, a successful \<^verbatim>\<open>fld_index_create\<close> adds the range as a record of its own and
  keeps all records with another key, also one that ends where the range starts and has the same location: \<^verbatim>\<open>fld_index_lookup\<close> does not return the range on the left when it finds
  nothing, as its comment says it does, so the merge is dead code and the index only grows.
\<close>

theorem fld_index_never_merges:
  assumes "fld_index_create env rec0 fld r = Some (0, fld')"
  shows "lsf_index fld' = index_insert r (lsf_index fld) \<and>
    (\<forall>x. x \<in> set (lsf_index fld) \<and> lsr_start x \<noteq> lsr_start r \<longrightarrow> x \<in> set (lsf_index fld'))"
proof -
  have "x \<in> set (index_insert r xs)" if "x \<in> set xs" "lsr_start x \<noteq> lsr_start r" for x xs
    using that by (induction xs) auto
  then show ?thesis using fld_index_create_index(2) [OF assms] by simp
qed

theorem fld_index_never_merges_witness:
  "\<exists>fld'. fld_index_create (ex_index_env 2) lu_seq_range_init (ex_server ''srv-fs-MDT0000'' (example_range 100 200 0 0))
      (example_range 200 300 0 0) = Some (0, fld') \<and> lsf_index fld' = [example_range 100 200 0 0, example_range 200 300 0 0]"
proof -
  let ?fld = "ex_server ''srv-fs-MDT0000'' (example_range 100 200 0 0)"
  have db: "db_ok ?fld" by (rule ex_server_ok) (simp add: example_range_def)
  have n: "new_range ?fld 2 (example_range 200 300 0 0)" by (simp add: new_range_def ex_server_def example_simps apart_def)
  have "ie_insert (ex_index_env 2) = 0" "ie_alloc (ex_index_env 2) = Some 2" by (simp_all add: ex_index_env_def)
  from fld_index_create_new [OF db_ok_sound [OF db] n this, of lu_seq_range_init] obtain fld'
    where f: "fld_index_create (ex_index_env 2) lu_seq_range_init ?fld (example_range 200 300 0 0) = Some (0, fld')" by blast
  from fld_index_never_merges [OF f] f show ?thesis by (simp add: ex_server_def example_range_def)
qed

text \<open>
  C31: A defect: a client that looks for an MDT sequence gets \<^verbatim>\<open>-ENOENT\<close> for a sequence that the index of MDT0 has, when the sequence lies between two cached
  ranges and the left one is of an OST. \<^verbatim>\<open>fld_cache_lookup\<close> leaves that range in \<^verbatim>\<open>res\<close> when it misses, and \<^verbatim>\<open>fld_range_set_type\<close> adds the type to
  the flags that are there, so the query is sent for type OST. The same query with a range of type MDT finds the sequence.
\<close>

theorem fld_client_wrong_type:
  assumes "db_ok server" and "on_mdt0 lenv server" and "index_owner (lsf_index server) LU_SEQ_RANGE_MDT seq = Some i"
    and "fld_cache_wf c" and "fci_entries_head c = xs @ a # b # ys" and "e_end a \<le> seq" and "seq < e_start b" and "e_flags a = LU_SEQ_RANGE_OST"
    and "client_ok fld" and "lcf_cache fld = Some c"
    and "\<forall>t\<in>set (lcf_targets fld). \<not> ft_srv t \<and> ft_exp t \<and> ce_tries env (ft_idx t) = [served_by lenv server]"
  shows "(\<exists>res' fld'. fld_client_lookup env fld seq LU_SEQ_RANGE_MDT res srv = Some (- ENOENT, res', fld', srv)) \<and>
    (\<exists>res' server'. fld_server_lookup lenv server seq (fld_range_set_mdt lu_seq_range_init) = Some (0, res', server'))"
proof
  have wf: "fld_cache_wf (lsf_cache server)" and o: "fld_cache_owner (lsf_cache server) LU_SEQ_RANGE_MDT seq = Some i"
    using assms(1,3) by (simp_all add: db_ok_def)
  show "\<exists>res' server'. fld_server_lookup lenv server seq (fld_range_set_mdt lu_seq_range_init) = Some (0, res', server')"
    using fld_server_lookup_type [OF wf assms(2) o, of "fld_range_set_mdt lu_seq_range_init"]
    by (auto simp: fld_range_set_mdt_def fld_range_set_type_def fld_range_type_def lu_seq_range_init_def LU_SEQ_RANGE_MDT_def)
  have "fld_cache_lookup_scan seq None (fci_entries_head c) = Inl (Some (fce_range a))"
    unfolding assms(5) using fld_cache_lookup_scan_left assms(4-7) by (simp add: fld_cache_wf_def)
  then obtain c1 where l: "fld_cache_lookup c seq res = (- ENOENT, fce_range a, c1)" by (simp add: fld_cache_lookup_def Let_def)
  let ?fld = "fld\<lparr>lcf_cache := Some c1\<rparr>"
  obtain n where n: "n < length (lcf_targets fld)" "fld_client_get_target ?fld seq = Some n"
    using fld_client_get_target_ok [of ?fld seq] assms(9) by (auto simp: client_ok_def)
  obtain t ts where ts: "rotate n (lcf_targets fld) = t # ts" using n(1) by (cases "rotate n (lcf_targets fld)") auto
  have "set (t # ts) = set (lcf_targets fld)" by (metis ts set_rotate)
  then have t: "\<not> ft_srv t" "ft_exp t" "ce_tries env (ft_idx t) = [served_by lenv server]" using assms(11) by auto
  obtain res' where "fld_client_try env seq LU_SEQ_RANGE_MDT (t # ts) (fce_range a) srv = Some (- ENOENT, res', srv)"
    using fld_client_wrong_answer [OF wf assms(2) o t, of "fce_range a" ts srv] assms(8) by blast
  then show "\<exists>res' fld'. fld_client_lookup env fld seq LU_SEQ_RANGE_MDT res srv = Some (- ENOENT, res', fld', srv)"
    using l n(2) ts assms(10) by (simp add: fld_client_lookup_def ENOENT_def del: fld_client_try.simps)
qed

definition ex_two_types :: fld_cache where
  "ex_two_types = ex_empty_cache\<lparr>fci_cache_count := 2, fci_lru := [2, 1], fci_entries_head :=
     [\<lparr>fce_ptr = 1, fce_range = example_range 10 20 3 1\<rparr>, \<lparr>fce_ptr = 2, fce_range = example_range 500 600 4 0\<rparr>]\<rparr>"

theorem fld_client_wrong_type_witness:
  "\<exists>res' fld'. fld_client_lookup (ex_client_env (ex_server ''srv-fs-MDT0000'' (example_range 100 200 7 0))) (ex_client ex_two_types) 150
      LU_SEQ_RANGE_MDT lu_seq_range_init None = Some (- ENOENT, res', fld', None)"
proof (rule conjunct1, rule fld_client_wrong_type)
  let ?srv = "ex_server ''srv-fs-MDT0000'' (example_range 100 200 7 0)"
  show "db_ok ?srv" by (rule ex_server_ok) (simp add: example_range_def)
  show "on_mdt0 ex_lookup_env ?srv" by (rule ex_server_ok)
  show "fci_entries_head ex_two_types = [] @ \<lparr>fce_ptr = 1, fce_range = example_range 10 20 3 1\<rparr> #
      \<lparr>fce_ptr = 2, fce_range = example_range 500 600 4 0\<rparr> # []" by (simp add: ex_two_types_def)
  show "fld_cache_wf ex_two_types" by (auto simp: ex_two_types_def ex_empty_cache_def fld_cache_wf_def dj_def mergeable_def example_range_def)
  show "lcf_cache (ex_client ex_two_types) = Some ex_two_types" by (simp add: ex_client_def)
  show "client_ok (ex_client ex_two_types)" by (simp add: client_ok_def ex_client_def)
qed (simp_all add: ex_server_def ex_client_def ex_client_env_def example_range_def lu_seq_range_within_def LU_SEQ_RANGE_MDT_def LU_SEQ_RANGE_OST_def)

text \<open>
  C32: A defect: a new MDT never gets its ranges when MDT0 has more of them for it than fit into a reply. \<^verbatim>\<open>fld_server_read\<close> then answers \<^verbatim>\<open>-EAGAIN\<close> so that
  the caller goes on behind the last range, but \<^verbatim>\<open>fld_client_rpc\<close> itself sends the same request again on \<^verbatim>\<open>-EAGAIN\<close> and never gives
  the answer to the loop of \<^verbatim>\<open>fld_update_from_controller\<close>, which does not return, however often the request is sent.
\<close>

theorem fld_update_hangs:
  assumes "lsf_new fld" and "lsf_control_exp fld" and "fld_name_to_index kstrtou16 (lsf_name fld) 0 = (rc, index)" and "rc \<ge> 0" and "index \<noteq> 0"
    and "iter 0 = (load_rc, recs, end_rc)" and "load_rc > 0" and "\<forall>x\<in>set recs. fst x = 0" and "8 \<le> page_size"
    and "page_size < 8 + 24 * length (filter (\<lambda>x. of_server (fld_range_set_mdt (lu_seq_range_init\<lparr>lsr_index := index\<rparr>)) (snd x)) recs)"
  shows "fld_update_from_controller kstrtou16 ((replicate n (read_by page_size iter), envs) # rpcs) rec0 fld = None"
proof -
  let ?r = "fld_range_set_mdt (lu_seq_range_init\<lparr>lsr_index := index\<rparr>)"
  have e: "lsr_end ?r = 0" by (simp add: fld_range_set_mdt_def fld_range_set_type_def lu_seq_range_init_def)
  obtain lsra where "fld_read_loop ?r page_size recs end_rc [] = (- EAGAIN, lsra)"
    using fld_read_loop_full [of recs "[]" page_size ?r end_rc] assms(8-10) by auto
  then have "fst (rt_reply (read_by page_size iter) ?r) = - EAGAIN"
    using assms(6,7) e by (simp add: read_by_def fld_handle_read_def fld_server_read_def)
  then have "fld_client_rpc True (replicate n (read_by page_size iter)) ?r FLD_READ = None"
    by (intro fld_client_rpc_again) (simp_all add: read_by_def)
  then show ?thesis using assms(1-5) by (simp add: fld_update_from_controller_def)
qed

definition ex_records :: "(int \<times> lu_seq_range) list" where
  "ex_records = [(0, example_range 100 200 1 0), (0, example_range 300 400 1 0)]"

theorem fld_update_hangs_witness:
  "fld_update_from_controller ex_kstrtou16 [(replicate 1000 (read_by 32 (\<lambda>_. (1, ex_records, 1))), [])]
     lu_seq_range_init (ex_down\<lparr>lsf_new := True, lsf_control_exp := True\<rparr>) = None"
proof (rule fld_update_hangs [where load_rc = 1 and recs = ex_records and end_rc = 1])
  have "fld_name_to_index ex_kstrtou16 ''srv-fs-MDT0001'' 0 = (LDD_F_SV_TYPE_MDT, 1)" by code_simp
  then show "fld_name_to_index ex_kstrtou16 (lsf_name (ex_down\<lparr>lsf_new := True, lsf_control_exp := True\<rparr>)) 0 = (LDD_F_SV_TYPE_MDT, 1)"
    by (simp add: ex_down_def ex_server_def)
qed (simp_all add: LDD_F_SV_TYPE_MDT_def of_server_def ex_records_def example_range_def fld_range_set_mdt_def fld_range_set_type_def lu_seq_range_init_def
    LU_SEQ_RANGE_MDT_def)

end
