(* ===== verification/Tgt_Grant.thy ===== *)
theory Tgt_Grant
  imports Prelude "HOL-Library.Signed_Division"
begin

text \<open>
  Grant space accounting of a target, \<^verbatim>\<open>lustre/target/tgt_grant.c\<close>. Every counter is a 64-bit word:
  \<^verbatim>\<open>u64\<close> and \<^verbatim>\<open>long\<close> are the same type here, and each comparison is the signed or the unsigned one
  that the C conversions select. Shift distances are \<^verbatim>\<open>tgd_blockbits\<close>, a natural number.

  Each operation takes the export it works on and the device and returns both updated; the grant
  lock makes it one step. \<^verbatim>\<open>dt_statfs\<close> of the storage layer is a parameter: it maps the state in which
  it starts to its return code, its statistics, and the state other threads leave when it returns.
\<close>

section \<open>Data\<close>

type_synonym long = "64 word"

record obd_statfs =
  os_blocks :: u64
  os_bfree :: u64
  os_bavail :: u64
  os_namelen :: u32

record tg_grants_data =
  tgd_tot_dirty :: u64
  tgd_tot_granted :: u64
  tgd_tot_pending :: u64
  tgd_reserved_pcnt :: u64
  tgd_tot_granted_clients :: int
  tgd_grant_compat_disable :: bool
  tgd_osfs_age :: int
  tgd_blockbits :: nat
  tgd_statfs_inflight :: int
  tgd_osfs_unstable :: u64
  tgd_osfs_inflight :: u64
  tgd_osfs :: obd_statfs

record dt_device_param =
  ddp_inodespace :: int
  ddp_max_extent_blks :: u32
  ddp_extent_tax :: u32

text \<open>The fields of \<^verbatim>\<open>struct obd_export\<close>, its \<^verbatim>\<open>tg_export_data\<close> and its connect data that the code uses.\<close>

record obd_export =
  exp_ptr :: nat
  exp_connect_flags :: u64
  exp_ocd_brw_size :: u32
  exp_failed :: bool
  exp_disconnected :: bool
  ted_dirty :: long
  ted_grant :: long
  ted_pending :: long

record obd_device =
  obd_self_export :: nat
  obd_recovering :: bool
  obd_fail_no_grant :: bool
  lbug_on_grant_miscount :: bool
  lut_dt_conf :: dt_device_param
  lut_tgd :: tg_grants_data

record obdo =
  o_valid :: u64
  o_flags :: u32
  o_dirty :: u64
  o_grant :: u64
  o_undirty :: u32
  o_dropped :: u32
  o_grant_used :: u64

record niobuf_remote =
  rnb_offset :: u64
  rnb_len :: u32
  rnb_flags :: u32

record obd_connect_data =
  ocd_connect_flags :: u64
  ocd_grant :: u32

definition OBD_MD_FLBLOCKS :: u64 where "OBD_MD_FLBLOCKS = 0x20"
definition OBD_MD_FLFLAGS :: u64 where "OBD_MD_FLFLAGS = 0x800"
definition OBD_MD_FLGRANT :: u64 where "OBD_MD_FLGRANT = 0x8000000"
definition OBD_FL_SHRINK_GRANT :: u32 where "OBD_FL_SHRINK_GRANT = 0x20000"
definition OBD_FL_RECOV_RESEND :: u32 where "OBD_FL_RECOV_RESEND = 0x80000"
definition OBD_BRW_FROM_GRANT :: u32 where "OBD_BRW_FROM_GRANT = 0x20"
definition OBD_BRW_GRANTED :: u32 where "OBD_BRW_GRANTED = 0x40"
definition OBD_CONNECT_RDONLY :: u64 where "OBD_CONNECT_RDONLY = 0x1"
definition OBD_CONNECT_GRANT :: u64 where "OBD_CONNECT_GRANT = 0x8"
definition OBD_CONNECT_BRW_SIZE :: u64 where "OBD_CONNECT_BRW_SIZE = 0x40000"
definition OBD_CONNECT_GRANT_PARAM :: u64 where "OBD_CONNECT_GRANT_PARAM = 0x100000000000"
definition OBD_MAX_GRANT :: u64 where "OBD_MAX_GRANT = 0x7fffffff"
definition ONE_MB_BRW_SIZE :: u32 where "ONE_MB_BRW_SIZE = 0x100000"
definition COMPAT_BSIZE_SHIFT :: nat where "COMPAT_BSIZE_SHIFT = 12"
definition OST_MAX_PRECREATE :: int where "OST_MAX_PRECREATE = 20000"
definition OBD_STATFS_CACHE_SECONDS :: int where "OBD_STATFS_CACHE_SECONDS = 1"
definition NAME_MAX :: u32 where "NAME_MAX = 255"

definition OCD_HAS_FLAG :: "obd_connect_data \<Rightarrow> u64 \<Rightarrow> bool" where
  "OCD_HAS_FLAG ocd flag \<longleftrightarrow> ocd_connect_flags ocd AND flag \<noteq> 0"

definition exp_grant_param_supp :: "obd_export \<Rightarrow> bool" where
  "exp_grant_param_supp exp \<longleftrightarrow> exp_connect_flags exp AND OBD_CONNECT_GRANT_PARAM \<noteq> 0"

definition exp_max_brw_size :: "obd_export \<Rightarrow> u32" where
  "exp_max_brw_size exp =
     (if exp_connect_flags exp AND OBD_CONNECT_BRW_SIZE \<noteq> 0 then exp_ocd_brw_size exp
      else ONE_MB_BRW_SIZE)"

abbreviation upd_tgd :: "(tg_grants_data \<Rightarrow> tg_grants_data) \<Rightarrow> obd_device \<Rightarrow> obd_device" where
  "upd_tgd f obd \<equiv> obd\<lparr>lut_tgd := f (lut_tgd obd)\<rparr>"

section \<open>Grant units\<close>

definition tgt_grant_inflate :: "tg_grants_data \<Rightarrow> u64 \<Rightarrow> u64" where
  "tgt_grant_inflate tgd val =
     (if tgd_blockbits tgd > COMPAT_BSIZE_SHIFT
      then push_bit (tgd_blockbits tgd - COMPAT_BSIZE_SHIFT) val else val)"

definition tgt_grant_deflate :: "tg_grants_data \<Rightarrow> u64 \<Rightarrow> u64" where
  "tgt_grant_deflate tgd val =
     (if tgd_blockbits tgd > COMPAT_BSIZE_SHIFT
      then drop_bit (tgd_blockbits tgd - COMPAT_BSIZE_SHIFT) val else val)"

definition tgt_grant_chunk :: "obd_export \<Rightarrow> obd_device \<Rightarrow> obd_connect_data option \<Rightarrow> u64" where
  "tgt_grant_chunk exp obd data =
     (let tgd = lut_tgd obd; conf = lut_dt_conf obd; chunk = scast (exp_max_brw_size exp) in
      if obd_self_export obd = exp_ptr exp
      then word_of_int ((OST_MAX_PRECREATE * ddp_inodespace conf) sdiv 2)
      else if data = None \<and> \<not> exp_grant_param_supp exp \<or>
              (\<exists>d. data = Some d \<and> \<not> OCD_HAS_FLAG d OBD_CONNECT_GRANT_PARAM)
      then push_bit 1 (tgt_grant_inflate tgd chunk)
      else
        (let tax = push_bit (tgd_blockbits tgd) 1 * ucast (ddp_max_extent_blks conf);
             tax = (chunk + tax - 1) div tax;
             tax = tax * ucast (ddp_extent_tax conf)
         in (chunk + tax) * 2))"

section \<open>Sanity check\<close>

text \<open>The whole target: the device and its exports, live and unlinked.\<close>

record target =
  tgt_obd :: obd_device
  tgt_exp :: "nat \<Rightarrow> obd_export"
  obd_exports :: "nat list"
  obd_unlinked_exports :: "nat list"
  obd_num_exports :: int
  obd_grant_check_threshold :: int

text \<open>The counters a scan adds up: dirty, pending and granted.\<close>

type_synonym totals = "u64 \<times> u64 \<times> u64"

definition tgt_check_export_grants :: "obd_export \<Rightarrow> totals \<Rightarrow> u64 \<Rightarrow> int + totals" where
  "tgt_check_export_grants exp t maxsize =
     (if ted_grant exp + ted_pending exp > maxsize then Inl (- EFAULT)
      else if ted_dirty exp > maxsize then Inl (- EFAULT)
      else (case t of (dirty, pending, granted) \<Rightarrow>
        Inr (dirty + ted_dirty exp, pending + ted_pending exp,
             granted + (ted_grant exp + ted_pending exp))))"

fun tgt_check_exports :: "obd_export list \<Rightarrow> totals \<Rightarrow> u64 \<Rightarrow> int + totals" where
  "tgt_check_exports [] t maxsize = Inr t"
| "tgt_check_exports (e # es) t maxsize =
     (case tgt_check_export_grants e t maxsize of
        Inl err \<Rightarrow> Inl err | Inr t' \<Rightarrow> tgt_check_exports es t' maxsize)"

datatype complaint = Tot_granted | Tot_pending | Tot_dirty | Pending_exceeds_granted
  | Granted_exceeds_size | Dirty_exceeds_size

definition tgt_grant_sanity_check :: "target \<Rightarrow> complaint list option" where
  "tgt_grant_sanity_check t =
     (let tgd = lut_tgd (tgt_obd t);
          maxsize = push_bit (tgd_blockbits tgd) (os_blocks (tgd_osfs tgd));
          self = tgt_exp t (obd_self_export (tgt_obd t))
      in if obd_exports t = [] then Some []
         else if obd_num_exports t > obd_grant_check_threshold t \<and> obd_grant_check_threshold t \<noteq> 0
         then Some []
         else
           (case tgt_check_exports (map (tgt_exp t) (obd_exports t) @ map (tgt_exp t) (obd_unlinked_exports t))
                   (ted_dirty self, ted_pending self, ted_grant self + ted_pending self) maxsize of
              Inl _ \<Rightarrow> None
            | Inr (tot_dirty, tot_pending, tot_granted) \<Rightarrow>
                Some ((if tot_granted \<noteq> tgd_tot_granted tgd then [Tot_granted] else []) @
                  (if tot_pending \<noteq> tgd_tot_pending tgd then [Tot_pending] else []) @
                  (if tot_dirty \<noteq> tgd_tot_dirty tgd then [Tot_dirty] else []) @
                  (if tot_pending > tot_granted then [Pending_exceeds_granted] else []) @
                  (if tot_granted > maxsize then [Granted_exceeds_size] else []) @
                  (if tot_dirty > maxsize then [Dirty_exceeds_size] else []))))"

section \<open>Free space\<close>

type_synonym dt_statfs = "tg_grants_data \<Rightarrow> int \<times> obd_statfs \<times> tg_grants_data"

text \<open>
  The two lock sections of \<^verbatim>\<open>tgt_statfs_internal\<close>, before and after the call of \<^verbatim>\<open>dt_statfs\<close>, and the
  function itself: return code, the statistics handed to the caller and whether they come from
  the cache.
\<close>

definition tgt_statfs_begin :: "tg_grants_data \<Rightarrow> u64 \<times> tg_grants_data" where
  "tgt_statfs_begin tgd =
     (let tgd1 = (if tgd_statfs_inflight tgd = 0 then tgd\<lparr>tgd_osfs_inflight := 0\<rparr> else tgd);
          tgd2 = tgd1\<lparr>tgd_statfs_inflight := tgd_statfs_inflight tgd1 + 1\<rparr>
      in (tgd_osfs_inflight tgd2, tgd2))"

definition tgt_statfs_end :: "int \<Rightarrow> u64 \<Rightarrow> obd_statfs \<Rightarrow> tg_grants_data \<Rightarrow> obd_statfs \<times> tg_grants_data" where
  "tgt_statfs_end now unstable0 osfs0 tgd =
     (let osfs1 = osfs0\<lparr>os_namelen := min (os_namelen osfs0) NAME_MAX\<rparr>;
          unstable = tgd_osfs_inflight tgd - unstable0;
          osfs = (if unstable \<noteq> 0
                  then osfs1\<lparr>os_bavail := os_bavail osfs1 -
                         min (os_bavail osfs1) (drop_bit (tgd_blockbits tgd) unstable)\<rparr>
                  else osfs1);
          tgd1 = tgd\<lparr>tgd_osfs_unstable := unstable + tgd_tot_pending tgd, tgd_osfs := osfs,
                     tgd_osfs_age := now, tgd_statfs_inflight := tgd_statfs_inflight tgd - 1\<rparr>
      in (osfs, if tgd_statfs_inflight tgd1 = 0 then tgd1\<lparr>tgd_osfs_inflight := 0\<rparr> else tgd1))"

definition tgt_statfs_internal ::
  "dt_statfs \<Rightarrow> int \<Rightarrow> int \<Rightarrow> tg_grants_data \<Rightarrow> int \<times> obd_statfs \<times> bool \<times> tg_grants_data" where
  "tgt_statfs_internal dt_statfs now max_age tgd =
     (if tgd_osfs_age tgd < max_age \<or> max_age = 0 then
        (let (unstable, tgd1) = tgt_statfs_begin tgd;
             (rc, osfs, tgd2) = dt_statfs tgd1
         in if rc \<noteq> 0 then (rc, osfs, False, tgd2)
            else let (osfs', tgd3) = tgt_statfs_end now unstable osfs tgd2 in (0, osfs', False, tgd3))
      else (0, tgd_osfs tgd, True, tgd))"

text \<open>The result says whether the statistics were taken from the cache.\<close>

definition tgt_grant_statfs ::
  "dt_statfs \<Rightarrow> int \<Rightarrow> nat \<Rightarrow> tg_grants_data \<Rightarrow> bool \<times> tg_grants_data" where
  "tgt_grant_statfs dt_statfs now force tgd =
     (let max_age = (if force \<noteq> 0 then 0 else now - OBD_STATFS_CACHE_SECONDS);
          (rc, osfs, from_cache, tgd') = tgt_statfs_internal dt_statfs now max_age tgd
      in if rc \<noteq> 0 then (False, tgd') else (from_cache, tgd'))"

definition tgt_grant_space_left :: "tg_grants_data \<Rightarrow> u64" where
  "tgt_grant_space_left tgd =
     (let left = push_bit (tgd_blockbits tgd) (os_bavail (tgd_osfs tgd));
          reserved = left * tgd_reserved_pcnt tgd div 100;
          tot_granted = tgd_tot_granted tgd + reserved
      in if left < tot_granted then 0
         else (left - tot_granted) AND NOT (push_bit (tgd_blockbits tgd) 1 - 1))"

section \<open>Processing a request\<close>

text \<open>\<open>None\<close> is the \<^verbatim>\<open>LBUG\<close> on a negative counter.\<close>

definition counters_ok :: "obd_export \<Rightarrow> unit option" where
  "counters_ok exp = LASSERT (\<not> (ted_dirty exp <s 0 \<or> ted_grant exp <s 0 \<or> ted_pending exp <s 0))"

definition cap_grant :: "tg_grants_data \<Rightarrow> u64 \<Rightarrow> u32" where
  "cap_grant tgd tmp =
     ucast (if tmp \<ge> OBD_MAX_GRANT then OBD_MAX_GRANT AND NOT (push_bit (tgd_blockbits tgd) 1) else tmp)"

definition tgt_grant_incoming ::
  "obd_export \<Rightarrow> obd_device \<Rightarrow> obdo \<Rightarrow> long \<Rightarrow> (obd_export \<times> obd_device \<times> obdo) option" where
  "tgt_grant_incoming exp obd oa chunk =
     (let tgd = lut_tgd obd in
      if o_valid oa AND (OBD_MD_FLBLOCKS OR OBD_MD_FLGRANT) \<noteq> OBD_MD_FLBLOCKS OR OBD_MD_FLGRANT
      then Some (exp, obd, oa\<lparr>o_valid := o_valid oa AND NOT OBD_MD_FLGRANT\<rparr>)
      else
        (let oa1 = (if o_dirty oa <s 0 then oa\<lparr>o_dirty := 0\<rparr> else oa);
             oa2 = (if \<not> exp_grant_param_supp exp
                    then oa1\<lparr>o_grant := tgt_grant_inflate tgd (o_grant oa1),
                             o_dirty := tgt_grant_inflate tgd (o_dirty oa1),
                             o_undirty := cap_grant tgd (tgt_grant_inflate tgd (ucast (o_undirty oa1))),
                             o_dropped := cap_grant tgd (tgt_grant_inflate tgd (ucast (o_dropped oa1)))\<rparr>
                    else oa1);
             dirty0 = o_dirty oa2;
             dropped0 = ucast (o_dropped oa2);
             dirty = (if ted_grant exp + 4 * chunk <s dirty0 then ted_grant exp + 4 * chunk else dirty0);
             dropped1 = (if ted_grant exp <s dropped0 then 0 else dropped0);
             dropped = (if tgd_tot_granted tgd < dropped1 then 0 else dropped1);
             tgd1 = tgd\<lparr>tgd_tot_dirty := tgd_tot_dirty tgd + (dirty - ted_dirty exp),
                        tgd_tot_granted := tgd_tot_granted tgd - dropped\<rparr>;
             exp1 = exp\<lparr>ted_grant := ted_grant exp - dropped, ted_dirty := dirty\<rparr>
         in do { counters_ok exp1; Some (exp1, obd\<lparr>lut_tgd := tgd1\<rparr>, oa2) }))"

definition tgt_grant_shrink ::
  "obd_export \<Rightarrow> obd_device \<Rightarrow> obdo \<Rightarrow> u64 \<Rightarrow> obd_export \<times> obd_device \<times> obdo" where
  "tgt_grant_shrink exp obd oa left_space =
     (let tgd = lut_tgd obd in
      if tgd_tot_granted tgd * 4 < left_space then (exp, obd, oa)
      else
        (let grant_shrink = (if ted_grant exp <s o_grant oa then ted_grant exp else o_grant oa)
         in (exp\<lparr>ted_grant := ted_grant exp - grant_shrink\<rparr>,
             upd_tgd (\<lambda>tgd. tgd\<lparr>tgd_tot_granted := tgd_tot_granted tgd - grant_shrink\<rparr>) obd,
             oa\<lparr>o_grant := 0\<rparr>)))"

text \<open>\<^verbatim>\<open>exp = NULL\<close> is \<^term>\<open>None\<close>.\<close>

definition tgt_grant_rnb_size :: "obd_export option \<Rightarrow> obd_device \<Rightarrow> niobuf_remote \<Rightarrow> u64" where
  "tgt_grant_rnb_size exp obd rnb =
     (let tgd = lut_tgd obd; conf = lut_dt_conf obd;
          blksize = (if (\<exists>e. exp = Some e \<and> \<not> exp_grant_param_supp e) \<and>
                        tgd_blockbits tgd > COMPAT_BSIZE_SHIFT
                     then push_bit COMPAT_BSIZE_SHIFT 1 else push_bit (tgd_blockbits tgd) 1);
          bytes0 = (rnb_offset rnb AND (blksize - 1)) + ucast (rnb_len rnb);
          end' = bytes0 AND (blksize - 1);
          bytes1 = (if end' \<noteq> 0 then bytes0 + (blksize - end') else bytes0)
      in if (case exp of None \<Rightarrow> True | Some e \<Rightarrow> exp_grant_param_supp e)
         then (let max_ext = blksize * ucast (ddp_max_extent_blks conf);
                   nr_ext = ucast ((bytes1 + max_ext - 1) div max_ext) :: u32
               in bytes1 + ucast (nr_ext * ddp_extent_tax conf))
         else tgt_grant_inflate tgd bytes1)"

text \<open>The conversion of a size to \<^verbatim>\<open>int bytes\<close> and back to 64 bits.\<close>

definition int_bytes :: "u64 \<Rightarrow> u64" where
  "int_bytes sz = scast (ucast sz :: u32)"

definition rnb_set_granted :: "bool \<Rightarrow> niobuf_remote \<Rightarrow> niobuf_remote" where
  "rnb_set_granted g r =
     r\<lparr>rnb_flags := (if g then rnb_flags r OR OBD_BRW_GRANTED else rnb_flags r AND NOT OBD_BRW_GRANTED)\<rparr>"

text \<open>
  The loop of \<^verbatim>\<open>tgt_grant_check\<close> over the network buffers. The state is \<^verbatim>\<open>*left\<close>, \<^verbatim>\<open>granted\<close> and
  \<^verbatim>\<open>ungranted\<close>.
\<close>

fun tgt_grant_check_loop ::
  "obd_export \<Rightarrow> obd_device \<Rightarrow> bool \<Rightarrow> niobuf_remote list \<Rightarrow> u64 \<times> u64 \<times> u64 \<Rightarrow>
   niobuf_remote list \<times> u64 \<times> u64 \<times> u64" where
  "tgt_grant_check_loop exp obd skip [] st = ([], st)"
| "tgt_grant_check_loop exp obd skip (r # rs) (left, granted, ungranted) =
     (let from_grant = (rnb_flags r AND OBD_BRW_FROM_GRANT \<noteq> 0);
          cbytes = int_bytes (tgt_grant_rnb_size (Some exp) obd r);
          bytes = int_bytes (tgt_grant_rnb_size None obd r);
          (g, st') =
            (if from_grant \<and> skip then (True, left, granted, ungranted)
             else if from_grant \<and> ted_grant exp \<ge> granted + cbytes
             then (True, left, granted + cbytes, ungranted)
             else if left > bytes then (True, left - bytes, granted, ungranted + bytes)
             else (False, left, granted, ungranted));
          (rs', st'') = tgt_grant_check_loop exp obd skip rs st'
      in (rnb_set_granted g r # rs', st''))"

definition tgt_grant_check ::
  "obd_export \<Rightarrow> obd_device \<Rightarrow> obdo \<Rightarrow> niobuf_remote list \<Rightarrow> u64 \<Rightarrow>
   (obd_export \<times> obd_device \<times> obdo \<times> niobuf_remote list \<times> u64) option" where
  "tgt_grant_check exp obd oa rnb left0 =
     (let tgd = lut_tgd obd;
          (skip, st) =
            (if obd_recovering obd then (True, left0, 0, 0)
             else if o_valid oa AND OBD_MD_FLFLAGS \<noteq> 0 \<and> o_flags oa AND OBD_FL_RECOV_RESEND \<noteq> 0
             then (True, left0, 0, 0)
             else if exp_grant_param_supp exp \<and> o_grant_used oa > 0 then
               (if ted_grant exp \<ge> o_grant_used oa then (True, left0, o_grant_used oa, 0)
                else if left0 > o_grant_used oa - ted_grant exp
                then (True, left0 - (o_grant_used oa - ted_grant exp), ted_grant exp,
                      o_grant_used oa - ted_grant exp)
                else (False, left0, 0, 0))
             else (False, left0, 0, 0));
          (rnb', left, granted, ungranted) = tgt_grant_check_loop exp obd skip rnb st;
          oa1 = oa\<lparr>o_grant_used := granted + ungranted\<rparr>;
          exp1 = exp\<lparr>ted_grant := ted_grant exp - granted,
                     ted_pending := ted_pending exp + o_grant_used oa1\<rparr>;
          tgd1 = tgd\<lparr>tgd_tot_granted := tgd_tot_granted tgd + ungranted,
                     tgd_tot_pending := tgd_tot_pending tgd + o_grant_used oa1\<rparr>
      in if obd_recovering obd \<or> o_valid oa AND OBD_MD_FLGRANT = 0
         then Some (exp1, obd\<lparr>lut_tgd := tgd1\<rparr>, oa1, rnb', left)
         else
           (let granted' = (if ted_dirty exp1 < granted then ted_dirty exp1 else granted);
                exp2 = exp1\<lparr>ted_dirty := ted_dirty exp1 - granted'\<rparr>;
                tgd2 = tgd1\<lparr>tgd_tot_dirty := tgd_tot_dirty tgd1 - granted'\<rparr>
            in do { counters_ok exp2; Some (exp2, obd\<lparr>lut_tgd := tgd2\<rparr>, oa1, rnb', left) }))"

text \<open>The grant returned by \<^verbatim>\<open>tgt_grant_alloc\<close> comes first.\<close>

definition tgt_grant_alloc ::
  "obd_export \<Rightarrow> obd_device \<Rightarrow> u64 \<Rightarrow> u64 \<Rightarrow> u64 \<Rightarrow> long \<Rightarrow> bool \<Rightarrow>
   (long \<times> obd_export \<times> obd_device) option" where
  "tgt_grant_alloc exp obd curgrant want left0 chunk conservative0 =
     (let tgd = lut_tgd obd in
      if obd_fail_no_grant obd then Some (0, exp, obd)
      else if obd_self_export obd \<noteq> exp_ptr exp \<and> \<not> exp_grant_param_supp exp \<and>
              tgd_grant_compat_disable tgd \<or> left0 = 0 \<or> exp_failed exp
      then Some (0, exp, obd)
      else if want > OBD_MAX_GRANT then Some (0, exp, obd)
      else if curgrant \<ge> want \<or> curgrant \<ge> ted_grant exp + chunk then Some (0, exp, obd)
      else
        (let conservative = (if obd_recovering obd then False else conservative0);
             left = (if conservative then drop_bit 3 left0 else left0);
             grant0 = min (want - curgrant) left;
             grant1 = (grant0 + scast (push_bit (tgd_blockbits tgd) 1 :: u32) - 1) AND
                      NOT (push_bit (tgd_blockbits tgd) 1 - 1)
         in if grant1 = 0 then Some (0, exp, obd)
            else
              (let grant2 = (if grant1 > chunk \<and> conservative then chunk else grant1)
               in if want + chunk \<le> ted_grant exp then Some (0, exp, obd)
                  else
                    (let grant = (if ted_grant exp + grant2 > want + chunk
                                  then want + chunk - ted_grant exp else grant2);
                         exp1 = exp\<lparr>ted_grant := ted_grant exp + grant\<rparr>;
                         obd1 = upd_tgd (\<lambda>tgd. tgd\<lparr>tgd_tot_granted := tgd_tot_granted tgd + grant\<rparr>) obd
                     in do { LASSERT (\<not> ((ted_grant exp1 <s 0 \<or> ted_grant exp1 > want + chunk) \<and>
                                          lbug_on_grant_miscount obd));
                             Some (grant, exp1, obd1) }))))"

definition tgt_grant_dealloc ::
  "obd_export \<Rightarrow> obd_device \<Rightarrow> obdo \<Rightarrow> obd_export \<times> obd_device \<times> obdo" where
  "tgt_grant_dealloc exp obd oa =
     (if o_valid oa AND OBD_MD_FLGRANT = 0 then (exp, obd, oa)
      else if \<not> exp_disconnected exp then
        (exp\<lparr>ted_grant := ted_grant exp - o_grant oa\<rparr>,
         upd_tgd (\<lambda>tgd. tgd\<lparr>tgd_tot_granted := tgd_tot_granted tgd - o_grant oa\<rparr>) obd,
         oa\<lparr>o_grant := 0\<rparr>)
      else (exp, obd, oa))"

section \<open>Connect, read, write, create and commit\<close>

text \<open>
  The services outside the grant lock: the \<^verbatim>\<open>dt_statfs\<close> call and the clock of each round of a refresh
  loop, numbered by \<^verbatim>\<open>force\<close>, and what a \<^verbatim>\<open>dt_sync\<close> leaves.
\<close>

record lu_env =
  env_statfs :: "nat \<Rightarrow> dt_statfs"
  env_now :: "nat \<Rightarrow> int"
  env_sync :: "tg_grants_data \<Rightarrow> tg_grants_data"

definition env_grant_statfs :: "lu_env \<Rightarrow> nat \<Rightarrow> tg_grants_data \<Rightarrow> bool \<times> tg_grants_data" where
  "env_grant_statfs env force = tgt_grant_statfs (env_statfs env force) (env_now env force) force"

lemma env_grant_statfs_forced:
  "env_grant_statfs env force tgd = (True, tgd') \<Longrightarrow> force = 0"
  by (cases "force = 0")
    (auto simp: env_grant_statfs_def tgt_grant_statfs_def tgt_statfs_internal_def Let_def
      split: prod.splits if_splits)

text \<open>The \<^verbatim>\<open>refresh\<close> loops: the space left and the state, once fresh enough statistics are there.\<close>

function tgt_grant_connect_refresh ::
  "lu_env \<Rightarrow> long \<Rightarrow> nat \<Rightarrow> tg_grants_data \<Rightarrow> u64 \<times> tg_grants_data" where
  "tgt_grant_connect_refresh env chunk force tgd =
     (case env_grant_statfs env force tgd of (from_cache, tgd1) \<Rightarrow>
      if from_cache \<and> tgt_grant_space_left tgd1 < 32 * chunk
      then tgt_grant_connect_refresh env chunk 1 tgd1
      else (tgt_grant_space_left tgd1, tgd1))"
  by pat_completeness auto
termination
  by (relation "measure (\<lambda>(_, _, force, _). if force = 0 then 1 else 0)")
    (auto dest: env_grant_statfs_forced [OF sym])

function tgt_grant_write_refresh ::
  "lu_env \<Rightarrow> bool \<Rightarrow> long \<Rightarrow> niobuf_remote list \<Rightarrow> nat \<Rightarrow> tg_grants_data \<Rightarrow> u64 \<times> tg_grants_data" where
  "tgt_grant_write_refresh env recovering chunk rnb force tgd =
     (case env_grant_statfs env force tgd of (from_cache, tgd1) \<Rightarrow>
      if from_cache \<and> tgt_grant_space_left tgd1 < 32 * chunk
      then tgt_grant_write_refresh env recovering chunk rnb 1 tgd1
      else if \<not> recovering \<and> force \<noteq> 2 \<and> tgt_grant_space_left tgd1 < chunk \<and>
              (\<exists>r\<in>set rnb. rnb_flags r AND OBD_BRW_FROM_GRANT = 0)
      then tgt_grant_write_refresh env recovering chunk rnb 2 (env_sync env tgd1)
      else (tgt_grant_space_left tgd1, tgd1))"
  by pat_completeness auto
termination
  by (relation "measure (\<lambda>(_, _, _, _, force, _). if force = 0 then 2 else if force = 2 then 0 else 1)")
    (auto dest: env_grant_statfs_forced [OF sym])

declare tgt_grant_connect_refresh.simps [simp del] tgt_grant_write_refresh.simps [simp del]

definition tgt_grant_connect ::
  "lu_env \<Rightarrow> obd_export \<Rightarrow> obd_device \<Rightarrow> obd_connect_data \<Rightarrow> bool \<Rightarrow>
   (obd_export \<times> obd_device \<times> obd_connect_data) option" where
  "tgt_grant_connect env exp obd data new_conn =
     (let tgd = lut_tgd obd in
      if OCD_HAS_FLAG data OBD_CONNECT_RDONLY \<or>
         \<not> OCD_HAS_FLAG data OBD_CONNECT_GRANT_PARAM \<and> tgd_grant_compat_disable tgd
      then Some (exp, obd, data\<lparr>ocd_grant := 0,
             ocd_connect_flags := ocd_connect_flags data AND
               NOT (OBD_CONNECT_GRANT OR OBD_CONNECT_GRANT_PARAM)\<rparr>)
      else
        (let want = (if OCD_HAS_FLAG data OBD_CONNECT_GRANT_PARAM then ucast (ocd_grant data)
                     else tgt_grant_inflate tgd (ucast (ocd_grant data)));
             chunk = tgt_grant_chunk exp obd (Some data);
             (left, tgd1) = tgt_grant_connect_refresh env chunk 0 tgd
         in do { (_, exp1, obd1) \<leftarrow>
                   tgt_grant_alloc exp (obd\<lparr>lut_tgd := tgd1\<rparr>) (ted_grant exp) want left chunk new_conn;
                 let tgd2 = lut_tgd obd1;
                 let data1 = data\<lparr>ocd_grant :=
                       ucast (if OCD_HAS_FLAG data OBD_CONNECT_GRANT_PARAM then ted_grant exp1
                              else tgt_grant_deflate tgd2 (ted_grant exp1))\<rparr>;
                 let tgd3 = tgd2\<lparr>tgd_tot_dirty := tgd_tot_dirty tgd2 - ted_dirty exp1\<rparr>;
                 let tgd4 = (if new_conn \<and> OCD_HAS_FLAG data1 OBD_CONNECT_GRANT
                      then tgd3\<lparr>tgd_tot_granted_clients := tgd_tot_granted_clients tgd3 + 1\<rparr> else tgd3);
                 Some (exp1\<lparr>ted_dirty := 0\<rparr>, obd1\<lparr>lut_tgd := tgd4\<rparr>, data1) }))"

definition tgt_grant_prepare_read ::
  "lu_env \<Rightarrow> obd_export \<Rightarrow> obd_device \<Rightarrow> obdo option \<Rightarrow> (obd_export \<times> obd_device \<times> obdo option) option" where
  "tgt_grant_prepare_read env exp obd oa0 =
     (case oa0 of None \<Rightarrow> Some (exp, obd, None) | Some oa \<Rightarrow>
      if o_valid oa AND OBD_MD_FLGRANT = 0 then Some (exp, obd, Some oa)
      else
        (let do_shrink = (o_valid oa AND OBD_MD_FLFLAGS \<noteq> 0 \<and> o_flags oa AND OBD_FL_SHRINK_GRANT \<noteq> 0);
             tgd1 = (if do_shrink then snd (env_grant_statfs env 1 (lut_tgd obd)) else lut_tgd obd);
             obd1 = obd\<lparr>lut_tgd := tgd1\<rparr>;
             left = (if do_shrink then tgt_grant_space_left tgd1 else 0)
         in do { (exp2, obd2, oa2) \<leftarrow> tgt_grant_incoming exp obd1 oa (tgt_grant_chunk exp obd1 None);
                 let (exp3, obd3, oa3) = (if do_shrink then tgt_grant_shrink exp2 obd2 oa2 left
                                          else (exp2, obd2, oa2\<lparr>o_grant := 0\<rparr>));
                 let oa4 = (if \<not> exp_grant_param_supp exp3
                            then oa3\<lparr>o_grant := tgt_grant_deflate (lut_tgd obd3) (o_grant oa3)\<rparr> else oa3);
                 Some (exp3, obd3, Some oa4) }))"

definition tgt_grant_prepare_write ::
  "lu_env \<Rightarrow> obd_export \<Rightarrow> obd_device \<Rightarrow> obdo \<Rightarrow> niobuf_remote list \<Rightarrow>
   (obd_export \<times> obd_device \<times> obdo \<times> niobuf_remote list) option" where
  "tgt_grant_prepare_write env exp obd oa rnb =
     (let chunk = tgt_grant_chunk exp obd None;
          (left0, tgd1) = tgt_grant_write_refresh env (obd_recovering obd) chunk rnb 0 (lut_tgd obd)
      in do { (exp1, obd1, oa1) \<leftarrow> tgt_grant_incoming exp (obd\<lparr>lut_tgd := tgd1\<rparr>) oa chunk;
              (exp2, obd2, oa2, rnb2, left) \<leftarrow> tgt_grant_check exp1 obd1 oa1 rnb left0;
              if o_valid oa2 AND OBD_MD_FLGRANT = 0 then Some (exp2, obd2, oa2, rnb2)
              else do {
                (exp3, obd3, oa3) \<leftarrow>
                  (if o_valid oa2 AND OBD_MD_FLFLAGS \<noteq> 0 \<and> o_flags oa2 AND OBD_FL_SHRINK_GRANT \<noteq> 0
                   then Some (tgt_grant_shrink exp2 obd2 oa2 left)
                   else do { (grant, e, d) \<leftarrow> tgt_grant_alloc exp2 obd2 (o_grant oa2)
                               (ucast (o_undirty oa2)) left chunk True;
                             Some (e, d, oa2\<lparr>o_grant := grant\<rparr>) });
                let oa4 = (if \<not> exp_grant_param_supp exp3
                           then oa3\<lparr>o_grant := tgt_grant_deflate (lut_tgd obd3) (o_grant oa3)\<rparr> else oa3);
                Some (exp3, obd3, oa4, rnb2) } })"

text \<open>
  The result is \<^verbatim>\<open>-ENOSPC\<close> or the amount of grant consumed, with the new value of \<^verbatim>\<open>*nr\<close>.
\<close>

definition tgt_grant_create ::
  "lu_env \<Rightarrow> obd_export \<Rightarrow> obd_device \<Rightarrow> 64 word \<Rightarrow>
   ((int + u64) \<times> 64 word \<times> obd_export \<times> obd_device) option" where
  "tgt_grant_create env exp obd nr =
     (let inodespace = word_of_int (ddp_inodespace (lut_dt_conf obd)) :: u64 in
      if obd_recovering obd \<or> ddp_inodespace (lut_dt_conf obd) = 0 then Some (Inr 0, nr, exp, obd)
      else
        (let tgd1 = snd (env_grant_statfs env 1 (lut_tgd obd));
             obd1 = obd\<lparr>lut_tgd := tgd1\<rparr>;
             osfs = tgd_osfs tgd1
         in if os_bavail osfs - signed_drop_bit (tgd_blockbits tgd1) (ted_grant exp) <
               drop_bit 10 (os_blocks osfs)
            then Some (Inl (- ENOSPC), nr, exp, obd1)
            else
              (let left = tgt_grant_space_left tgd1;
                   wanted0 = nr * inodespace;
                   nr1 = (if wanted0 > ted_grant exp + left then (ted_grant exp + left) div inodespace
                          else nr);
                   wanted = (if wanted0 > ted_grant exp + left then nr1 * inodespace else wanted0)
               in if wanted0 > ted_grant exp + left \<and> nr1 = 0 then Some (Inl (- ENOSPC), nr1, exp, obd1)
                  else do {
                    LASSERT (wanted \<le> ted_grant exp + left);
                    let (left2, exp2, tgd2) =
                      (if wanted \<le> ted_grant exp
                       then (left, exp\<lparr>ted_grant := ted_grant exp - wanted\<rparr>, tgd1)
                       else (left - (wanted - ted_grant exp), exp\<lparr>ted_grant := 0\<rparr>,
                             tgd1\<lparr>tgd_tot_granted := tgd_tot_granted tgd1 + (wanted - ted_grant exp)\<rparr>));
                    let exp3 = exp2\<lparr>ted_pending := ted_pending exp2 + wanted\<rparr>;
                    let tgd3 = tgd2\<lparr>tgd_tot_pending := tgd_tot_pending tgd2 + wanted\<rparr>;
                    let obd3 = obd\<lparr>lut_tgd := tgd3\<rparr>;
                    let wanted4 = word_of_int ((OST_MAX_PRECREATE * ddp_inodespace (lut_dt_conf obd)) sdiv 2);
                    (if wanted4 > ted_grant exp3
                     then do { (_, exp4, obd4) \<leftarrow> tgt_grant_alloc exp3 obd3 (ted_grant exp3)
                                 (wanted4 - ted_grant exp3) left2 (tgt_grant_chunk exp3 obd3 None) False;
                               Some (Inr wanted, nr1, exp4, obd4) }
                     else Some (Inr wanted, nr1, exp3, obd3)) })))"

definition tgt_grant_commit ::
  "obd_export \<Rightarrow> obd_device \<Rightarrow> u64 \<Rightarrow> int \<Rightarrow> (obd_export \<times> obd_device) option" where
  "tgt_grant_commit exp obd pending rc =
     (if pending = 0 then Some (exp, obd)
      else
        (let tgd = lut_tgd obd;
             osfs = tgd_osfs tgd;
             tgd1 = (if rc = 0
                     then tgd\<lparr>tgd_osfs := osfs\<lparr>os_bavail := os_bavail osfs -
                                min (os_bavail osfs) (drop_bit (tgd_blockbits tgd) pending)\<rparr>,
                              tgd_osfs_inflight := (if tgd_statfs_inflight tgd \<noteq> 0
                                then tgd_osfs_inflight tgd + pending else tgd_osfs_inflight tgd)\<rparr>
                     else tgd)
         in do { LASSERT (\<not> ted_pending exp < pending);
                 LASSERT (\<not> tgd_tot_granted tgd1 < pending);
                 LASSERT (\<not> tgd_tot_pending tgd1 < pending);
                 Some (exp\<lparr>ted_pending := ted_pending exp - pending\<rparr>,
                       obd\<lparr>lut_tgd := tgd1\<lparr>tgd_tot_granted := tgd_tot_granted tgd1 - pending,
                                        tgd_tot_pending := tgd_tot_pending tgd1 - pending\<rparr>\<rparr>) }))"

text \<open>
  \<^verbatim>\<open>tgt_grant_discard\<close> works on the whole target: when the totals are below what the export holds, it
  recomputes them from the list of exports, from which the caller has already removed the export.
\<close>

definition tgt_grant_discard :: "target \<Rightarrow> nat \<Rightarrow> target option" where
  "tgt_grant_discard t p =
     (let exp = tgt_exp t p; obd = tgt_obd t; tgd = lut_tgd obd;
          es = map (tgt_exp t) (obd_exports t);
          miscount = (tgd_tot_granted tgd < ted_grant exp \<or> tgd_tot_dirty tgd < ted_dirty exp);
          tgd1 = (if miscount
                  then tgd\<lparr>tgd_tot_granted := (\<Sum>e\<leftarrow>es. ted_grant e + ted_pending e),
                           tgd_tot_dirty := (\<Sum>e\<leftarrow>es. ted_dirty e)\<rparr>
                  else tgd\<lparr>tgd_tot_granted := tgd_tot_granted tgd - ted_grant exp,
                           tgd_tot_dirty := tgd_tot_dirty tgd - ted_dirty exp\<rparr>)
      in do { LASSERT (miscount \<longrightarrow> p \<notin> set (obd_exports t));
              Some (t\<lparr>tgt_obd := obd\<lparr>lut_tgd := tgd1\<rparr>,
                      tgt_exp := (tgt_exp t)(p := exp\<lparr>ted_grant := 0, ted_dirty := 0\<rparr>)\<rparr>) })"

text \<open>
  The commit callback of a write: a transaction is the list of its callbacks. The allocation of the callback and the status of
  \<^verbatim>\<open>dt_trans_cb_add\<close>, which keeps the callback when it returns 0, are arguments; \<^verbatim>\<open>err\<close> is the status of the transaction.
\<close>

record tgt_grant_cb =
  tgc_exp :: nat
  tgc_granted :: u64

definition tgt_grant_commit_cb :: "target \<Rightarrow> tgt_grant_cb \<Rightarrow> int \<Rightarrow> target option" where
  "tgt_grant_commit_cb t tgc err = do {
     (exp, obd) \<leftarrow> tgt_grant_commit (tgt_exp t (tgc_exp tgc)) (tgt_obd t) (tgc_granted tgc) err;
     Some (t\<lparr>tgt_obd := obd, tgt_exp := (tgt_exp t)(tgc_exp tgc := exp)\<rparr>) }"

definition tgt_grant_commit_cb_add :: "bool \<Rightarrow> int \<Rightarrow> tgt_grant_cb list \<Rightarrow> nat \<Rightarrow> u64 \<Rightarrow> int \<times> tgt_grant_cb list" where
  "tgt_grant_commit_cb_add allocated rc th exp granted =
     (if \<not> allocated then (- ENOMEM, th)
      else (rc, if rc = 0 then th @ [\<lparr>tgc_exp = exp, tgc_granted = granted\<rparr>] else th))"

text \<open>\<^verbatim>\<open>kstrtobool\<close> of the kernel is an argument.\<close>

definition grant_compat_disable_store :: "(string \<Rightarrow> int + bool) \<Rightarrow> tg_grants_data \<Rightarrow> string \<Rightarrow> int \<Rightarrow> int \<times> tg_grants_data" where
  "grant_compat_disable_store kstrtobool tgd buffer count = (case kstrtobool buffer of
       Inl rc \<Rightarrow> (rc, tgd)
     | Inr val \<Rightarrow> (count, tgd\<lparr>tgd_grant_compat_disable := val\<rparr>))"

end
