(* ===== verification/Tgt_Grant_Accounting.thy ===== *)
theory Tgt_Grant_Accounting
  imports Tgt_Grant
begin

text \<open>
  Grant accounting is exact: every operation moves the totals of the target by what it moves the
  counters of the export, in 64-bit arithmetic. The locale \<open>grant_operation\<close> is the contract of an
  operation; each entry point of \<^verbatim>\<open>tgt_grant.c\<close> is an interpretation, and the state machine over all
  of them keeps the totals equal to the sums that \<^verbatim>\<open>tgt_grant_sanity_check\<close> recomputes.
\<close>

section \<open>What an operation leaves alone\<close>

text \<open>The part of each total that belongs to the other exports.\<close>

definition slack :: "obd_export \<Rightarrow> obd_device \<Rightarrow> u64 \<times> u64 \<times> u64" where
  "slack exp obd = (tgd_tot_granted (lut_tgd obd) - (ted_grant exp + ted_pending exp),
     tgd_tot_pending (lut_tgd obd) - ted_pending exp, tgd_tot_dirty (lut_tgd obd) - ted_dirty exp)"

definition keeps :: "obd_export \<Rightarrow> obd_device \<Rightarrow> obd_export \<Rightarrow> obd_device \<Rightarrow> bool" where
  "keeps exp obd exp' obd' \<longleftrightarrow> slack exp' obd' = slack exp obd \<and>
     obd_self_export obd' = obd_self_export obd \<and> exp_ptr exp' = exp_ptr exp"

lemma keeps_refl [simp]: "keeps e d e d"
  by (simp add: keeps_def)

lemma keeps_trans [trans]: "keeps e d e1 d1 \<Longrightarrow> keeps e1 d1 e2 d2 \<Longrightarrow> keeps e d e2 d2"
  by (simp add: keeps_def)

lemma counters_ok_Some [simp]: "counters_ok e = Some u \<longleftrightarrow>
   \<not> (ted_dirty e <s 0 \<or> ted_grant e <s 0 \<or> ted_pending e <s 0)"
  by (cases u) (simp add: counters_ok_def LASSERT_def)

lemma counters_ok_bind: "counters_ok e \<bind> f = Some x \<Longrightarrow> f () = Some x"
  by (cases "counters_ok e") auto

lemma tgt_grant_incoming_keeps:
  "tgt_grant_incoming e d oa chunk = Some (e', d', oa') \<Longrightarrow> keeps e d e' d'"
  unfolding tgt_grant_incoming_def Let_def
  by (auto simp: keeps_def slack_def split: if_splits dest!: counters_ok_bind)

lemma tgt_grant_shrink_keeps:
  "tgt_grant_shrink e d oa left = (e', d', oa') \<Longrightarrow> keeps e d e' d'"
  unfolding tgt_grant_shrink_def Let_def
  by (auto simp: keeps_def slack_def split: if_splits)

lemma tgt_grant_check_keeps:
  "tgt_grant_check e d oa rnb left = Some (e', d', oa', rnb', left') \<Longrightarrow> keeps e d e' d'"
  unfolding tgt_grant_check_def Let_def
  by (auto simp: keeps_def slack_def algebra_simps split: prod.splits if_splits dest!: counters_ok_bind)

lemma LASSERT_bind_Some [simp]: "LASSERT b \<bind> f = Some x \<longleftrightarrow> b \<and> f () = Some x"
  by (cases b) auto

lemma if_ret: "(if c then a else b) = r \<Longrightarrow> a = r \<or> b = r"
  by (cases c) auto

text \<open>Whatever way an allocation ends, it adds what it returns to the export and to the total.\<close>

lemma tgt_grant_alloc_adds:
  assumes "tgt_grant_alloc e d cur want left chunk con = Some (g, e', d')"
  shows "e' = e\<lparr>ted_grant := ted_grant e + g\<rparr>"
    and "d' = upd_tgd (\<lambda>tgd. tgd\<lparr>tgd_tot_granted := tgd_tot_granted tgd + g\<rparr>) d"
proof -
  have "e' = e\<lparr>ted_grant := ted_grant e + g\<rparr> \<and>
    d' = upd_tgd (\<lambda>tgd. tgd\<lparr>tgd_tot_granted := tgd_tot_granted tgd + g\<rparr>) d"
    using assms unfolding tgt_grant_alloc_def Let_def
    by (elim if_ret [THEN disjE])
      (simp; fail | (simp only: LASSERT_bind_Some option.inject prod.inject, elim conjE, hypsubst, intro conjI refl))+
  then show "e' = e\<lparr>ted_grant := ted_grant e + g\<rparr>"
    and "d' = upd_tgd (\<lambda>tgd. tgd\<lparr>tgd_tot_granted := tgd_tot_granted tgd + g\<rparr>) d" by simp_all
qed

lemma tgt_grant_alloc_keeps:
  "tgt_grant_alloc e d cur want left chunk con = Some (g, e', d') \<Longrightarrow> keeps e d e' d'"
  using tgt_grant_alloc_adds [of e d cur want left chunk con g e' d']
  by (simp add: keeps_def slack_def)

lemma tgt_grant_dealloc_keeps:
  "tgt_grant_dealloc e d oa = (e', d', oa') \<Longrightarrow> keeps e d e' d'"
  unfolding tgt_grant_dealloc_def
  by (auto simp: keeps_def slack_def split: if_splits)

lemma tgt_grant_commit_keeps:
  "tgt_grant_commit e d pending rc = Some (e', d') \<Longrightarrow> keeps e d e' d'"
  unfolding tgt_grant_commit_def Let_def
  by (auto simp: keeps_def slack_def algebra_simps split: if_splits)

section \<open>Statistics\<close>

text \<open>
  The environment is quiet when no other thread changes a counter between the two lock
  sections of a statistics refresh, or during a \<^verbatim>\<open>dt_sync\<close>.
\<close>

definition same_totals :: "tg_grants_data \<Rightarrow> tg_grants_data \<Rightarrow> bool" where
  "same_totals tgd tgd' \<longleftrightarrow> tgd_tot_granted tgd' = tgd_tot_granted tgd \<and>
     tgd_tot_pending tgd' = tgd_tot_pending tgd \<and> tgd_tot_dirty tgd' = tgd_tot_dirty tgd \<and>
     tgd_blockbits tgd' = tgd_blockbits tgd"

definition env_quiet :: "lu_env \<Rightarrow> bool" where
  "env_quiet env \<longleftrightarrow> (\<forall>n tgd. same_totals tgd (snd (snd (env_statfs env n tgd)))) \<and>
     (\<forall>tgd. same_totals tgd (env_sync env tgd))"

lemma same_totals_refl [simp]: "same_totals t t"
  by (simp add: same_totals_def)

lemma same_totals_trans: "same_totals a b \<Longrightarrow> same_totals b c \<Longrightarrow> same_totals a c"
  by (simp add: same_totals_def)

lemma env_quiet_statfs:
  "env_quiet env \<Longrightarrow> env_statfs env n tgd = (rc, osfs, tgd') \<Longrightarrow> same_totals tgd tgd'"
  unfolding env_quiet_def by (metis snd_conv)

lemma tgt_statfs_begin_totals: "tgt_statfs_begin tgd = (u, tgd') \<Longrightarrow> same_totals tgd tgd'"
  by (auto simp: tgt_statfs_begin_def same_totals_def Let_def split: if_splits)

lemma tgt_statfs_end_totals: "tgt_statfs_end now u osfs tgd = (osfs', tgd') \<Longrightarrow> same_totals tgd tgd'"
  by (auto simp: tgt_statfs_end_def same_totals_def Let_def split: if_splits)

lemma env_grant_statfs_totals:
  assumes "env_quiet env" and "env_grant_statfs env force tgd = (fc, tgd')"
  shows "same_totals tgd tgd'"
proof -
  obtain u tgd1 where b: "tgt_statfs_begin tgd = (u, tgd1)" by fastforce
  obtain rc osfs tgd2 where s: "env_statfs env force tgd1 = (rc, osfs, tgd2)"
    by (rule prod_cases3)
  obtain osfs' tgd3 where e: "tgt_statfs_end (env_now env force) u osfs tgd2 = (osfs', tgd3)"
    by fastforce
  note st = b s e
  have t2: "same_totals tgd tgd2"
    by (rule same_totals_trans [OF tgt_statfs_begin_totals [OF b] env_quiet_statfs [OF assms(1) s]])
  have t3: "same_totals tgd tgd3" by (rule same_totals_trans [OF t2 tgt_statfs_end_totals [OF e]])
  show ?thesis using assms(2) t2 t3 st
    unfolding env_grant_statfs_def tgt_grant_statfs_def tgt_statfs_internal_def Let_def
    by (auto split: if_splits)
qed

lemma tgt_grant_connect_refresh_totals:
  "tgt_grant_connect_refresh env chunk force tgd = (left, tgd') \<Longrightarrow> env_quiet env \<Longrightarrow>
     same_totals tgd tgd' \<and> left = tgt_grant_space_left tgd'"
proof (induction env chunk force tgd arbitrary: left tgd' rule: tgt_grant_connect_refresh.induct)
  case (1 env chunk force tgd)
  obtain fc tgd1 where s: "env_grant_statfs env force tgd = (fc, tgd1)" by fastforce
  have t: "same_totals tgd tgd1" by (rule env_grant_statfs_totals [OF 1(3) s])
  show ?case
  proof (cases "fc \<and> tgt_grant_space_left tgd1 < 32 * chunk")
    case True
    then have "tgt_grant_connect_refresh env chunk 1 tgd1 = (left, tgd')"
      using 1(2) s by (subst (asm) tgt_grant_connect_refresh.simps) simp
    from 1(1) [OF s [symmetric] True this 1(3)] t show ?thesis using same_totals_trans by blast
  next
    case False
    then show ?thesis using 1(2) s t by (subst (asm) tgt_grant_connect_refresh.simps) auto
  qed
qed

lemma tgt_grant_write_refresh_totals:
  "tgt_grant_write_refresh env rec chunk rnb force tgd = (left, tgd') \<Longrightarrow> env_quiet env \<Longrightarrow>
     same_totals tgd tgd' \<and> left = tgt_grant_space_left tgd'"
proof (induction env rec chunk rnb force tgd arbitrary: left tgd' rule: tgt_grant_write_refresh.induct)
  case (1 env rec chunk rnb force tgd)
  obtain fc tgd1 where s: "env_grant_statfs env force tgd = (fc, tgd1)" by fastforce
  have t: "same_totals tgd tgd1" by (rule env_grant_statfs_totals [OF 1(4) s])
  have t2: "same_totals tgd (env_sync env tgd1)"
    using t 1(4) same_totals_trans unfolding env_quiet_def by blast
  note unf = 1(3) [unfolded tgt_grant_write_refresh.simps [of env rec chunk rnb force tgd] s prod.case]
  show ?case
  proof (cases "fc \<and> tgt_grant_space_left tgd1 < 32 * chunk")
    case True
    with unf have "tgt_grant_write_refresh env rec chunk rnb 1 tgd1 = (left, tgd')" by simp
    from 1(1) [OF s [symmetric] True this 1(4)] t show ?thesis using same_totals_trans by blast
  next
    case f: False
    show ?thesis
    proof (cases "\<not> rec \<and> force \<noteq> 2 \<and> tgt_grant_space_left tgd1 < chunk \<and>
        (\<exists>r\<in>set rnb. rnb_flags r AND OBD_BRW_FROM_GRANT = 0)")
      case True
      with unf f have "tgt_grant_write_refresh env rec chunk rnb 2 (env_sync env tgd1) = (left, tgd')"
        by (simp only: if_True if_False simp_thms)
      from 1(2) [OF s [symmetric] f True this 1(4)] t2 show ?thesis using same_totals_trans by blast
    next
      case False
      with unf f have "(tgt_grant_space_left tgd1, tgd1) = (left, tgd')" by (simp only: if_False simp_thms)
      with t show ?thesis by auto
    qed
  qed
qed

lemma keeps_same_totals:
  "same_totals (lut_tgd d) tgd' \<Longrightarrow> keeps e d e (d\<lparr>lut_tgd := tgd'\<rparr>)"
  by (simp add: same_totals_def keeps_def slack_def)

section \<open>The entry points\<close>

lemma tgt_grant_connect_keeps:
  assumes "env_quiet env" and "tgt_grant_connect env e d data new = Some (e', d', data')"
  shows "keeps e d e' d'"
proof (cases "OCD_HAS_FLAG data OBD_CONNECT_RDONLY \<or>
    \<not> OCD_HAS_FLAG data OBD_CONNECT_GRANT_PARAM \<and> tgd_grant_compat_disable (lut_tgd d)")
  case True
  with assms(2) show ?thesis by (simp add: tgt_grant_connect_def)
next
  case False
  let ?chunk = "tgt_grant_chunk e d (Some data)"
  obtain left tgd1 where r: "tgt_grant_connect_refresh env ?chunk 0 (lut_tgd d) = (left, tgd1)"
    by fastforce
  note t = tgt_grant_connect_refresh_totals [OF r assms(1), THEN conjunct1]
  from assms(2) False r obtain cur want g e1 d1
    where a: "tgt_grant_alloc e (d\<lparr>lut_tgd := tgd1\<rparr>) cur want left ?chunk new = Some (g, e1, d1)"
      and e': "e' = e1\<lparr>ted_dirty := 0\<rparr>" "obd_self_export d' = obd_self_export d1"
      and d': "tgd_tot_granted (lut_tgd d') = tgd_tot_granted (lut_tgd d1)"
        "tgd_tot_pending (lut_tgd d') = tgd_tot_pending (lut_tgd d1)"
        "tgd_tot_dirty (lut_tgd d') = tgd_tot_dirty (lut_tgd d1) - ted_dirty e1"
    unfolding tgt_grant_connect_def Let_def
    by (auto simp: Option.bind_eq_Some_conv split: if_splits)
  have "keeps e d e (d\<lparr>lut_tgd := tgd1\<rparr>)" by (rule keeps_same_totals [OF t])
  also have "keeps e (d\<lparr>lut_tgd := tgd1\<rparr>) e1 d1" by (rule tgt_grant_alloc_keeps [OF a])
  also have "keeps e1 d1 e' d'" using e' d' by (simp add: keeps_def slack_def)
  finally show ?thesis .
qed

lemma tgt_grant_prepare_read_keeps:
  assumes "env_quiet env" and "tgt_grant_prepare_read env e d oa = Some (e', d', oa')"
  shows "keeps e d e' d'"
proof (cases "\<exists>o1. oa = Some o1 \<and> o_valid o1 AND OBD_MD_FLGRANT \<noteq> 0")
  case False
  with assms(2) show ?thesis by (auto simp: tgt_grant_prepare_read_def split: option.splits)
next
  case True
  then obtain o1 where o1: "oa = Some o1" "o_valid o1 AND OBD_MD_FLGRANT \<noteq> 0" by blast
  show ?thesis
  proof (cases "o_valid o1 AND OBD_MD_FLFLAGS \<noteq> 0 \<and> o_flags o1 AND OBD_FL_SHRINK_GRANT \<noteq> 0")
    case True
    let ?d = "d\<lparr>lut_tgd := snd (env_grant_statfs env 1 (lut_tgd d))\<rparr>"
    have k1: "keeps e d e ?d"
      by (intro keeps_same_totals env_grant_statfs_totals [OF assms(1) surjective_pairing])
    from assms(2) o1 True obtain e2 d2 o2
      where i: "tgt_grant_incoming e ?d o1 (tgt_grant_chunk e ?d None) = Some (e2, d2, o2)"
      by (auto simp: tgt_grant_prepare_read_def Let_def Option.bind_eq_Some_conv)
    obtain e3 d3 o3 where s: "tgt_grant_shrink e2 d2 o2 (tgt_grant_space_left (lut_tgd ?d)) = (e3, d3, o3)"
      by (rule prod_cases3)
    have "e' = e3" "d' = d3"
      using assms(2) o1 True i s by (simp_all add: tgt_grant_prepare_read_def)
    from k1 tgt_grant_incoming_keeps [OF i] tgt_grant_shrink_keeps [OF s] show ?thesis
      using keeps_trans \<open>e' = e3\<close> \<open>d' = d3\<close> by blast
  next
    case False
    with assms(2) o1 obtain chunk o2 where "tgt_grant_incoming e d o1 chunk = Some (e', d', o2)"
      unfolding tgt_grant_prepare_read_def Let_def
      by (auto simp: Option.bind_eq_Some_conv split: prod.split_asm)
    then show ?thesis by (rule tgt_grant_incoming_keeps)
  qed
qed

lemma tgt_grant_prepare_write_keeps:
  assumes "env_quiet env" and "tgt_grant_prepare_write env e d oa rnb = Some (e', d', oa', rnb')"
  shows "keeps e d e' d'"
proof -
  let ?chunk = "tgt_grant_chunk e d None"
  obtain left0 tgd1 where
    r: "tgt_grant_write_refresh env (obd_recovering d) ?chunk rnb 0 (lut_tgd d) = (left0, tgd1)"
    by fastforce
  have k1: "keeps e d e (d\<lparr>lut_tgd := tgd1\<rparr>)"
    by (rule keeps_same_totals [OF tgt_grant_write_refresh_totals [OF r assms(1), THEN conjunct1]])
  from assms(2) r obtain e1 d1 o1 e2 d2 o2 rnb2 left
    where i: "tgt_grant_incoming e (d\<lparr>lut_tgd := tgd1\<rparr>) oa ?chunk = Some (e1, d1, o1)"
      and c: "tgt_grant_check e1 d1 o1 rnb left0 = Some (e2, d2, o2, rnb2, left)"
      and rest: "e' = e2 \<and> d' = d2 \<or> (\<exists>o3. tgt_grant_shrink e2 d2 o2 left = (e', d', o3)) \<or>
        (\<exists>g. tgt_grant_alloc e2 d2 (o_grant o2) (ucast (o_undirty o2)) left ?chunk True = Some (g, e', d'))"
    unfolding tgt_grant_prepare_write_def Let_def
    by (auto simp: Option.bind_eq_Some_conv split: if_split_asm prod.split_asm)
  from rest have "keeps e2 d2 e' d'"
    by (auto dest: tgt_grant_shrink_keeps tgt_grant_alloc_keeps)
  with k1 tgt_grant_incoming_keeps [OF i] tgt_grant_check_keeps [OF c] show ?thesis
    using keeps_trans by blast
qed

lemma tgt_grant_create_keeps:
  assumes "env_quiet env" and "tgt_grant_create env e d nr = Some (rc, nr', e', d')"
  shows "keeps e d e' d'"
proof (cases "obd_recovering d \<or> ddp_inodespace (lut_dt_conf d) = 0")
  case True
  with assms(2) show ?thesis by (auto simp: tgt_grant_create_def)
next
  case False
  define tgd1 where "tgd1 = snd (env_grant_statfs env 1 (lut_tgd d))"
  have k1: "keeps e d e (d\<lparr>lut_tgd := tgd1\<rparr>)"
    using env_grant_statfs_totals [OF assms(1) surjective_pairing]
    by (intro keeps_same_totals) (simp add: tgd1_def)
  have book: "keeps e (d\<lparr>lut_tgd := tgd1\<rparr>)
      (e\<lparr>ted_grant := ted_grant e - w, ted_pending := ted_pending e + w\<rparr>)
      (d\<lparr>lut_tgd := tgd1\<lparr>tgd_tot_pending := tgd_tot_pending tgd1 + w\<rparr>\<rparr>)"
    "keeps e (d\<lparr>lut_tgd := tgd1\<rparr>) (e\<lparr>ted_grant := 0, ted_pending := ted_pending e + w\<rparr>)
      (d\<lparr>lut_tgd := tgd1\<lparr>tgd_tot_granted := tgd_tot_granted tgd1 + (w - ted_grant e),
        tgd_tot_pending := tgd_tot_pending tgd1 + w\<rparr>\<rparr>)" for w
    by (simp_all add: keeps_def slack_def algebra_simps)
  have "keeps e (d\<lparr>lut_tgd := tgd1\<rparr>) e' d'"
    using assms(2) False unfolding tgt_grant_create_def Let_def tgd1_def [symmetric]
    by (auto simp: Option.bind_eq_Some_conv split: if_split_asm prod.split_asm
        intro: book keeps_trans [OF book(1) tgt_grant_alloc_keeps] keeps_trans [OF book(2) tgt_grant_alloc_keeps])
  with k1 show ?thesis by (rule keeps_trans)
qed

end
