(* ===== verification/Tgt_Grant_Machine.thy ===== *)
theory Tgt_Grant_Machine
  imports Tgt_Grant_Accounting
begin

text \<open>
  The target as a state machine: every entry point of \<^verbatim>\<open>tgt_grant.c\<close> is a step on the device and one of
  its exports. The locale \<open>grant_operation\<close> states what an entry point owes to the others; its
  interpretations are the entry points, and the invariant of the machine is proved from it once. An entry point is one step: the lock is dropped while
  the storage layer computes its statistics, and \<open>env_quiet\<close> says that the totals do not change in between.
\<close>

section \<open>The totals of a target\<close>

definition tgt_ptrs :: "target \<Rightarrow> nat list" where
  "tgt_ptrs t = obd_self_export (tgt_obd t) # obd_exports t @ obd_unlinked_exports t"

definition accounted :: "target \<Rightarrow> bool" where
  "accounted t \<longleftrightarrow> distinct (tgt_ptrs t) \<and> (\<forall>p\<in>set (tgt_ptrs t). exp_ptr (tgt_exp t p) = p) \<and>
     tgd_tot_granted (lut_tgd (tgt_obd t)) =
       (\<Sum>p\<leftarrow>tgt_ptrs t. ted_grant (tgt_exp t p) + ted_pending (tgt_exp t p)) \<and>
     tgd_tot_pending (lut_tgd (tgt_obd t)) = (\<Sum>p\<leftarrow>tgt_ptrs t. ted_pending (tgt_exp t p)) \<and>
     tgd_tot_dirty (lut_tgd (tgt_obd t)) = (\<Sum>p\<leftarrow>tgt_ptrs t. ted_dirty (tgt_exp t p))"

text \<open>
  The same up to an amount that is missing in the totals of granted and dirty space: \<open>lost\<close> is the pair of them.
\<close>

definition short :: "u64 \<times> u64 \<Rightarrow> target \<Rightarrow> bool" where
  "short lost t \<longleftrightarrow> distinct (tgt_ptrs t) \<and> (\<forall>p\<in>set (tgt_ptrs t). exp_ptr (tgt_exp t p) = p) \<and>
     tgd_tot_granted (lut_tgd (tgt_obd t)) + fst lost =
       (\<Sum>p\<leftarrow>tgt_ptrs t. ted_grant (tgt_exp t p) + ted_pending (tgt_exp t p)) \<and>
     tgd_tot_pending (lut_tgd (tgt_obd t)) = (\<Sum>p\<leftarrow>tgt_ptrs t. ted_pending (tgt_exp t p)) \<and>
     tgd_tot_dirty (lut_tgd (tgt_obd t)) + snd lost = (\<Sum>p\<leftarrow>tgt_ptrs t. ted_dirty (tgt_exp t p))"

lemma accounted_short: "accounted t \<longleftrightarrow> short (0, 0) t"
  by (simp add: accounted_def short_def)

definition put_export :: "target \<Rightarrow> nat \<Rightarrow> obd_export \<Rightarrow> obd_device \<Rightarrow> target" where
  "put_export t p e d = t\<lparr>tgt_obd := d, tgt_exp := (tgt_exp t)(p := e)\<rparr>"

lemma sum_list_update_at:
  fixes f :: "nat \<Rightarrow> 'a::ab_group_add"
  shows "distinct ps \<Longrightarrow> p \<in> set ps \<Longrightarrow>
    (\<Sum>q\<leftarrow>ps. if q = p then x else f q) = (\<Sum>q\<leftarrow>ps. f q) - f p + x"
proof (induction ps)
  case (Cons q ps)
  show ?case
  proof (cases "q = p")
    case True
    with Cons.prems have "(\<Sum>q\<leftarrow>ps. if q = p then x else f q) = (\<Sum>q\<leftarrow>ps. f q)"
      by (intro arg_cong [of _ _ sum_list] map_cong) auto
    with True show ?thesis by simp
  next
    case False
    with Cons show ?thesis by (simp add: algebra_simps)
  qed
qed simp

lemma total_shift:
  fixes a :: "'a::ab_group_add"
  assumes "a - x' = a0 - x" and "a0 + l = s" and "s' = s - x + x'"
  shows "a + l = s'"
proof -
  have "a = a0 - x + x'" using assms(1) by (simp add: diff_eq_eq)
  then have "a + l = (a0 + l) - x + x'" by simp
  then show ?thesis unfolding assms(2,3) .
qed

lemma put_export_short:
  assumes acc: "short lost t" and p: "p \<in> set (tgt_ptrs t)"
    and k: "keeps (tgt_exp t p) (tgt_obd t) e d"
  shows "short lost (put_export t p e d)"
proof -
  have ps: "tgt_ptrs (put_export t p e d) = tgt_ptrs t"
    using k by (simp add: tgt_ptrs_def put_export_def keeps_def)
  have upd: "(\<Sum>q\<leftarrow>tgt_ptrs t. g (tgt_exp (put_export t p e d) q)) =
      (\<Sum>q\<leftarrow>tgt_ptrs t. g (tgt_exp t q)) - g (tgt_exp t p) + g e" for g :: "obd_export \<Rightarrow> u64"
  proof -
    have "g (tgt_exp (put_export t p e d) q) = (if q = p then g e else g (tgt_exp t q))" for q
      by (simp add: put_export_def)
    then show ?thesis
      using sum_list_update_at [of "tgt_ptrs t" p "g e" "\<lambda>q. g (tgt_exp t q)"] acc p
      by (simp add: short_def)
  qed
  note tot = k [unfolded keeps_def slack_def prod.inject]
  have "\<forall>q\<in>set (tgt_ptrs t). exp_ptr (tgt_exp (put_export t p e d) q) = q"
    using acc p tot by (auto simp: short_def put_export_def)
  moreover have "tgt_obd (put_export t p e d) = d" by (simp add: put_export_def)
  ultimately show ?thesis
    using acc tot total_shift [OF _ _ upd [of "\<lambda>e. ted_grant e + ted_pending e"], of _ _ "fst lost"]
      total_shift [OF _ _ upd [of ted_pending], of _ _ 0] total_shift [OF _ _ upd [of ted_dirty], of _ _ "snd lost"]
    unfolding short_def ps by simp
qed

lemma put_export_accounted:
  "accounted t \<Longrightarrow> p \<in> set (tgt_ptrs t) \<Longrightarrow> keeps (tgt_exp t p) (tgt_obd t) e d \<Longrightarrow> accounted (put_export t p e d)"
  unfolding accounted_short by (rule put_export_short)

section \<open>The contract of an operation\<close>

locale grant_operation =
  fixes run_op :: "'r \<Rightarrow> obd_export \<Rightarrow> obd_device \<Rightarrow> (obd_export \<times> obd_device) option"
    and allowed :: "'r \<Rightarrow> bool"
  assumes op_keeps: "allowed r \<Longrightarrow> run_op r e d = Some (e', d') \<Longrightarrow> keeps e d e' d'"
begin

lemma op_short:
  "allowed r \<Longrightarrow> short lost t \<Longrightarrow> p \<in> set (tgt_ptrs t) \<Longrightarrow>
     run_op r (tgt_exp t p) (tgt_obd t) = Some (e, d) \<Longrightarrow> short lost (put_export t p e d)"
  by (blast intro: put_export_short op_keeps)

end

text \<open>A request to the grant code: an entry point with its arguments.\<close>

datatype grant_request =
    Connect lu_env obd_connect_data bool
  | Prepare_read lu_env "obdo option"
  | Prepare_write lu_env obdo "niobuf_remote list"
  | Create lu_env "64 word"
  | Commit u64 int
  | Dealloc obdo

fun grant_run :: "grant_request \<Rightarrow> obd_export \<Rightarrow> obd_device \<Rightarrow> (obd_export \<times> obd_device) option" where
  "grant_run (Connect env data new) e d =
     map_option (\<lambda>(e, d, _). (e, d)) (tgt_grant_connect env e d data new)"
| "grant_run (Prepare_read env oa) e d =
     map_option (\<lambda>(e, d, _). (e, d)) (tgt_grant_prepare_read env e d oa)"
| "grant_run (Prepare_write env oa rnb) e d =
     map_option (\<lambda>(e, d, _). (e, d)) (tgt_grant_prepare_write env e d oa rnb)"
| "grant_run (Create env nr) e d =
     map_option (\<lambda>(_, _, e, d). (e, d)) (tgt_grant_create env e d nr)"
| "grant_run (Commit pending rc) e d = tgt_grant_commit e d pending rc"
| "grant_run (Dealloc oa) e d = Some (case tgt_grant_dealloc e d oa of (e, d, _) \<Rightarrow> (e, d))"

fun grant_allowed :: "grant_request \<Rightarrow> bool" where
  "grant_allowed (Connect env _ _) = env_quiet env"
| "grant_allowed (Prepare_read env _) = env_quiet env"
| "grant_allowed (Prepare_write env _ _) = env_quiet env"
| "grant_allowed (Create env _) = env_quiet env"
| "grant_allowed _ = True"

interpretation gop: grant_operation grant_run grant_allowed
proof
  fix r e d e' d'
  assume "grant_allowed r" "grant_run r e d = Some (e', d')"
  then show "keeps e d e' d'"
    by (cases r) (auto dest: tgt_grant_connect_keeps tgt_grant_prepare_read_keeps
        tgt_grant_prepare_write_keeps tgt_grant_create_keeps tgt_grant_commit_keeps
        tgt_grant_dealloc_keeps split: prod.split_asm)
qed

section \<open>The machine\<close>

text \<open>
  \<^verbatim>\<open>tgt_grant_discard\<close> counts the totals again when they do not cover the export, over the live exports only. \<open>left_out\<close> is what
  the other exports hold.
\<close>

definition recounts :: "target \<Rightarrow> nat \<Rightarrow> bool" where
  "recounts t p \<longleftrightarrow> tgd_tot_granted (lut_tgd (tgt_obd t)) < ted_grant (tgt_exp t p) \<or>
     tgd_tot_dirty (lut_tgd (tgt_obd t)) < ted_dirty (tgt_exp t p)"

definition left_out :: "target \<Rightarrow> u64 \<times> u64" where
  "left_out t = (let ps = obd_self_export (tgt_obd t) # obd_unlinked_exports t in
     (\<Sum>p\<leftarrow>ps. ted_grant (tgt_exp t p) + ted_pending (tgt_exp t p), \<Sum>p\<leftarrow>ps. ted_dirty (tgt_exp t p)))"

text \<open>
  Steps: a request on some export; the discard of an export; a new export with all its counters zero; an export moved to the
  unlinked list; the commit callback of a write; a change of the compatibility mode. A step is labelled with what it leaves out of the totals
  when it counts them again.
\<close>

inductive grant_step :: "target \<Rightarrow> (u64 \<times> u64) option \<Rightarrow> target \<Rightarrow> bool" where
  request: "p \<in> set (tgt_ptrs t) \<Longrightarrow> grant_allowed r \<Longrightarrow>
     grant_run r (tgt_exp t p) (tgt_obd t) = Some (e, d) \<Longrightarrow> grant_step t None (put_export t p e d)"
| discard: "p \<in> set (tgt_ptrs t) \<Longrightarrow> tgt_grant_discard t p = Some t' \<Longrightarrow>
     grant_step t (if recounts t p then Some (left_out t') else None) t'"
| new_export: "p \<notin> set (tgt_ptrs t) \<Longrightarrow> exp_ptr e = p \<Longrightarrow> ted_grant e = 0 \<Longrightarrow> ted_pending e = 0 \<Longrightarrow>
     ted_dirty e = 0 \<Longrightarrow>
     grant_step t None (t\<lparr>tgt_exp := (tgt_exp t)(p := e), obd_exports := p # obd_exports t,
       obd_num_exports := obd_num_exports t + 1\<rparr>)"
| unlink: "obd_exports t = xs @ p # ys \<Longrightarrow>
     grant_step t None (t\<lparr>obd_exports := xs @ ys, obd_unlinked_exports := p # obd_unlinked_exports t,
       obd_num_exports := obd_num_exports t - 1\<rparr>)"
| commit_cb: "tgc_exp tgc \<in> set (tgt_ptrs t) \<Longrightarrow> tgt_grant_commit_cb t tgc err = Some t' \<Longrightarrow> grant_step t None t'"
| compat_store: "grant_compat_disable_store kstrtobool (lut_tgd (tgt_obd t)) buffer count = (rc, tgd) \<Longrightarrow>
     grant_step t None (t\<lparr>tgt_obd := (tgt_obd t)\<lparr>lut_tgd := tgd\<rparr>\<rparr>)"

text \<open>A run, with what the last recount left out.\<close>

inductive grant_steps :: "target \<Rightarrow> u64 \<times> u64 \<Rightarrow> target \<Rightarrow> bool" where
  start: "grant_steps t (0, 0) t"
| step: "grant_steps t0 lost t \<Longrightarrow> grant_step t out t' \<Longrightarrow> grant_steps t0 (case out of None \<Rightarrow> lost | Some l \<Rightarrow> l) t'"

lemma tgt_grant_discard_put:
  assumes "\<not> recounts t p" and "tgt_grant_discard t p = Some t'"
  shows "\<exists>e d. t' = put_export t p e d \<and> keeps (tgt_exp t p) (tgt_obd t) e d"
proof -
  let ?e = "tgt_exp t p" and ?tgd = "lut_tgd (tgt_obd t)"
  let ?d = "(tgt_obd t)\<lparr>lut_tgd := ?tgd\<lparr>tgd_tot_granted := tgd_tot_granted ?tgd - ted_grant ?e,
    tgd_tot_dirty := tgd_tot_dirty ?tgd - ted_dirty ?e\<rparr>\<rparr>"
  have "t' = put_export t p (?e\<lparr>ted_grant := 0, ted_dirty := 0\<rparr>) ?d"
    using assms by (simp add: tgt_grant_discard_def recounts_def Let_def put_export_def)
  moreover have "keeps ?e (tgt_obd t) (?e\<lparr>ted_grant := 0, ted_dirty := 0\<rparr>) ?d"
    by (simp add: keeps_def slack_def)
  ultimately show ?thesis by blast
qed

lemma sum_list_zero_update:
  fixes g :: "obd_export \<Rightarrow> u64"
  shows "p \<notin> set ps \<Longrightarrow> (\<Sum>q\<leftarrow>ps. g ((f(p := e)) q)) = (\<Sum>q\<leftarrow>ps. g (f q))"
  by (intro arg_cong [of _ _ sum_list] map_cong) auto

lemma sum_list_same:
  fixes g :: "obd_export \<Rightarrow> u64"
  shows "(\<And>q. q \<in> set ps \<Longrightarrow> g (f q) = g (f' q)) \<Longrightarrow> (\<Sum>q\<leftarrow>ps. g (f q)) = (\<Sum>q\<leftarrow>ps. g (f' q))"
  by (intro arg_cong [of _ _ sum_list] map_cong) auto

text \<open>After a recount the totals of granted and dirty space are those of the live exports.\<close>

lemma tgt_grant_discard_recount:
  assumes "recounts t p" and "tgt_grant_discard t p = Some t'" and "short lost t"
  shows "short (left_out t') t'"
proof -
  let ?live = "obd_exports t" and ?tgd = "lut_tgd (tgt_obd t')"
  have p: "p \<notin> set ?live" using assms(1,2) by (auto simp: tgt_grant_discard_def recounts_def Let_def)
  have t': "tgt_exp t' = (tgt_exp t)(p := (tgt_exp t p)\<lparr>ted_grant := 0, ted_dirty := 0\<rparr>)" "obd_exports t' = ?live"
    "tgt_ptrs t' = tgt_ptrs t" "tgd_tot_pending ?tgd = tgd_tot_pending (lut_tgd (tgt_obd t))"
    "tgd_tot_granted ?tgd = (\<Sum>q\<leftarrow>?live. ted_grant (tgt_exp t q) + ted_pending (tgt_exp t q))"
    "tgd_tot_dirty ?tgd = (\<Sum>q\<leftarrow>?live. ted_dirty (tgt_exp t q))"
    using assms(1,2) by (auto simp: tgt_grant_discard_def recounts_def Let_def tgt_ptrs_def comp_def split: if_splits)
  have live: "(\<Sum>q\<leftarrow>?live. g (tgt_exp t' q)) = (\<Sum>q\<leftarrow>?live. g (tgt_exp t q))" for g :: "obd_export \<Rightarrow> u64"
    unfolding t'(1) by (rule sum_list_zero_update [OF p])
  have pend: "(\<Sum>q\<leftarrow>tgt_ptrs t. ted_pending (tgt_exp t' q)) = (\<Sum>q\<leftarrow>tgt_ptrs t. ted_pending (tgt_exp t q))"
    by (rule sum_list_same) (simp add: t'(1))
  have "\<forall>q\<in>set (tgt_ptrs t). exp_ptr (tgt_exp t' q) = q" using assms(3) by (simp add: short_def t'(1))
  moreover have all: "(\<Sum>q\<leftarrow>tgt_ptrs t'. g (tgt_exp t' q)) = (\<Sum>q\<leftarrow>?live. g (tgt_exp t q)) +
      (\<Sum>q\<leftarrow>obd_self_export (tgt_obd t') # obd_unlinked_exports t'. g (tgt_exp t' q))" for g :: "obd_export \<Rightarrow> u64"
    using live [of g] by (simp add: tgt_ptrs_def t'(2) algebra_simps)
  ultimately show ?thesis
    using assms(3) t'(3-6) pend all [of "\<lambda>e. ted_grant e + ted_pending e"] all [of ted_dirty]
    by (simp add: short_def left_out_def Let_def)
qed

lemma short_new_export:
  assumes "short lost t" "p \<notin> set (tgt_ptrs t)" "exp_ptr e = p" "ted_grant e = 0" "ted_pending e = 0"
    "ted_dirty e = 0"
  shows "short lost (t\<lparr>tgt_exp := (tgt_exp t)(p := e), obd_exports := p # obd_exports t,
    obd_num_exports := n\<rparr>)"
proof -
  let ?s = "obd_self_export (tgt_obd t)" and ?r = "obd_exports t @ obd_unlinked_exports t"
  have n: "p \<noteq> ?s" "p \<notin> set ?r" using assms(2) by (auto simp: tgt_ptrs_def)
  have "(\<Sum>q\<leftarrow>?r. g (((tgt_exp t)(p := e)) q)) = (\<Sum>q\<leftarrow>?r. g (tgt_exp t q))" for g :: "obd_export \<Rightarrow> u64"
    by (rule sum_list_zero_update [OF n(2)])
  from this [of "\<lambda>x. ted_grant x + ted_pending x"] this [of ted_pending] this [of ted_dirty]
  show ?thesis using assms n unfolding short_def tgt_ptrs_def by auto
qed

lemma short_unlink:
  assumes "short lost t" "obd_exports t = xs @ p # ys"
  shows "short lost (t\<lparr>obd_exports := xs @ ys, obd_unlinked_exports := p # obd_unlinked_exports t,
    obd_num_exports := n\<rparr>)"
  using assms unfolding short_def tgt_ptrs_def by (auto simp: algebra_simps)

theorem grant_step_short:
  "grant_step t out t' \<Longrightarrow> short lost t \<Longrightarrow> short (case out of None \<Rightarrow> lost | Some l \<Rightarrow> l) t'"
proof (induction rule: grant_step.induct)
  case (request p t r e d)
  then show ?case by (auto intro: gop.op_short)
next
  case (discard p t t')
  then show ?case
    using tgt_grant_discard_put [of t p t'] put_export_short [OF discard.prems discard.hyps(1)] tgt_grant_discard_recount [of t p t' lost]
    by auto
next
  case (new_export p t e)
  then show ?case using short_new_export by simp
next
  case (unlink t xs p ys)
  then show ?case using short_unlink by simp
next
  case (commit_cb tgc t err t')
  then obtain e d where "grant_run (Commit (tgc_granted tgc) err) (tgt_exp t (tgc_exp tgc)) (tgt_obd t) = Some (e, d)"
    and "t' = put_export t (tgc_exp tgc) e d"
    by (auto simp: tgt_grant_commit_cb_def put_export_def split: bind_splits)
  then show ?case using commit_cb by (auto intro: gop.op_short [of "Commit (tgc_granted tgc) err"])
next
  case (compat_store kstrtobool t buffer count rc tgd)
  then show ?case
    by (auto simp: grant_compat_disable_store_def short_def tgt_ptrs_def split: sum.splits)
qed

lemma grant_steps_short: "grant_steps t0 lost t \<Longrightarrow> accounted t0 \<Longrightarrow> short lost t"
  by (induction rule: grant_steps.induct) (simp_all add: accounted_short grant_step_short)

section \<open>The sanity check\<close>

lemma tgt_check_exports_sums:
  "tgt_check_exports es (d, p, g) maxsize = Inr (d', p', g') \<Longrightarrow>
     d' = d + (\<Sum>e\<leftarrow>es. ted_dirty e) \<and> p' = p + (\<Sum>e\<leftarrow>es. ted_pending e) \<and>
     g' = g + (\<Sum>e\<leftarrow>es. ted_grant e + ted_pending e)"
proof (induction es arbitrary: d p g)
  case (Cons e es)
  then have "tgt_check_exports es (d + ted_dirty e, p + ted_pending e,
      g + (ted_grant e + ted_pending e)) maxsize = Inr (d', p', g')"
    by (simp add: tgt_check_export_grants_def split: if_split_asm)
  from Cons.IH [OF this] show ?case by (simp add: add.assoc)
qed simp

text \<open>
  The check names a total exactly when something is missing in it, once it gets as far as comparing them.
\<close>

lemma short_sanity_check:
  assumes "short lost t" and "tgt_grant_sanity_check t = Some cs"
  shows "Tot_pending \<notin> set cs \<and> (Tot_granted \<in> set cs \<longrightarrow> fst lost \<noteq> 0) \<and> (Tot_dirty \<in> set cs \<longrightarrow> snd lost \<noteq> 0) \<and>
    (obd_exports t \<noteq> [] \<longrightarrow> obd_grant_check_threshold t = 0 \<longrightarrow>
      (Tot_granted \<in> set cs \<longleftrightarrow> fst lost \<noteq> 0) \<and> (Tot_dirty \<in> set cs \<longleftrightarrow> snd lost \<noteq> 0))"
proof -
  let ?self = "tgt_exp t (obd_self_export (tgt_obd t))"
    and ?es = "map (tgt_exp t) (obd_exports t) @ map (tgt_exp t) (obd_unlinked_exports t)"
    and ?tgd = "lut_tgd (tgt_obd t)"
  let ?start = "(ted_dirty ?self, ted_pending ?self, ted_grant ?self + ted_pending ?self)"
  let ?m = "push_bit (tgd_blockbits ?tgd) (os_blocks (tgd_osfs ?tgd))"
  show ?thesis
  proof (cases "tgt_check_exports ?es ?start ?m")
    case (Inl err)
    with assms(2) show ?thesis by (auto simp: tgt_grant_sanity_check_def Let_def split: if_split_asm)
  next
    case (Inr tot)
    obtain d p g where tot: "tot = (d, p, g)" by (rule prod_cases3)
    have "g = tgd_tot_granted ?tgd + fst lost" "p = tgd_tot_pending ?tgd" "d = tgd_tot_dirty ?tgd + snd lost"
      using tgt_check_exports_sums [OF Inr [unfolded tot]] assms(1)
      by (simp_all add: short_def tgt_ptrs_def comp_def)
    with assms(2) Inr tot show ?thesis
      unfolding tgt_grant_sanity_check_def Let_def by (auto split: if_split_asm)
  qed
qed

end
