(* ===== verification/Tgt_Grant_Bounds.thy ===== *)
theory Tgt_Grant_Bounds
  imports Tgt_Grant_Accounting
begin

text \<open>
  Bounds on grants, with every possible wrap-around of the 64-bit counters accounted for: how much a
  write request can reserve and be granted, that no \<^verbatim>\<open>LBUG\<close> of the grant code is reached from sane
  counters, and that a commit finds what its prepare reserved.
\<close>

section \<open>Reading 64-bit words\<close>

lemma sint_u64: "sint (x :: u64) = (if unat x < 2 ^ 63 then int (unat x) else int (unat x) - 2 ^ 64)"
proof -
  have b: "uint x < 2 ^ 64" using uint_lt2p [of x] by simp
  have "sint x = signed_take_bit 63 (uint x)" by (simp add: sint_uint)
  moreover have "signed_take_bit 63 (uint x) = uint x" if "uint x < 2 ^ 63"
    unfolding signed_take_bit_int_eq_self_iff using that uint_nonnegative [of x] by linarith
  moreover have "signed_take_bit 63 (uint x) = uint x - 2 ^ 64" if "\<not> uint x < 2 ^ 63"
  proof -
    have "signed_take_bit 63 (uint x) = signed_take_bit 63 (uint x - 2 ^ 64)"
      by (rule signed_take_bit_eq_iff_take_bit_eq [THEN iffD2]) (simp add: take_bit_eq_mod)
    also have "\<dots> = uint x - 2 ^ 64" using that b by (simp add: signed_take_bit_int_eq_self_iff)
    finally show ?thesis .
  qed
  moreover have "unat x < 2 ^ 63 \<longleftrightarrow> uint x < 2 ^ 63"
    using of_nat_less_iff [of "unat x" "2 ^ 63", where 'a = int] by simp
  moreover have "int (unat x) = uint x" by simp
  ultimately show ?thesis by (simp only: if_split split: if_split) argo
qed

lemma sless_u64: "(x :: u64) <s y \<longleftrightarrow> sint x < sint y"
  by (simp add: word_sless_alt)

lemma sless_pos_u64: "unat x < 2 ^ 63 \<Longrightarrow> unat y < 2 ^ 63 \<Longrightarrow> (x :: u64) <s y \<longleftrightarrow> x < y"
  by (simp add: sless_u64 sint_u64 word_less_def)

lemma sless_0_u64 [simp]: "(x :: u64) <s 0 \<longleftrightarrow> 2 ^ 63 \<le> unat x"
  using uint_lt2p [of x] by (auto simp: sless_u64 sint_u64)

section \<open>Space left\<close>

abbreviation avail_bytes :: "tg_grants_data \<Rightarrow> nat" where
  "avail_bytes tgd \<equiv> unat (push_bit (tgd_blockbits tgd) (os_bavail (tgd_osfs tgd)))"

lemma tgt_grant_space_left_bound:
  assumes "unat (tgd_tot_granted tgd) < 2 ^ 62"
  shows "tgt_grant_space_left tgd = 0 \<or>
    unat (tgd_tot_granted tgd) + unat (tgt_grant_space_left tgd) \<le> avail_bytes tgd"
proof -
  let ?left = "push_bit (tgd_blockbits tgd) (os_bavail (tgd_osfs tgd))"
  let ?res = "?left * tgd_reserved_pcnt tgd div 100"
  let ?tot = "tgd_tot_granted tgd + ?res"
  have "unat ?res < 2 ^ 62"
    using unat_u64 [of "?left * tgd_reserved_pcnt tgd"] by (simp add: unat_div less_mult_imp_div_less)
  then have tot: "unat ?tot = unat (tgd_tot_granted tgd) + unat ?res"
    using assms by (intro unat_add_u64) simp
  show ?thesis
  proof (cases "?left < ?tot")
    case True
    then show ?thesis by (simp add: tgt_grant_space_left_def)
  next
    case False
    then have "unat (?left - ?tot) = unat ?left - unat ?tot" and le: "unat ?tot \<le> unat ?left"
      by (simp_all add: not_less unat_sub word_le_nat_alt [symmetric])
    moreover have "unat (tgt_grant_space_left tgd) \<le> unat (?left - ?tot)"
      using False by (simp add: tgt_grant_space_left_def Let_def word_le_nat_alt [symmetric] word_and_le2)
    ultimately show ?thesis using tot by linarith
  qed
qed

section \<open>Checking the buffers of a write\<close>

lemma tgt_grant_check_loop_bound:
  "tgt_grant_check_loop e d skip rs (left, granted, ungr) = (rs', left', granted', ungr') \<Longrightarrow>
   unat left + unat ungr < 2 ^ 63 \<Longrightarrow> granted \<le> ted_grant e \<Longrightarrow>
   granted' \<le> ted_grant e \<and> unat left' + unat ungr' = unat left + unat ungr"
proof (induction rs arbitrary: left granted ungr rs')
  case (Cons r rs)
  let ?c = "int_bytes (tgt_grant_rnb_size (Some e) d r)" and ?b = "int_bytes (tgt_grant_rnb_size None d r)"
  let ?fg = "rnb_flags r AND OBD_BRW_FROM_GRANT \<noteq> 0"
  define st where "st = (if ?fg \<and> skip then (left, granted, ungr)
    else if ?fg \<and> ted_grant e \<ge> granted + ?c then (left, granted + ?c, ungr)
    else if left > ?b then (left - ?b, granted, ungr + ?b) else (left, granted, ungr))"
  obtain l g u where lgu: "st = (l, g, u)" by (rule prod_cases3)
  have "g \<le> ted_grant e \<and> unat l + unat u = unat left + unat ungr"
  proof (cases "left > ?b")
    case True
    then have "unat (left - ?b) = unat left - unat ?b" "unat ?b < unat left"
      by (simp_all add: unat_sub word_less_nat_alt word_le_nat_alt)
    moreover from this have "unat (ungr + ?b) = unat ungr + unat ?b"
      using Cons.prems(2) by (intro unat_add_u64) linarith
    ultimately show ?thesis using lgu Cons.prems(3) by (auto simp: st_def split: if_split_asm)
  next
    case False
    then show ?thesis using lgu Cons.prems(3) by (auto simp: st_def split: if_split_asm)
  qed
  moreover obtain rs'' where "tgt_grant_check_loop e d skip rs (l, g, u) = (rs'', left', granted', ungr')"
    using Cons.prems(1) lgu
    by (auto simp: st_def Let_def split: if_split_asm prod.split_asm)
  ultimately show ?case using Cons.IH Cons.prems(2) by metis
qed simp

text \<open>Where the loop starts, for each of the ways a request is accounted.\<close>

definition check_start :: "obd_export \<Rightarrow> obd_device \<Rightarrow> obdo \<Rightarrow> u64 \<Rightarrow> bool \<times> u64 \<times> u64 \<times> u64" where
  "check_start exp obd oa left0 =
     (if obd_recovering obd then (True, left0, 0, 0)
      else if o_valid oa AND OBD_MD_FLFLAGS \<noteq> 0 \<and> o_flags oa AND OBD_FL_RECOV_RESEND \<noteq> 0
      then (True, left0, 0, 0)
      else if exp_grant_param_supp exp \<and> o_grant_used oa > 0 then
        (if ted_grant exp \<ge> o_grant_used oa then (True, left0, o_grant_used oa, 0)
         else if left0 > o_grant_used oa - ted_grant exp
         then (True, left0 - (o_grant_used oa - ted_grant exp), ted_grant exp,
               o_grant_used oa - ted_grant exp)
         else (False, left0, 0, 0))
      else (False, left0, 0, 0))"

lemma check_start_bound:
  assumes "check_start e d oa left0 = (skip, l, g, u)"
  shows "g \<le> ted_grant e \<and> unat l + unat u = unat left0"
proof -
  let ?x = "o_grant_used oa - ted_grant e"
  have "unat (left0 - ?x) + unat ?x = unat left0" if "left0 > ?x"
    using that by (intro unat_diff_u64) simp
  then show ?thesis using assms by (auto simp: check_start_def split: if_split_asm)
qed

text \<open>
  What a check does to the counters: \<open>u\<close> bytes of ungranted space are reserved out of the space
  left; no other counter of the device changes.
\<close>

lemma tgt_grant_check_eq:
  assumes cs: "check_start e d oa left0 = (skip, l, g, u)"
    and lp: "tgt_grant_check_loop e d skip rnb (l, g, u) = (rnb', left, granted, ungr)"
    and e1: "e1 = e\<lparr>ted_grant := ted_grant e - granted, ted_pending := ted_pending e + (granted + ungr)\<rparr>"
    and ok: "counters_ok (e1\<lparr>ted_dirty := ted_dirty e - (if ted_dirty e < granted then ted_dirty e else granted)\<rparr>) = Some ()"
  shows "\<exists>x y. tgt_grant_check e d oa rnb left0 = Some (e1\<lparr>ted_dirty := x\<rparr>,
    d\<lparr>lut_tgd := (lut_tgd d)\<lparr>tgd_tot_granted := tgd_tot_granted (lut_tgd d) + ungr,
      tgd_tot_pending := tgd_tot_pending (lut_tgd d) + (granted + ungr), tgd_tot_dirty := y\<rparr>\<rparr>,
    oa\<lparr>o_grant_used := granted + ungr\<rparr>, rnb', left)"
proof (cases "obd_recovering d \<or> o_valid oa AND OBD_MD_FLGRANT = 0")
  case True
  then show ?thesis
    unfolding tgt_grant_check_def check_start_def [symmetric] cs Let_def
    using lp by (intro exI [of _ "ted_dirty e"] exI [of _ "tgd_tot_dirty (lut_tgd d)"]) (simp add: e1)
next
  case False
  let ?g = "if ted_dirty e < granted then ted_dirty e else granted"
  have "tgt_grant_check e d oa rnb left0 = Some (e1\<lparr>ted_dirty := ted_dirty e - ?g\<rparr>,
      d\<lparr>lut_tgd := (lut_tgd d)\<lparr>tgd_tot_granted := tgd_tot_granted (lut_tgd d) + ungr,
        tgd_tot_pending := tgd_tot_pending (lut_tgd d) + (granted + ungr),
        tgd_tot_dirty := tgd_tot_dirty (lut_tgd d) - ?g\<rparr>\<rparr>, oa\<lparr>o_grant_used := granted + ungr\<rparr>, rnb', left)"
    unfolding tgt_grant_check_def check_start_def [symmetric] cs Let_def
    using lp False by (simp add: e1 ok [unfolded e1] cong: if_cong split del: if_split)
  then show ?thesis by blast
qed

lemma tgt_grant_check_effect:
  assumes len: "unat (ted_grant e) + unat (ted_pending e) + unat left0 < 2 ^ 63"
    and tot: "unat (tgd_tot_granted (lut_tgd d)) + unat left0 < 2 ^ 63"
    and dirty: "unat (ted_dirty e) < 2 ^ 63"
  shows "\<exists>e' d' oa' rnb' left u. tgt_grant_check e d oa rnb left0 = Some (e', d', oa', rnb', left) \<and>
    unat left + u = unat left0 \<and>
    unat (ted_grant e') + unat (ted_pending e') = unat (ted_grant e) + unat (ted_pending e) + u \<and>
    unat (ted_grant e') \<le> unat (ted_grant e) \<and>
    unat (ted_pending e') = unat (ted_pending e) + unat (o_grant_used oa') \<and>
    unat (tgd_tot_granted (lut_tgd d')) = unat (tgd_tot_granted (lut_tgd d)) + u \<and>
    o_grant oa' = o_grant oa \<and> o_valid oa' = o_valid oa \<and>
    exp_connect_flags e' = exp_connect_flags e \<and> tgd_blockbits (lut_tgd d') = tgd_blockbits (lut_tgd d)"
proof -
  obtain skip l g u where cs: "check_start e d oa left0 = (skip, l, g, u)"
    by (metis prod_cases4)
  obtain rnb' left granted ungr
    where lp: "tgt_grant_check_loop e d skip rnb (l, g, u) = (rnb', left, granted, ungr)"
    by (metis prod_cases4)
  have b: "granted \<le> ted_grant e" "unat left + unat ungr = unat left0"
    using tgt_grant_check_loop_bound [OF lp] check_start_bound [OF cs] len by auto
  define e1 where "e1 = e\<lparr>ted_grant := ted_grant e - granted,
    ted_pending := ted_pending e + (granted + ungr)\<rparr>"
  have n: "unat (granted + ungr) = unat granted + unat ungr"
    "unat (ted_grant e - granted) = unat (ted_grant e) - unat granted" "unat granted \<le> unat (ted_grant e)"
    using b len by (simp_all add: unat_add_u64 unat_sub word_le_nat_alt)
  have p: "unat (ted_pending e + (granted + ungr)) = unat (ted_pending e) + unat (granted + ungr)"
    using n b len by (intro unat_add_u64) linarith
  have t: "unat (tgd_tot_granted (lut_tgd d) + ungr) = unat (tgd_tot_granted (lut_tgd d)) + unat ungr"
    using b tot by (intro unat_add_u64) linarith
  have small: "unat (ted_grant e1) < 2 ^ 63" "unat (ted_pending e1) < 2 ^ 63"
    using n p b len by (auto simp: e1_def)
  have "unat (ted_dirty e - (if ted_dirty e < granted then ted_dirty e else granted)) < 2 ^ 63"
    using dirty by (auto simp: unat_sub not_less)
  with small have ok: "counters_ok (e1\<lparr>ted_dirty := ted_dirty e -
      (if ted_dirty e < granted then ted_dirty e else granted)\<rparr>) = Some ()"
    by (simp add: not_le)
  from tgt_grant_check_eq [OF cs lp e1_def this] show ?thesis
    using b n p t by (elim exE) (simp add: e1_def)
qed

section \<open>Granting space\<close>

lemma ex_if:
  "(c \<Longrightarrow> \<exists>r. a = Some r \<and> P r) \<Longrightarrow> (\<not> c \<Longrightarrow> \<exists>r. b = Some r \<and> P r) \<Longrightarrow>
     \<exists>r. (if c then a else b) = Some r \<and> P r"
  by simp

lemma block_size_u64:
  assumes "b \<le> 30"
  shows "scast (push_bit b 1 :: u32) = (2 ^ b :: u64)" and "unat (2 ^ b :: u64) = 2 ^ b"
    and "(2::nat) ^ b \<le> 2 ^ 30"
proof -
  have pow: "(2::nat) ^ b \<le> 2 ^ 30" "(2::int) ^ b \<le> 2 ^ 30"
    by (rule power_increasing [OF assms]; simp)+
  then show "(2::nat) ^ b \<le> 2 ^ 30" by simp
  have "uint (2 ^ b :: u32) = 2 ^ b" and u64: "uint (2 ^ b :: u64) = 2 ^ b"
    using assms by (simp_all add: uint_2p word_gt_0 exp_eq_0_imp_not_bit)
  then have "sint (2 ^ b :: u32) = signed_take_bit 31 (2 ^ b)" by (simp add: sint_uint)
  also have "\<dots> = 2 ^ b"
    unfolding signed_take_bit_int_eq_self_iff using pow(2) order_trans [of "- (2 ^ 31)" 0 "2 ^ b :: int"] by simp
  finally show "scast (push_bit b 1 :: u32) = (2 ^ b :: u64)"
    by (simp add: scast_eq)
  show "unat (2 ^ b :: u64) = 2 ^ b" using u64 by (simp add: unat_eq_nat_uint nat_power_eq)
qed

text \<open>Rounding up to a block adds less than a block.\<close>

lemma round_up_bound:
  assumes "b \<le> 30" and "unat (x :: u64) < 2 ^ 62"
  shows "unat ((x + 2 ^ b - 1) AND NOT (push_bit b 1 - 1)) < unat x + 2 ^ b"
proof -
  note bs = block_size_u64 [OF assms(1)]
  have s: "unat (x + 2 ^ b) = unat x + 2 ^ b"
    using unat_add_u64 [of x "2 ^ b"] bs(2,3) assms(2) by simp
  have "x + 2 ^ b \<noteq> 0" using s by (metis add_is_0 power_not_zero unat_0 zero_neq_numeral)
  then have "unat (x + 2 ^ b - 1) < unat x + 2 ^ b" using s measure_unat by metis
  moreover have "unat ((x + 2 ^ b - 1) AND NOT (push_bit b 1 - 1)) \<le> unat (x + 2 ^ b - 1)"
    by (simp add: word_le_nat_alt [symmetric] word_and_le2)
  ultimately show ?thesis by linarith
qed

lemma tgt_grant_alloc_effect:
  assumes b: "tgd_blockbits (lut_tgd d) \<le> 30" and l: "unat left < 2 ^ 61" and g: "unat (ted_grant e) < 2 ^ 61"
  shows "\<exists>r. tgt_grant_alloc e d cur want left chunk con = Some r \<and>
    unat (fst r) \<le> unat left + 2 ^ tgd_blockbits (lut_tgd d) \<and> (left = 0 \<longrightarrow> fst r = 0)"
proof -
  define con' where "con' = (if obd_recovering d then False else con)"
  define left' where "left' = (if con' then drop_bit 3 left else left)"
  define g1 where "g1 = (min (want - cur) left' + scast (push_bit (tgd_blockbits (lut_tgd d)) 1 :: u32) - 1)
    AND NOT (push_bit (tgd_blockbits (lut_tgd d)) 1 - 1)"
  define g2 where "g2 = (if g1 > chunk \<and> con' then chunk else g1)"
  define wc where "wc = want + chunk"
  define gr where "gr = (if ted_grant e + g2 > wc then wc - ted_grant e else g2)"
  let ?bs = "2 ^ tgd_blockbits (lut_tgd d) :: nat"
  have "left' \<le> left"
    by (simp add: left'_def word_le_nat_alt drop_bit_eq_div unat_div)
  then have "unat (min (want - cur) left') \<le> unat left"
    by (simp add: word_le_nat_alt [symmetric] min_le_iff_disj)
  moreover from this have "unat g1 < unat (min (want - cur) left') + ?bs"
    unfolding g1_def block_size_u64(1) [OF b] using l by (intro round_up_bound b) simp
  ultimately have g1: "unat g1 < unat left + ?bs" by linarith
  have g2: "unat g2 \<le> unat g1" by (simp add: g2_def word_less_nat_alt)
  have sum: "unat (ted_grant e + g2) = unat (ted_grant e) + unat g2"
    using g1 g2 l g block_size_u64(3) [OF b] by (intro unat_add_u64) simp
  have gr: "unat gr \<le> unat g2 \<and> ted_grant e + gr \<le> wc \<and> \<not> ted_grant e + gr <s 0" if "ted_grant e < wc"
  proof (cases "ted_grant e + g2 > wc")
    case True
    have "unat (wc - ted_grant e) + unat (ted_grant e) = unat wc" using that by (simp add: unat_diff_u64)
    with True sum g1 g2 l g block_size_u64(3) [OF b] show ?thesis
      by (simp add: gr_def word_less_nat_alt)
  next
    case False
    then have "gr = g2" by (simp add: gr_def)
    with False sum g1 g2 l g block_size_u64(3) [OF b] show ?thesis by (simp add: not_less)
  qed
  show ?thesis
    unfolding tgt_grant_alloc_def Let_def con'_def [symmetric] left'_def [symmetric] g1_def [symmetric]
      g2_def [symmetric] wc_def [symmetric] gr_def [symmetric]
  proof (intro ex_if, goal_cases)
    case 7
    then show ?case using gr g1 g2 by (auto simp: not_le not_less)
  qed (auto)
qed

section \<open>Write requests\<close>

text \<open>
  The announcements of a request that do not turn a counter negative: a client without
  \<^verbatim>\<open>OBD_CONNECT_GRANT_PARAM\<close> has its values inflated, which must stay below \<open>2 ^ 63\<close>.
\<close>

definition sane_request :: "obd_export \<Rightarrow> tg_grants_data \<Rightarrow> obdo \<Rightarrow> bool" where
  "sane_request e tgd oa \<longleftrightarrow>
     (if exp_grant_param_supp e then unat (o_grant oa) < 2 ^ 63
      else unat (tgt_grant_inflate tgd (o_grant oa)) < 2 ^ 63 \<and>
        (unat (o_dirty oa) < 2 ^ 63 \<longrightarrow> unat (tgt_grant_inflate tgd (o_dirty oa)) < 2 ^ 63))"

definition incoming_dirty :: "obd_export \<Rightarrow> tg_grants_data \<Rightarrow> obdo \<Rightarrow> u64" where
  "incoming_dirty e tgd oa =
     (let dirty = (if o_dirty oa <s 0 then 0 else o_dirty oa)
      in if exp_grant_param_supp e then dirty else tgt_grant_inflate tgd dirty)"

lemma incoming_dirty_small: "sane_request e tgd oa \<Longrightarrow> unat (incoming_dirty e tgd oa) < 2 ^ 63"
  by (auto simp: incoming_dirty_def sane_request_def tgt_grant_inflate_def not_le)

lemma tgt_grant_incoming_effect:
  assumes g: "unat (ted_grant e) < 2 ^ 61" and p: "unat (ted_pending e) < 2 ^ 63"
    and d: "unat (ted_dirty e) < 2 ^ 63" and c: "unat chunk < 2 ^ 58" and s: "sane_request e (lut_tgd d) oa"
  shows "\<exists>e' d' oa' x. tgt_grant_incoming e d oa chunk = Some (e', d', oa') \<and>
    unat (ted_grant e') + x = unat (ted_grant e) \<and> ted_pending e' = ted_pending e \<and>
    unat (ted_dirty e') < 2 ^ 63 \<and> exp_connect_flags e' = exp_connect_flags e \<and>
    unat (tgd_tot_granted (lut_tgd d')) + x = unat (tgd_tot_granted (lut_tgd d)) \<and>
    tgd_blockbits (lut_tgd d') = tgd_blockbits (lut_tgd d) \<and>
    (o_valid oa' AND OBD_MD_FLGRANT \<noteq> 0 \<longrightarrow> unat (o_grant oa') < 2 ^ 63)"
proof (cases "o_valid oa AND (OBD_MD_FLBLOCKS OR OBD_MD_FLGRANT) = OBD_MD_FLBLOCKS OR OBD_MD_FLGRANT")
  case False
  then show ?thesis using d by (simp add: tgt_grant_incoming_def and.assoc)
next
  case True
  let ?tgd = "lut_tgd d"
  define oa1 where "oa1 = (if o_dirty oa <s 0 then oa\<lparr>o_dirty := 0\<rparr> else oa)"
  define oa2 where "oa2 = (if \<not> exp_grant_param_supp e
    then oa1\<lparr>o_grant := tgt_grant_inflate ?tgd (o_grant oa1), o_dirty := tgt_grant_inflate ?tgd (o_dirty oa1),
      o_undirty := cap_grant ?tgd (tgt_grant_inflate ?tgd (ucast (o_undirty oa1))),
      o_dropped := cap_grant ?tgd (tgt_grant_inflate ?tgd (ucast (o_dropped oa1)))\<rparr>
    else oa1)"
  define dropped0 where "dropped0 = (ucast (o_dropped oa2) :: u64)"
  define lim where "lim = ted_grant e + 4 * chunk"
  define dirty where "dirty = (if lim <s o_dirty oa2 then lim else o_dirty oa2)"
  define dropped1 where "dropped1 = (if ted_grant e <s dropped0 then 0 else dropped0)"
  define dropped where "dropped = (if tgd_tot_granted ?tgd < dropped1 then 0 else dropped1)"
  define e1 where "e1 = e\<lparr>ted_grant := ted_grant e - dropped, ted_dirty := dirty\<rparr>"
  have "unat (4 * chunk) = 4 * unat chunk"
    using c by (simp add: unat_word_ariths)
  then have lim: "unat lim < 2 ^ 63"
    using g c unat_add_u64 [of "ted_grant e" "4 * chunk"] by (simp add: lim_def)
  have "o_dirty oa2 = incoming_dirty e ?tgd oa"
    by (simp add: oa2_def oa1_def incoming_dirty_def Let_def)
  with lim incoming_dirty_small [OF s] have dirty: "unat dirty < 2 ^ 63" by (simp add: dirty_def)
  have "unat dropped0 < 2 ^ 32"
    using unat_u32 [of "o_dropped oa2"] by (simp add: dropped0_def unat_ucast_u32)
  then have drop: "dropped \<le> ted_grant e" "dropped \<le> tgd_tot_granted ?tgd"
    using g by (auto simp: dropped_def dropped1_def sless_pos_u64 not_less)
  have "unat (ted_grant e - dropped) < 2 ^ 63" using drop g by (simp add: unat_sub)
  with dirty p have ok: "counters_ok e1 = Some ()" by (simp add: e1_def not_le)
  have og: "unat (o_grant oa2) < 2 ^ 63"
    using s by (auto simp: oa2_def oa1_def sane_request_def)
  have "tgt_grant_incoming e d oa chunk = Some (e1, d\<lparr>lut_tgd := ?tgd\<lparr>
      tgd_tot_dirty := tgd_tot_dirty ?tgd + (dirty - ted_dirty e),
      tgd_tot_granted := tgd_tot_granted ?tgd - dropped\<rparr>\<rparr>, oa2)"
    unfolding tgt_grant_incoming_def Let_def oa1_def [symmetric] oa2_def [symmetric] dropped0_def [symmetric]
      lim_def [symmetric] dirty_def [symmetric] dropped1_def [symmetric] dropped_def [symmetric]
      e1_def [symmetric] ok using True by simp
  then show ?thesis using drop dirty og
    by (auto simp: e1_def unat_diff_u64 intro!: exI [of _ "unat dropped"])
qed

lemma tgt_grant_shrink_effect:
  assumes "unat (ted_grant e) < 2 ^ 63" and "unat (o_grant oa) < 2 ^ 63"
    and "ted_grant e \<le> tgd_tot_granted (lut_tgd d)"
  shows "\<exists>e' d' oa' x. tgt_grant_shrink e d oa left = (e', d', oa') \<and>
    unat (ted_grant e') + x = unat (ted_grant e) \<and> ted_pending e' = ted_pending e \<and>
    unat (tgd_tot_granted (lut_tgd d')) + x = unat (tgd_tot_granted (lut_tgd d))"
proof -
  define x where "x = (if ted_grant e <s o_grant oa then ted_grant e else o_grant oa)"
  have "x \<le> ted_grant e"
    using assms(1,2) by (auto simp: x_def sless_pos_u64 not_less)
  with assms(3) have "x \<le> ted_grant e" "x \<le> tgd_tot_granted (lut_tgd d)" by (auto intro: order_trans)
  then show ?thesis
    unfolding tgt_grant_shrink_def Let_def x_def [symmetric]
    by (auto simp: unat_diff_u64 intro!: exI [of _ "unat x"])
qed

text \<open>The end of a write request: shrink on demand, or grant more space.\<close>

lemma tgt_grant_write_end:
  assumes "unat (ted_grant e) < 2 ^ 61" and "unat left < 2 ^ 61"
    and "unat (tgd_tot_granted (lut_tgd d)) < 2 ^ 61" and "ted_grant e \<le> tgd_tot_granted (lut_tgd d)"
    and "tgd_blockbits (lut_tgd d) \<le> 30" and "unat (o_grant oa) < 2 ^ 63"
  shows "\<exists>e' d' oa' n m. (if shr then Some (tgt_grant_shrink e d oa left)
      else do { (grant, e, d) \<leftarrow> tgt_grant_alloc e d (o_grant oa) want left chunk True;
                Some (e, d, oa\<lparr>o_grant := grant\<rparr>) }) = Some (e', d', oa') \<and>
    ted_pending e' = ted_pending e \<and> unat (ted_grant e') + n = unat (ted_grant e) + m \<and>
    unat (tgd_tot_granted (lut_tgd d')) + n = unat (tgd_tot_granted (lut_tgd d)) + m \<and>
    m \<le> unat left + 2 ^ tgd_blockbits (lut_tgd d) \<and> (left = 0 \<longrightarrow> m = 0)"
proof (cases shr)
  case True
  from tgt_grant_shrink_effect [OF _ assms(6,4), of left] assms(1)
  obtain e' d' oa' x where "tgt_grant_shrink e d oa left = (e', d', oa')"
    "unat (ted_grant e') + x = unat (ted_grant e)" "ted_pending e' = ted_pending e"
    "unat (tgd_tot_granted (lut_tgd d')) + x = unat (tgd_tot_granted (lut_tgd d))" by auto
  with True show ?thesis
    by - (rule exI [of _ e'], rule exI [of _ d'], rule exI [of _ oa'], rule exI [of _ x], rule exI [of _ 0], simp)
next
  case False
  obtain g e' d' where al: "tgt_grant_alloc e d (o_grant oa) want left chunk True = Some (g, e', d')"
    and g: "unat g \<le> unat left + 2 ^ tgd_blockbits (lut_tgd d)" "left = 0 \<longrightarrow> g = 0"
    using tgt_grant_alloc_effect [OF assms(5,2,1), of "o_grant oa" want chunk True] by auto
  note adds = tgt_grant_alloc_adds [OF al]
  have "unat (ted_grant e + g) = unat (ted_grant e) + unat g"
    "unat (tgd_tot_granted (lut_tgd d) + g) = unat (tgd_tot_granted (lut_tgd d)) + unat g"
    using g(1) assms(1-3) block_size_u64(3) [OF assms(5)] by (auto intro!: unat_add_u64)
  with False al g adds show ?thesis
    by - (rule exI [of _ e'], rule exI [of _ d'], rule exI, rule exI [of _ 0], rule exI [of _ "unat g"], simp)
qed

theorem tgt_grant_prepare_write_effect:
  assumes q: "env_quiet env"
    and r: "tgt_grant_write_refresh env (obd_recovering d) (tgt_grant_chunk e d None) rnb 0 (lut_tgd d) =
      (left0, tgd1)"
    and t: "unat (tgd_tot_granted (lut_tgd d)) < 2 ^ 60"
    and h: "unat (ted_grant e) + unat (ted_pending e) \<le> unat (tgd_tot_granted (lut_tgd d))"
    and a: "avail_bytes tgd1 < 2 ^ 60" and b: "tgd_blockbits (lut_tgd d) \<le> 30"
    and c: "unat (tgt_grant_chunk e d None) < 2 ^ 58" and dirty: "unat (ted_dirty e) < 2 ^ 63"
    and s: "sane_request e (lut_tgd d) oa"
  shows "\<exists>e' d' oa' rnb'. tgt_grant_prepare_write env e d oa rnb = Some (e', d', oa', rnb') \<and>
    unat (ted_grant e') + unat (ted_pending e') + unat (tgd_tot_granted (lut_tgd d)) =
      unat (ted_grant e) + unat (ted_pending e) + unat (tgd_tot_granted (lut_tgd d')) \<and>
    unat (tgd_tot_granted (lut_tgd d')) \<le>
      max (unat (tgd_tot_granted (lut_tgd d))) (avail_bytes tgd1 + 2 ^ tgd_blockbits (lut_tgd d))"
proof -
  let ?T = "\<lambda>d. unat (tgd_tot_granted (lut_tgd d))" and ?bs = "2 ^ tgd_blockbits (lut_tgd d) :: nat"
    and ?chunk = "tgt_grant_chunk e d None" and ?d1 = "d\<lparr>lut_tgd := tgd1\<rparr>"
  have st: "same_totals (lut_tgd d) tgd1" "left0 = tgt_grant_space_left tgd1"
    using tgt_grant_write_refresh_totals [OF r q] by simp_all
  then have T1: "?T ?d1 = ?T d" "tgd_blockbits tgd1 = tgd_blockbits (lut_tgd d)"
    by (simp_all add: same_totals_def)
  have left0: "left0 = 0 \<or> ?T d + unat left0 \<le> avail_bytes tgd1" "unat left0 < 2 ^ 60"
    using tgt_grant_space_left_bound [of tgd1] T1 st(2) t a by auto
  have "tgt_grant_inflate tgd1 = tgt_grant_inflate (lut_tgd d)"
    using T1(2) by (simp add: fun_eq_iff tgt_grant_inflate_def)
  with s have "sane_request e tgd1 oa" by (simp only: sane_request_def)
  with tgt_grant_incoming_effect [of e ?chunk ?d1 oa] h t c dirty T1
  obtain e1 d1 oa1 x where i: "tgt_grant_incoming e ?d1 oa ?chunk = Some (e1, d1, oa1)"
    and e1: "unat (ted_grant e1) + x = unat (ted_grant e)" "ted_pending e1 = ted_pending e"
      "unat (ted_dirty e1) < 2 ^ 63" "?T d1 + x = ?T d" "tgd_blockbits (lut_tgd d1) = tgd_blockbits (lut_tgd d)"
      "o_valid oa1 AND OBD_MD_FLGRANT \<noteq> 0 \<longrightarrow> unat (o_grant oa1) < 2 ^ 63" by auto
  have "unat (ted_grant e1) + unat (ted_pending e1) + unat left0 < 2 ^ 63" "?T d1 + unat left0 < 2 ^ 63"
    using e1 h t left0(2) by simp_all
  from tgt_grant_check_effect [OF this e1(3), of oa1 rnb]
  obtain e2 d2 oa2 rnb2 left u
    where ck: "tgt_grant_check e1 d1 oa1 rnb left0 = Some (e2, d2, oa2, rnb2, left)"
      and e2: "unat left + u = unat left0"
        "unat (ted_grant e2) + unat (ted_pending e2) = unat (ted_grant e1) + unat (ted_pending e1) + u"
        "unat (ted_grant e2) \<le> unat (ted_grant e1)" "?T d2 = ?T d1 + u" "o_grant oa2 = o_grant oa1"
        "o_valid oa2 = o_valid oa1" "tgd_blockbits (lut_tgd d2) = tgd_blockbits (lut_tgd d1)" by blast
  show ?thesis
  proof (cases "o_valid oa2 AND OBD_MD_FLGRANT = 0")
    case True
    have "?T d2 \<le> max (?T d) (avail_bytes tgd1 + ?bs)" using e1 e2 left0 by auto
    with True i ck r e1 e2 show ?thesis by (simp add: tgt_grant_prepare_write_def)
  next
    case False
    have "unat (ted_grant e2) < 2 ^ 61" "unat left < 2 ^ 61" "?T d2 < 2 ^ 61"
      "ted_grant e2 \<le> tgd_tot_granted (lut_tgd d2)" "tgd_blockbits (lut_tgd d2) \<le> 30"
      "unat (o_grant oa2) < 2 ^ 63"
      using e1 e2 h t left0(2) b False by (auto simp: word_le_nat_alt)
    from tgt_grant_write_end [OF this, of
        "o_valid oa2 AND OBD_MD_FLFLAGS \<noteq> 0 \<and> o_flags oa2 AND OBD_FL_SHRINK_GRANT \<noteq> 0"
        "ucast (o_undirty oa2)" ?chunk]
    obtain e3 d3 oa3 n m where en:
      "(if o_valid oa2 AND OBD_MD_FLFLAGS \<noteq> 0 \<and> o_flags oa2 AND OBD_FL_SHRINK_GRANT \<noteq> 0
        then Some (tgt_grant_shrink e2 d2 oa2 left)
        else do { (grant, e, d) \<leftarrow> tgt_grant_alloc e2 d2 (o_grant oa2) (ucast (o_undirty oa2)) left ?chunk True;
                  Some (e, d, oa2\<lparr>o_grant := grant\<rparr>) }) = Some (e3, d3, oa3)"
      and e3: "ted_pending e3 = ted_pending e2" "unat (ted_grant e3) + n = unat (ted_grant e2) + m"
        "?T d3 + n = ?T d2 + m" "m \<le> unat left + 2 ^ tgd_blockbits (lut_tgd d2)" "left = 0 \<longrightarrow> m = 0" by blast
    have "\<exists>oa4. tgt_grant_prepare_write env e d oa rnb = Some (e3, d3, oa4, rnb2)"
      unfolding tgt_grant_prepare_write_def Let_def r prod.case i
      using False en by (simp add: ck split del: if_split)
    moreover have "?T d3 \<le> max (?T d) (avail_bytes tgd1 + ?bs)"
      using e1 e2 e3 left0 by (cases "left0 = 0") (auto simp: unat_eq_zero)
    ultimately show ?thesis using e1 e2 e3 by auto
  qed
qed

end
