(* ===== verification/Tgt_Grant_Properties.thy ===== *)
theory Tgt_Grant_Properties
  imports Tgt_Grant_Machine Tgt_Grant_Bounds
begin

text \<open>
  What grant accounting guarantees: exact totals in every reachable state, bounded over-commitment,
  commits that never stop the server, buffers whose reservation covers every block they touch, and
  statistics that take concurrent writes into account; and two requests that break the counters.
\<close>

section \<open>Sums without wrap-around\<close>

lemma unat_sum_list:
  fixes f :: "'a \<Rightarrow> u64"
  shows "(\<Sum>x\<leftarrow>xs. unat (f x)) < 2 ^ 63 \<Longrightarrow> unat (\<Sum>x\<leftarrow>xs. f x) = (\<Sum>x\<leftarrow>xs. unat (f x))"
proof (induction xs)
  case (Cons x xs)
  then have "unat (\<Sum>x\<leftarrow>xs. f x) = (\<Sum>x\<leftarrow>xs. unat (f x))" by simp
  with Cons.prems show ?case by (simp add: unat_add_u64)
qed simp

text \<open>The space the exports of a target hold, as a number that may exceed 64 bits.\<close>

definition held :: "target \<Rightarrow> nat" where
  "held t = (\<Sum>p\<leftarrow>tgt_ptrs t. unat (ted_grant (tgt_exp t p)) + unat (ted_pending (tgt_exp t p)))"

lemma sum_list_split_nat: "(\<Sum>x\<leftarrow>xs. f x + g x) = (\<Sum>x\<leftarrow>xs. f x) + (\<Sum>x\<leftarrow>xs. g x :: nat)"
  by (induction xs) auto

lemma member_le_sum_list_nat: "x \<in> set xs \<Longrightarrow> f x \<le> (\<Sum>x\<leftarrow>xs. f x :: nat)"
  by (induction xs) auto

lemma accounted_held:
  assumes "accounted t" and "held t < 2 ^ 63"
  shows "unat (tgd_tot_granted (lut_tgd (tgt_obd t))) = held t"
    and "p \<in> set (tgt_ptrs t) \<Longrightarrow> ted_pending (tgt_exp t p) \<le> tgd_tot_pending (lut_tgd (tgt_obd t))"
    and "p \<in> set (tgt_ptrs t) \<Longrightarrow> ted_pending (tgt_exp t p) \<le> tgd_tot_granted (lut_tgd (tgt_obd t))"
    and "p \<in> set (tgt_ptrs t) \<Longrightarrow> ted_grant (tgt_exp t p) \<le> tgd_tot_granted (lut_tgd (tgt_obd t))"
proof -
  let ?g = "\<lambda>p. ted_grant (tgt_exp t p)" and ?p = "\<lambda>p. ted_pending (tgt_exp t p)"
  have split: "(\<Sum>p\<leftarrow>tgt_ptrs t. ?g p + ?p p) = (\<Sum>p\<leftarrow>tgt_ptrs t. ?g p) + (\<Sum>p\<leftarrow>tgt_ptrs t. ?p p)"
    by (rule sum_list_addf)
  have h: "held t = (\<Sum>p\<leftarrow>tgt_ptrs t. unat (?g p)) + (\<Sum>p\<leftarrow>tgt_ptrs t. unat (?p p))"
    by (simp add: held_def sum_list_split_nat)
  have g: "unat (\<Sum>p\<leftarrow>tgt_ptrs t. ?g p) = (\<Sum>p\<leftarrow>tgt_ptrs t. unat (?g p))"
    and p: "unat (\<Sum>p\<leftarrow>tgt_ptrs t. ?p p) = (\<Sum>p\<leftarrow>tgt_ptrs t. unat (?p p))"
    using assms(2) h by (auto intro!: unat_sum_list)
  show tot: "unat (tgd_tot_granted (lut_tgd (tgt_obd t))) = held t"
    using assms g p h split by (simp add: accounted_def unat_add_u64)
  assume m: "p \<in> set (tgt_ptrs t)"
  show "ted_pending (tgt_exp t p) \<le> tgd_tot_pending (lut_tgd (tgt_obd t))"
    using assms(1) p member_le_sum_list_nat [OF m, of "\<lambda>p. unat (?p p)"]
    by (simp add: accounted_def word_le_nat_alt)
  show "ted_pending (tgt_exp t p) \<le> tgd_tot_granted (lut_tgd (tgt_obd t))"
    "ted_grant (tgt_exp t p) \<le> tgd_tot_granted (lut_tgd (tgt_obd t))"
    using tot h member_le_sum_list_nat [OF m, of "\<lambda>p. unat (?p p)"]
      member_le_sum_list_nat [OF m, of "\<lambda>p. unat (?g p)"] by (simp_all add: word_le_nat_alt)
qed

lemma sum_list_update_nat:
  fixes f :: "nat \<Rightarrow> nat"
  shows "distinct ps \<Longrightarrow> p \<in> set ps \<Longrightarrow>
    (\<Sum>q\<leftarrow>ps. if q = p then x else f q) + f p = (\<Sum>q\<leftarrow>ps. f q) + x"
proof (induction ps)
  case (Cons q ps)
  show ?case
  proof (cases "q = p")
    case True
    with Cons.prems have "(\<Sum>q\<leftarrow>ps. if q = p then x else f q) = (\<Sum>q\<leftarrow>ps. f q)"
      by (intro arg_cong [of _ _ sum_list] map_cong) auto
    with True show ?thesis by simp
  next
    case False
    with Cons show ?thesis by simp
  qed
qed simp

lemma held_put_export:
  assumes "accounted t" and "p \<in> set (tgt_ptrs t)" and "keeps (tgt_exp t p) (tgt_obd t) e d"
  shows "held (put_export t p e d) + (unat (ted_grant (tgt_exp t p)) + unat (ted_pending (tgt_exp t p))) =
    held t + (unat (ted_grant e) + unat (ted_pending e))"
proof -
  have ps: "tgt_ptrs (put_export t p e d) = tgt_ptrs t"
    using assms(3) by (simp add: tgt_ptrs_def put_export_def keeps_def)
  let ?f = "\<lambda>x. unat (ted_grant x) + unat (ted_pending x)"
  have "?f (tgt_exp (put_export t p e d) q) = (if q = p then ?f e else ?f (tgt_exp t q))" for q
    by (simp add: put_export_def)
  then show ?thesis
    using sum_list_update_nat [of "tgt_ptrs t" p "?f e" "\<lambda>q. ?f (tgt_exp t q)"] assms(1,2)
    by (simp add: held_def ps accounted_def)
qed

section \<open>Sizes of buffers\<close>

lemma and_block_mask: "unat ((x :: u64) AND (push_bit b 1 - 1)) = unat x mod 2 ^ b"
proof -
  have "x AND (push_bit b 1 - 1) = take_bit b x"
    by (simp add: take_bit_eq_mask mask_eq_exp_minus_1)
  then have "unat (x AND (push_bit b 1 - 1)) = take_bit b (unat x)"
    by (simp only: unsigned_take_bit_eq)
  then show ?thesis by (simp only: take_bit_eq_mod)
qed

text \<open>The number of blocks a buffer touches.\<close>

definition blocks_touched :: "nat \<Rightarrow> niobuf_remote \<Rightarrow> nat" where
  "blocks_touched b r = (unat (rnb_offset r) mod 2 ^ b + unat (rnb_len r) + 2 ^ b - 1) div 2 ^ b"

lemma round_up_mult:
  fixes n m :: nat
  assumes "0 < m"
  shows "n + (if n mod m \<noteq> 0 then m - n mod m else 0) = m * ((n + m - 1) div m)"
proof (cases "n mod m = 0")
  case True
  then obtain k where "n = m * k" by (auto simp: dvd_def mod_eq_0_iff_dvd)
  have "(m * k + m - 1) div m = k" using assms by (intro div_nat_eqI) simp_all
  with \<open>n = m * k\<close> show ?thesis by simp
next
  case False
  define k r where "k = n div m" and "r = n mod m"
  have n: "n = m * k + r" "0 < r" "r < m" using False assms by (simp_all add: k_def r_def)
  have "(n + m - 1) div m = Suc k" using n by (intro div_nat_eqI) simp_all
  with n show ?thesis by (simp add: r_def [symmetric])
qed

text \<open>
  The space reserved on the server for a network buffer covers every block the buffer touches,
  whatever its offset and length.
\<close>

theorem grant_rnb_size_covers:
  assumes b: "tgd_blockbits (lut_tgd d) \<le> 30"
  shows "2 ^ tgd_blockbits (lut_tgd d) * blocks_touched (tgd_blockbits (lut_tgd d)) r \<le>
    unat (tgt_grant_rnb_size None d r)"
proof -
  let ?b = "tgd_blockbits (lut_tgd d)"
  define bs where "bs = (push_bit ?b 1 :: u64)"
  have bs: "unat bs = 2 ^ ?b" "(2::nat) ^ ?b \<le> 2 ^ 30"
    using block_size_u64(2,3) [OF b] by (simp_all add: bs_def)
  define n where "n = unat (rnb_offset r) mod 2 ^ ?b + unat (rnb_len r)"
  define b0 where "b0 = (rnb_offset r AND (bs - 1)) + ucast (rnb_len r)"
  define e where "e = b0 AND (bs - 1)"
  define b1 where "b1 = (if e \<noteq> 0 then b0 + (bs - e) else b0)"
  have n: "n < 2 ^ 30 + 2 ^ 32"
  proof -
    have "unat (rnb_offset r) mod 2 ^ ?b < 2 ^ ?b" by simp
    with bs(2) unat_u32 [of "rnb_len r"] show ?thesis unfolding n_def by linarith
  qed
  have b0: "unat b0 = n"
    using n and_block_mask [of "rnb_offset r" ?b] unat_ucast_u32 [of "rnb_len r"]
    by (simp add: b0_def bs_def n_def unat_add_u64)
  have e: "unat e = n mod 2 ^ ?b" using and_block_mask [of b0 ?b] b0 by (simp add: e_def bs_def)
  have "unat (bs - e) + unat e = unat bs"
    by (rule unat_diff_u64) (use e bs in \<open>simp add: word_le_nat_alt less_imp_le\<close>)
  then have "unat (bs - e) = 2 ^ ?b - n mod 2 ^ ?b" using e bs by linarith
  with b0 n bs(2) have "unat (b0 + (bs - e)) = n + (2 ^ ?b - n mod 2 ^ ?b)"
    by (subst unat_add_u64) simp_all
  then have b1: "unat b1 = n + (if n mod 2 ^ ?b \<noteq> 0 then 2 ^ ?b - n mod 2 ^ ?b else 0)"
    using e b0 unat_eq_zero [of e] by (simp add: b1_def)
  then have cover: "unat b1 = 2 ^ ?b * blocks_touched ?b r"
    using round_up_mult [of "2 ^ ?b" n] by (simp add: blocks_touched_def n_def)
  have small: "unat b1 < 2 ^ 34" using b1 n bs(2) by (auto split: if_split_asm)
  define tax where "tax = (ucast (ucast ((b1 + bs * ucast (ddp_max_extent_blks (lut_dt_conf d)) - 1) div
      (bs * ucast (ddp_max_extent_blks (lut_dt_conf d)))) * ddp_extent_tax (lut_dt_conf d) :: u32) :: u64)"
  have "unat tax < 2 ^ 32" unfolding tax_def unat_ucast_u32 by (rule unat_u32)
  with small have "unat (b1 + tax) = unat b1 + unat tax" by (intro unat_add_u64) simp
  moreover have "tgt_grant_rnb_size None d r = b1 + tax"
    unfolding tgt_grant_rnb_size_def Let_def tax_def b1_def e_def b0_def bs_def by simp
  ultimately show ?thesis using cover by simp
qed

section \<open>Commits while the statistics are read\<close>

fun commit_run :: "(obd_export \<times> u64) list \<Rightarrow> obd_device \<Rightarrow> obd_device option" where
  "commit_run [] d = Some d"
| "commit_run ((e, pending) # cs) d =
     (case tgt_grant_commit e d pending 0 of None \<Rightarrow> None | Some (_, d') \<Rightarrow> commit_run cs d')"

lemma tgt_grant_commit_inflight:
  assumes "tgt_grant_commit e d pending 0 = Some (e', d')" and "0 < tgd_statfs_inflight (lut_tgd d)"
  shows "tgd_osfs_inflight (lut_tgd d') = tgd_osfs_inflight (lut_tgd d) + pending"
    and "tgd_statfs_inflight (lut_tgd d') = tgd_statfs_inflight (lut_tgd d)"
    and "tgd_blockbits (lut_tgd d') = tgd_blockbits (lut_tgd d)"
  using assms by (auto simp: tgt_grant_commit_def Let_def split: if_split_asm)

lemma commit_run_inflight:
  "commit_run cs d = Some d' \<Longrightarrow> 0 < tgd_statfs_inflight (lut_tgd d) \<Longrightarrow>
     tgd_osfs_inflight (lut_tgd d') = tgd_osfs_inflight (lut_tgd d) + (\<Sum>c\<leftarrow>cs. snd c) \<and>
     tgd_blockbits (lut_tgd d') = tgd_blockbits (lut_tgd d)"
proof (induction cs arbitrary: d)
  case (Cons c cs)
  obtain e pending where c: "c = (e, pending)" by fastforce
  with Cons.prems(1) obtain e1 d1 where c1: "tgt_grant_commit e d pending 0 = Some (e1, d1)"
    "commit_run cs d1 = Some d'" by (auto split: option.split_asm)
  from Cons.IH [OF c1(2)] tgt_grant_commit_inflight [OF c1(1) Cons.prems(2)] Cons.prems(2) c
  show ?case by (simp add: add.assoc)
qed simp

lemma tgt_grant_commit_Some:
  assumes "pending \<le> ted_pending e" and "pending \<le> tgd_tot_granted (lut_tgd d)"
    and "pending \<le> tgd_tot_pending (lut_tgd d)"
  shows "\<exists>d'. tgt_grant_commit e d pending rc = Some (e\<lparr>ted_pending := ted_pending e - pending\<rparr>, d')"
  using assms by (simp add: tgt_grant_commit_def Let_def leD)

section \<open>Examples\<close>

definition example_tgd :: tg_grants_data where
  "example_tgd = \<lparr>tgd_tot_dirty = 0, tgd_tot_granted = 0x140000, tgd_tot_pending = 0x40000, tgd_reserved_pcnt = 0,
     tgd_tot_granted_clients = 1, tgd_grant_compat_disable = False, tgd_osfs_age = 0, tgd_blockbits = 17,
     tgd_statfs_inflight = 0, tgd_osfs_unstable = 0, tgd_osfs_inflight = 0,
     tgd_osfs = \<lparr>os_blocks = 0x100000, os_bfree = 0x80000, os_bavail = 0x80000, os_namelen = 255\<rparr>\<rparr>"

definition example_obd :: obd_device where
  "example_obd = \<lparr>obd_self_export = 1, obd_recovering = False, obd_fail_no_grant = False,
     lbug_on_grant_miscount = True,
     lut_dt_conf = \<lparr>ddp_inodespace = 512, ddp_max_extent_blks = 32768, ddp_extent_tax = 131072\<rparr>,
     lut_tgd = example_tgd\<rparr>"

definition example_exp :: "nat \<Rightarrow> u64 \<Rightarrow> obd_export" where
  "example_exp p flags = \<lparr>exp_ptr = p, exp_connect_flags = flags, exp_ocd_brw_size = 0x400000,
     exp_failed = False, exp_disconnected = False, ted_dirty = 0,
     ted_grant = (if p = 2 then 0x100000 else 0), ted_pending = (if p = 2 then 0x40000 else 0)\<rparr>"

definition example_oa :: obdo where
  "example_oa = \<lparr>o_valid = OBD_MD_FLBLOCKS OR OBD_MD_FLGRANT, o_flags = 0, o_dirty = 0x1000,
     o_grant = 0x1000, o_undirty = 0x200000, o_dropped = 0, o_grant_used = 0\<rparr>"

definition example_env :: lu_env where
  "example_env = \<lparr>env_statfs = (\<lambda>_ tgd. (0, tgd_osfs tgd, tgd)), env_now = (\<lambda>_. 100), env_sync = (\<lambda>tgd. tgd)\<rparr>"

definition example_target :: target where
  "example_target = \<lparr>tgt_obd = example_obd, tgt_exp = (\<lambda>p. example_exp p OBD_CONNECT_GRANT_PARAM),
     obd_exports = [2], obd_unlinked_exports = [], obd_num_exports = 1, obd_grant_check_threshold = 100\<rparr>"

lemmas example_defs = example_tgd_def example_obd_def example_exp_def example_oa_def example_env_def
  example_target_def

lemmas grant_flags = OBD_MD_FLBLOCKS_def OBD_MD_FLGRANT_def OBD_MD_FLFLAGS_def OBD_CONNECT_GRANT_PARAM_def
  OBD_CONNECT_BRW_SIZE_def OBD_FL_SHRINK_GRANT_def OBD_FL_RECOV_RESEND_def COMPAT_BSIZE_SHIFT_def
  ONE_MB_BRW_SIZE_def

lemma example_accounted: "accounted example_target"
  by (simp add: accounted_def tgt_ptrs_def example_defs)

section \<open>Properties\<close>

text \<open>
  C6: In every run of connects, reads, writes, creates, commits, deallocations, discards, new and unlinked exports, from a target
  whose totals are the sums over its exports, they stay the sums, whatever the clients announce, until a discard counts the totals again.
  After that they are short of the sums by exactly what the self export and the unlinked exports held at the last recount, which covers
  the live exports only. The sanity check never reports the pending total, and it reports
  the granted or dirty total only, and if it compares them exactly, when something is missing. No other thread changes the totals
  while the storage layer computes its statistics. The arithmetic is that of the machine.
\<close>

theorem grant_totals_exact:
  assumes "accounted t0" and "grant_steps t0 lost t" and "tgt_grant_sanity_check t = Some cs"
  shows "short lost t \<and> Tot_pending \<notin> set cs \<and> (Tot_granted \<in> set cs \<longrightarrow> fst lost \<noteq> 0) \<and> (Tot_dirty \<in> set cs \<longrightarrow> snd lost \<noteq> 0) \<and>
    (obd_exports t \<noteq> [] \<longrightarrow> obd_grant_check_threshold t = 0 \<longrightarrow>
      (Tot_granted \<in> set cs \<longleftrightarrow> fst lost \<noteq> 0) \<and> (Tot_dirty \<in> set cs \<longleftrightarrow> snd lost \<noteq> 0))"
  using grant_steps_short [OF assms(2,1)] short_sanity_check [OF _ assms(3)] by blast

text \<open>Export 2 gives back one byte more than it was granted, is unlinked and discarded, while export 3 is connected.\<close>

definition recount_start :: target where
  "recount_start = example_target\<lparr>obd_exports := [2, 3], obd_num_exports := 2, obd_grant_check_threshold := 0\<rparr>"

definition over_oa :: obdo where
  "over_oa = example_oa\<lparr>o_grant := 0x100001\<rparr>"

definition recount_dealloc :: target where
  "recount_dealloc = (case tgt_grant_dealloc (tgt_exp recount_start 2) (tgt_obd recount_start) over_oa of
     (e, d, _) \<Rightarrow> put_export recount_start 2 e d)"

definition recount_unlinked :: target where
  "recount_unlinked = recount_dealloc\<lparr>obd_exports := [3], obd_unlinked_exports := [2], obd_num_exports := 1\<rparr>"

definition recount_end :: target where
  "recount_end = the (tgt_grant_discard recount_unlinked 2)"

lemma recount_steps: "grant_steps recount_start (0x40000, 0) recount_end"
proof -
  obtain e d oa where x: "tgt_grant_dealloc (tgt_exp recount_start 2) (tgt_obd recount_start) over_oa = (e, d, oa)" by (metis prod_cases3)
  have "2 \<in> set (tgt_ptrs recount_start)" by code_simp
  then have "grant_step recount_start None (put_export recount_start 2 e d)" by (rule grant_step.request [of _ _ "Dealloc over_oa"]) (simp_all add: x)
  then have 1: "grant_step recount_start None recount_dealloc" by (simp add: recount_dealloc_def x)
  have "obd_exports recount_dealloc = [] @ 2 # [3]" by code_simp
  note u = grant_step.unlink [OF this]
  have "obd_unlinked_exports recount_dealloc = []" "obd_num_exports recount_dealloc = 2" by code_simp+
  then have 2: "grant_step recount_dealloc None recount_unlinked" using u by (simp add: recount_unlinked_def)
  have p: "2 \<in> set (tgt_ptrs recount_unlinked)" by code_simp
  have "\<not> Option.is_none (tgt_grant_discard recount_unlinked 2)" by code_simp
  then have "tgt_grant_discard recount_unlinked 2 = Some recount_end" unfolding recount_end_def by (cases "tgt_grant_discard recount_unlinked 2") simp_all
  note d = grant_step.discard [OF p this]
  have "recounts recount_unlinked 2" "left_out recount_end = (0x40000, 0)" by code_simp+
  then have 3: "grant_step recount_unlinked (Some (0x40000, 0)) recount_end" using d by simp
  show ?thesis using grant_steps.step [OF grant_steps.step [OF grant_steps.step [OF grant_steps.start 1] 2] 3] by simp
qed

theorem grant_totals_exact_witness:
  "short (0x40000, 0) recount_end \<and> (\<exists>cs. tgt_grant_sanity_check recount_end = Some cs \<and> Tot_granted \<in> set cs)"
proof -
  have acc: "accounted recount_start" by (simp add: accounted_def tgt_ptrs_def recount_start_def example_defs)
  have "tgt_grant_sanity_check recount_end = Some [Tot_granted]" by code_simp
  from grant_totals_exact [OF acc recount_steps this] this show ?thesis by simp
qed

text \<open>
  C14: A write request from sane counters is processed without reaching an assertion; the totals stay
  the exact sums over the exports; and the space that all exports hold together (granted plus
  pending, counted without wrap-around) never exceeds the available space by more than one block,
  unless it was already larger.
\<close>

theorem grant_write_bounded:
  assumes "accounted t" and "held t < 2 ^ 60" and "p \<in> set (tgt_ptrs t)" and "env_quiet env"
    and "tgt_grant_write_refresh env (obd_recovering (tgt_obd t))
      (tgt_grant_chunk (tgt_exp t p) (tgt_obd t) None) rnb 0 (lut_tgd (tgt_obd t)) = (left0, tgd1)"
    and "avail_bytes tgd1 < 2 ^ 60" and "tgd_blockbits (lut_tgd (tgt_obd t)) \<le> 30"
    and "unat (tgt_grant_chunk (tgt_exp t p) (tgt_obd t) None) < 2 ^ 58"
    and "unat (ted_dirty (tgt_exp t p)) < 2 ^ 63"
    and "sane_request (tgt_exp t p) (lut_tgd (tgt_obd t)) oa"
  shows "\<exists>e d oa' rnb'. tgt_grant_prepare_write env (tgt_exp t p) (tgt_obd t) oa rnb = Some (e, d, oa', rnb') \<and>
    accounted (put_export t p e d) \<and>
    held (put_export t p e d) \<le>
      max (held t) (avail_bytes tgd1 + 2 ^ tgd_blockbits (lut_tgd (tgt_obd t)))"
proof -
  let ?T = "unat (tgd_tot_granted (lut_tgd (tgt_obd t)))"
  have tot: "?T = held t" using accounted_held(1) [OF assms(1)] assms(2) by simp
  have "unat (ted_grant (tgt_exp t p)) + unat (ted_pending (tgt_exp t p)) \<le> ?T"
    using tot member_le_sum_list_nat [OF assms(3)] by (simp add: held_def)
  from tgt_grant_prepare_write_effect [OF assms(4,5) _ this assms(6-10)] tot assms(2)
  obtain e d oa' rnb' where w: "tgt_grant_prepare_write env (tgt_exp t p) (tgt_obd t) oa rnb = Some (e, d, oa', rnb')"
    and eq: "unat (ted_grant e) + unat (ted_pending e) + held t =
      unat (ted_grant (tgt_exp t p)) + unat (ted_pending (tgt_exp t p)) + unat (tgd_tot_granted (lut_tgd d))"
    and le: "unat (tgd_tot_granted (lut_tgd d)) \<le>
      max (held t) (avail_bytes tgd1 + 2 ^ tgd_blockbits (lut_tgd (tgt_obd t)))" by auto
  note k = tgt_grant_prepare_write_keeps [OF assms(4) w]
  have "held (put_export t p e d) + (unat (ted_grant (tgt_exp t p)) + unat (ted_pending (tgt_exp t p))) =
      held t + (unat (ted_grant e) + unat (ted_pending e))"
    using held_put_export [OF assms(1,3) k] .
  with eq have "held (put_export t p e d) = unat (tgd_tot_granted (lut_tgd d))" by linarith
  with w le put_export_accounted [OF assms(1,3) k] show ?thesis by auto
qed

theorem grant_write_bounded_witness:
  "\<exists>e d oa' rnb'. tgt_grant_prepare_write example_env (tgt_exp example_target 2) example_obd
      example_oa [] = Some (e, d, oa', rnb') \<and> accounted (put_export example_target 2 e d)"
proof -
  let ?e = "tgt_exp example_target 2" and ?d = "tgt_obd example_target"
  obtain left0 tgd1 where r: "tgt_grant_write_refresh example_env (obd_recovering ?d)
      (tgt_grant_chunk ?e ?d None) [] 0 (lut_tgd ?d) = (left0, tgd1)" by fastforce
  have q: "env_quiet example_env" by (simp add: env_quiet_def example_env_def)
  have "tgd_osfs tgd1 = tgd_osfs example_tgd" "tgd_blockbits tgd1 = 17"
    using r
    by (auto simp: tgt_grant_write_refresh.simps env_grant_statfs_def tgt_grant_statfs_def
        tgt_statfs_internal_def tgt_statfs_begin_def tgt_statfs_end_def example_defs NAME_MAX_def
        OBD_STATFS_CACHE_SECONDS_def Let_def split: if_split_asm)
  then have "avail_bytes tgd1 < 2 ^ 60" by (simp add: example_tgd_def)
  moreover have "unat (tgt_grant_chunk ?e ?d None) < 2 ^ 58"
    by (simp add: tgt_grant_chunk_def exp_max_brw_size_def exp_grant_param_supp_def example_defs grant_flags)
  moreover have "held example_target < 2 ^ 60" by (simp add: held_def tgt_ptrs_def example_defs)
  moreover have "2 \<in> set (tgt_ptrs example_target)" by (simp add: tgt_ptrs_def example_target_def)
  moreover have "sane_request ?e (lut_tgd ?d) example_oa" "tgd_blockbits (lut_tgd ?d) \<le> 30"
    "unat (ted_dirty ?e) < 2 ^ 63"
    by (simp_all add: sane_request_def exp_grant_param_supp_def example_defs grant_flags)
  moreover have "tgt_obd example_target = example_obd" by (simp add: example_target_def)
  ultimately show ?thesis
    using grant_write_bounded [OF example_accounted _ _ q r, where oa = example_oa] by auto
qed

text \<open>
  C25: Committing what is pending on an export never stops the server: from exact totals that do not
  wrap around, releasing at most the pending amount succeeds, keeps the totals exact and
  lowers the held space by exactly that amount.
\<close>

theorem grant_commit_succeeds:
  assumes "accounted t" and "held t < 2 ^ 63" and "p \<in> set (tgt_ptrs t)"
    and "pending \<le> ted_pending (tgt_exp t p)"
  shows "\<exists>e d. tgt_grant_commit (tgt_exp t p) (tgt_obd t) pending rc = Some (e, d) \<and>
    accounted (put_export t p e d) \<and> held (put_export t p e d) + unat pending = held t"
proof -
  note h = accounted_held [OF assms(1,2)]
  have le: "pending \<le> tgd_tot_pending (lut_tgd (tgt_obd t))"
    "pending \<le> tgd_tot_granted (lut_tgd (tgt_obd t))"
    using h(2,3) [OF assms(3)] assms(4) by (auto intro: order_trans)
  let ?e = "(tgt_exp t p)\<lparr>ted_pending := ted_pending (tgt_exp t p) - pending\<rparr>"
  obtain d where c: "tgt_grant_commit (tgt_exp t p) (tgt_obd t) pending rc = Some (?e, d)"
    using tgt_grant_commit_Some [OF assms(4) le(2,1)] by blast
  note k = tgt_grant_commit_keeps [OF c]
  from held_put_export [OF assms(1,3) k] unat_diff_u64 [OF assms(4)]
  have "held (put_export t p ?e d) + unat pending = held t" by simp
  with c put_export_accounted [OF assms(1,3) k] show ?thesis by blast
qed

theorem grant_commit_succeeds_witness:
  "\<exists>e d. tgt_grant_commit (tgt_exp example_target 2) example_obd 0x40000 0 = Some (e, d) \<and>
     accounted (put_export example_target 2 e d)"
  using grant_commit_succeeds [OF example_accounted, where p = 2 and pending = "0x40000" and rc = 0]
  by (auto simp: held_def tgt_ptrs_def example_defs)

theorem grant_rnb_size_covers_witness:
  "2 ^ 17 * 2 \<le> unat (tgt_grant_rnb_size None example_obd
     \<lparr>rnb_offset = 0x1ffff, rnb_len = 2, rnb_flags = 0\<rparr>)"
  using grant_rnb_size_covers [of example_obd "\<lparr>rnb_offset = 0x1ffff, rnb_len = 2, rnb_flags = 0\<rparr>"]
  by (simp add: blocks_touched_def example_obd_def example_tgd_def)

text \<open>
  Writes committed while the storage layer computes its statistics are taken out of the result:
  the cached free space is the reported one minus the blocks of all the commits that happened in
  between, and they are recorded as unstable.
\<close>

theorem statfs_counts_commits:
  assumes "tgt_statfs_begin tgd = (u, tgd1)" and "0 \<le> tgd_statfs_inflight tgd"
    and "commit_run cs (d\<lparr>lut_tgd := tgd1\<rparr>) = Some d2"
    and "tgt_statfs_end now u osfs (lut_tgd d2) = (osfs', tgd3)"
  shows "os_bavail (tgd_osfs tgd3) = os_bavail osfs -
      min (os_bavail osfs) (drop_bit (tgd_blockbits tgd) (\<Sum>c\<leftarrow>cs. snd c)) \<and>
    tgd_osfs_unstable tgd3 = (\<Sum>c\<leftarrow>cs. snd c) + tgd_tot_pending (lut_tgd d2)"
proof -
  have "tgd_osfs_inflight tgd1 = u" "0 < tgd_statfs_inflight tgd1" "tgd_blockbits tgd1 = tgd_blockbits tgd"
    using assms(1,2) by (auto simp: tgt_statfs_begin_def Let_def)
  with commit_run_inflight [OF assms(3)]
  have "tgd_osfs_inflight (lut_tgd d2) - u = (\<Sum>c\<leftarrow>cs. snd c)"
    "tgd_blockbits (lut_tgd d2) = tgd_blockbits tgd" by simp_all
  with assms(4) show ?thesis
    unfolding tgt_statfs_end_def Let_def by (auto split: if_split_asm)
qed

theorem statfs_counts_commits_witness:
  "\<exists>u tgd1 d2 osfs' tgd3. tgt_statfs_begin example_tgd = (u, tgd1) \<and>
     commit_run [(example_exp 2 0, 0x40000)] (example_obd\<lparr>lut_tgd := tgd1\<rparr>) = Some d2 \<and>
     tgt_statfs_end 5 u (tgd_osfs example_tgd) (lut_tgd d2) = (osfs', tgd3) \<and>
     os_bavail (tgd_osfs tgd3) = 0x7fffe"
proof -
  obtain u tgd1 where b: "tgt_statfs_begin example_tgd = (u, tgd1)" by fastforce
  then have tgd1: "tgd1 = example_tgd\<lparr>tgd_statfs_inflight := 1\<rparr>"
    by (simp add: tgt_statfs_begin_def example_tgd_def)
  obtain d2 where c: "commit_run [(example_exp 2 0, 0x40000)] (example_obd\<lparr>lut_tgd := tgd1\<rparr>) = Some d2"
    by (simp add: tgd1 tgt_grant_commit_def example_defs)
  obtain osfs' tgd3 where e: "tgt_statfs_end 5 u (tgd_osfs example_tgd) (lut_tgd d2) = (osfs', tgd3)"
    by fastforce
  from statfs_counts_commits [OF b _ c e] have "os_bavail (tgd_osfs tgd3) = 0x7fffe"
    by (simp add: example_tgd_def)
  with b c e show ?thesis by blast
qed

text \<open>
  C34: A defect: a client without \<^verbatim>\<open>OBD_CONNECT_GRANT_PARAM\<close> on a target with large blocks can stop the
  server. \<^verbatim>\<open>tgt_grant_incoming\<close> clears a negative dirty count before it inflates it, and the shift can
  make it negative again, which reaches the \<^verbatim>\<open>LBUG\<close>.
\<close>

theorem grant_incoming_inflate_lbug:
  assumes "\<not> exp_grant_param_supp e"
    and "o_valid oa AND (OBD_MD_FLBLOCKS OR OBD_MD_FLGRANT) = OBD_MD_FLBLOCKS OR OBD_MD_FLGRANT"
    and "unat (o_dirty oa) < 2 ^ 63" and "2 ^ 63 \<le> unat (tgt_grant_inflate (lut_tgd d) (o_dirty oa))"
    and "unat (ted_grant e + 4 * chunk) < 2 ^ 63"
  shows "tgt_grant_incoming e d oa chunk = None"
proof -
  let ?dirty = "tgt_grant_inflate (lut_tgd d) (o_dirty oa)"
  have "sint ?dirty < 0" using assms(4) uint_lt2p [of ?dirty] by (simp add: sint_u64)
  moreover have "0 \<le> sint (ted_grant e + 4 * chunk)" using assms(5) by (simp add: sint_u64)
  ultimately have "\<not> ted_grant e + 4 * chunk <s ?dirty" by (simp add: sless_u64)
  moreover have "counters_ok x = None" if "2 ^ 63 \<le> unat (ted_dirty x)" for x
    using that by (simp add: counters_ok_def)
  ultimately show ?thesis using assms(1-4)
    unfolding tgt_grant_incoming_def Let_def by (simp add: not_le cong: if_cong)
qed

theorem grant_incoming_inflate_lbug_witness:
  "tgt_grant_incoming (example_exp 2 0) example_obd (example_oa\<lparr>o_dirty := 0x400000000000000\<rparr>) 0x400000 = None"
  by (rule grant_incoming_inflate_lbug)
    (simp_all add: exp_grant_param_supp_def tgt_grant_inflate_def example_defs grant_flags)

text \<open>
  C35: A defect: a shrink request whose amount is \<open>2 ^ 64 - k\<close> raises the grant of the export and the
  total by \<open>k\<close> instead of lowering them, since the amount is read as a signed number.
\<close>

theorem grant_shrink_grows:
  assumes "unat (ted_grant e) + unat k < 2 ^ 63" and "o_grant oa = - k" and "0 < unat k"
    and "left \<le> tgd_tot_granted (lut_tgd d) * 4"
  shows "\<exists>e' d' oa'. tgt_grant_shrink e d oa left = (e', d', oa') \<and>
    unat (ted_grant e') = unat (ted_grant e) + unat k \<and>
    tgd_tot_granted (lut_tgd d') = tgd_tot_granted (lut_tgd d) + k"
proof -
  have "unat (- k) = 2 ^ 64 - unat k" using assms(3) unat_sub_if' [of 0 k] by simp
  then have "- k <s 0" using assms(1) by simp
  then have "sint (- k) < 0" by (simp add: sless_u64 del: sless_0_u64)
  moreover have "0 \<le> sint (ted_grant e)" using assms(1) by (simp add: sint_u64)
  ultimately have "\<not> ted_grant e <s - k" by (simp add: sless_u64)
  with assms show ?thesis by (simp add: tgt_grant_shrink_def Let_def leD unat_add_u64)
qed

theorem grant_shrink_grows_witness:
  "\<exists>e' d' oa'. tgt_grant_shrink (example_exp 2 0) example_obd (example_oa\<lparr>o_grant := - 0x1000\<rparr>) 0 = (e', d', oa') \<and>
     unat (ted_grant e') = 0x101000"
  using grant_shrink_grows [of "example_exp 2 0" "0x1000" "example_oa\<lparr>o_grant := - 0x1000\<rparr>" 0 example_obd]
  by (auto simp: example_exp_def)

end
