(* ===== verification/Lov_Stripe.thy ===== *)
theory Lov_Stripe
  imports Prelude
begin

text \<open>
  Striping arithmetic of the LOV layer, \<^verbatim>\<open>lustre/lov/lov_offset.c\<close> and \<^verbatim>\<open>lustre/lov/lov_merge.c\<close>: where a
  file offset lands in the objects of a file, and the file size that the objects add up to.
  Offsets and sizes are 64-bit words that wrap around as in C. A layout or object index outside
  its array and a violated \<^verbatim>\<open>LASSERT\<close> are \<^term>\<open>None\<close>. A stripe number is a non-negative \<^verbatim>\<open>int\<close>.
\<close>

section \<open>Layouts\<close>

text \<open>The records hold the fields of the structures that this arithmetic reads or writes.\<close>

record lu_extent =
  e_start :: u64
  e_end :: u64

record ost_lvb =
  lvb_size :: u64
  lvb_mtime :: int
  lvb_atime :: int
  lvb_ctime :: int
  lvb_blocks :: u64

record lov_oinfo =
  loi_kms_valid :: bool
  loi_kms :: u64
  loi_lvb :: ost_lvb

record lov_stripe_md_entry =
  lsme_extent :: lu_extent
  lsme_pattern :: u32
  lsme_stripe_size :: u32
  lsme_stripe_count :: nat
  lsme_oinfo :: "lov_oinfo list"

record lov_stripe_md =
  lsm_lock_owner :: int
  lsm_entries :: "lov_stripe_md_entry list"

definition LOV_PATTERN_MDT :: u32 where "LOV_PATTERN_MDT = 0x100"
definition LOV_PATTERN_F_MASK :: u32 where "LOV_PATTERN_F_MASK = 0xffff0000"

definition lov_pattern :: "u32 \<Rightarrow> u32" where
  "lov_pattern pattern = pattern AND NOT LOV_PATTERN_F_MASK"

definition lsme_is_dom :: "lov_stripe_md_entry \<Rightarrow> bool" where
  "lsme_is_dom lsme \<longleftrightarrow> lov_pattern (lsme_pattern lsme) AND LOV_PATTERN_MDT \<noteq> 0"

definition lu_extent_is_overlapped :: "lu_extent \<Rightarrow> lu_extent \<Rightarrow> bool" where
  "lu_extent_is_overlapped e1 e2 \<longleftrightarrow> e_start e1 < e_end e2 \<and> e_start e2 < e_end e1"

definition lsm_entry :: "lov_stripe_md \<Rightarrow> nat \<Rightarrow> lov_stripe_md_entry option" where
  "lsm_entry lsm index =
     (if index < length (lsm_entries lsm) then Some (lsm_entries lsm ! index) else None)"

section \<open>\<^verbatim>\<open>lov_offset.c\<close>\<close>

definition stripe_width :: "lov_stripe_md \<Rightarrow> nat \<Rightarrow> u64 option" where
  "stripe_width lsm index =
     do { entry \<leftarrow> lsm_entry lsm index;
          Some (if lsme_is_dom entry then ucast (lsme_stripe_size entry)
                else ucast (lsme_stripe_size entry) * of_nat (lsme_stripe_count entry)) }"

definition lov_stripe_size :: "lov_stripe_md \<Rightarrow> nat \<Rightarrow> u64 \<Rightarrow> nat \<Rightarrow> u64 option" where
  "lov_stripe_size lsm index ost_size0 stripeno =
     do { entry \<leftarrow> lsm_entry lsm index;
          let ssize = (ucast (lsme_stripe_size entry) :: u64);
          if ost_size0 = 0 then Some 0
          else do {
            swidth \<leftarrow> stripe_width lsm index;
            let ost_size = ost_size0 div ssize;
            let stripe_size = ost_size0 mod ssize;
            Some (if stripe_size \<noteq> 0 then ost_size * swidth + of_nat stripeno * ssize + stripe_size
                  else (ost_size - 1) * swidth + of_nat (stripeno + 1) * ssize) } }"

text \<open>\<open>page_shift\<close> is the kernel's \<^verbatim>\<open>PAGE_SHIFT\<close>.\<close>

definition lov_stripe_pgoff :: "nat \<Rightarrow> lov_stripe_md \<Rightarrow> nat \<Rightarrow> u64 \<Rightarrow> nat \<Rightarrow> u64 option" where
  "lov_stripe_pgoff page_shift lsm index stripe_index stripe =
     do { offset \<leftarrow> lov_stripe_size lsm index (push_bit page_shift stripe_index + 1) stripe;
          Some (signed_drop_bit page_shift offset) }"

text \<open>The result is the side on which the offset missed the stripe and \<^verbatim>\<open>*obdoff\<close>.\<close>

definition lov_stripe_offset :: "lov_stripe_md \<Rightarrow> nat \<Rightarrow> u64 \<Rightarrow> nat \<Rightarrow> (int \<times> u64) option" where
  "lov_stripe_offset lsm index lov_off stripeno =
     do { entry \<leftarrow> lsm_entry lsm index;
          let ssize = (ucast (lsme_stripe_size entry) :: u64);
          if lov_off = OBD_OBJECT_EOF then Some (0, OBD_OBJECT_EOF)
          else do {
            swidth \<leftarrow> stripe_width lsm index;
            let row = lov_off div swidth;
            let stripe_off = lov_off mod swidth;
            let this_stripe = of_nat stripeno * ssize;
            let (ret, off) =
              (if stripe_off < this_stripe then (- 1, 0)
               else if stripe_off - this_stripe \<ge> ssize then (1, ssize)
               else (0, stripe_off - this_stripe));
            Some (ret, row * ssize + off) } }"

definition lov_size_to_stripe :: "lov_stripe_md \<Rightarrow> nat \<Rightarrow> u64 \<Rightarrow> nat \<Rightarrow> u64 option" where
  "lov_size_to_stripe lsm index file_size stripeno =
     do { lse \<leftarrow> lsm_entry lsm index;
          let ssize = (ucast (lsme_stripe_size lse) :: u64);
          if file_size = OBD_OBJECT_EOF then Some OBD_OBJECT_EOF
          else if file_size < e_start (lsme_extent lse) then Some 0
          else do {
            swidth \<leftarrow> stripe_width lsm index;
            let row = file_size div swidth;
            let stripe_off = file_size mod swidth;
            let this_stripe = of_nat stripeno * ssize;
            let (row', off) =
              (if stripe_off < this_stripe then (if row > 0 then (row - 1, ssize) else (row, 0))
               else if stripe_off - this_stripe \<ge> ssize then (row, ssize)
               else (row, stripe_off - this_stripe));
            Some (row' * ssize + off) } }"

text \<open>The result is \<^term>\<open>None\<close> of the inner option where the stripe does not intersect.\<close>

definition lov_stripe_intersects ::
  "lov_stripe_md \<Rightarrow> nat \<Rightarrow> nat \<Rightarrow> lu_extent \<Rightarrow> (u64 \<times> u64) option option" where
  "lov_stripe_intersects lsm index stripeno ext =
     do { entry \<leftarrow> lsm_entry lsm index;
          if \<not> lu_extent_is_overlapped ext (lsme_extent entry) then Some None
          else do {
            let start = max (e_start ext) (e_start (lsme_extent entry));
            let end0 = min (e_end ext) (e_end (lsme_extent entry));
            let end1 = (if end0 \<noteq> OBD_OBJECT_EOF then end0 - 1 else end0);
            (start_side, obd_start) \<leftarrow> lov_stripe_offset lsm index start stripeno;
            (end_side, obd_end) \<leftarrow> lov_stripe_offset lsm index end1 stripeno;
            if start_side \<noteq> 0 \<and> end_side \<noteq> 0 \<and> obd_start = obd_end then Some None
            else Some (Some (obd_start, if end_side \<noteq> 0 then obd_end - 1 else obd_end)) } }"

definition lov_stripe_number :: "lov_stripe_md \<Rightarrow> nat \<Rightarrow> u64 \<Rightarrow> nat option" where
  "lov_stripe_number lsm index lov_off =
     do { entry \<leftarrow> lsm_entry lsm index;
          let ssize = (ucast (lsme_stripe_size entry) :: u64);
          swidth \<leftarrow> stripe_width lsm index;
          Some (unat (lov_off mod swidth div ssize)) }"

section \<open>\<^verbatim>\<open>lov_merge.c\<close>\<close>

definition OST_LVB_ERR_INIT :: u64 where "OST_LVB_ERR_INIT = 0xffbadbad80000000"
definition OST_LVB_ERR_MASK :: u64 where "OST_LVB_ERR_MASK = 0xffbadbad00000000"

definition OST_LVB_IS_ERR :: "u64 \<Rightarrow> bool" where
  "OST_LVB_IS_ERR blocks \<longleftrightarrow> blocks AND OST_LVB_ERR_MASK = OST_LVB_ERR_MASK"

definition OST_LVB_SET_ERR :: "int \<Rightarrow> u64" where
  "OST_LVB_SET_ERR rc = OST_LVB_ERR_INIT + word_of_int rc"

definition OST_LVB_GET_ERR :: "u64 \<Rightarrow> int" where
  "OST_LVB_GET_ERR blocks = sint (ucast (blocks - OST_LVB_ERR_INIT) :: u32)"

definition LLONG_MIN :: int where "LLONG_MIN = - (2 ^ 63)"

record cl_attr =
  cat_size :: u64
  cat_kms_valid :: bool
  cat_kms :: u64
  cat_mtime :: int
  cat_atime :: int
  cat_ctime :: int
  cat_blocks :: u64

text \<open>The local variables of the loop over the stripes.\<close>

record merge_state =
  ms_size :: u64
  ms_kms :: u64
  ms_blocks :: u64
  ms_mtime :: int
  ms_atime :: int
  ms_ctime :: int
  ms_rc :: int
  ms_kms_valid :: bool

definition merge_init :: "cl_attr \<Rightarrow> merge_state" where
  "merge_init attr =
     \<lparr>ms_size = 0, ms_kms = 0, ms_blocks = 0, ms_mtime = LLONG_MIN, ms_atime = LLONG_MIN,
      ms_ctime = LLONG_MIN, ms_rc = 0, ms_kms_valid = cat_kms_valid attr\<rparr>"

definition lov_merge_one :: "lov_stripe_md \<Rightarrow> nat \<Rightarrow> nat \<Rightarrow> lov_oinfo \<Rightarrow> merge_state \<Rightarrow> merge_state option" where
  "lov_merge_one lsm index i loi st =
     (let lvb = loi_lvb loi in
      if OST_LVB_IS_ERR (lvb_blocks lvb)
      then Some (st\<lparr>ms_rc := OST_LVB_GET_ERR (lvb_blocks lvb)\<rparr>)
      else do {
        let tmpsize = (if loi_kms_valid loi then loi_kms loi else 0);
        kms_size \<leftarrow> lov_stripe_size lsm index tmpsize i;
        lov_size \<leftarrow> lov_stripe_size lsm index (max (lvb_size lvb) tmpsize) i;
        Some (st\<lparr>ms_kms_valid := (ms_kms_valid st \<or> loi_kms_valid loi),
                 ms_kms := max kms_size (ms_kms st), ms_size := max lov_size (ms_size st),
                 ms_blocks := ms_blocks st + lvb_blocks lvb,
                 ms_mtime := max (lvb_mtime lvb) (ms_mtime st),
                 ms_atime := max (lvb_atime lvb) (ms_atime st),
                 ms_ctime := max (lvb_ctime lvb) (ms_ctime st)\<rparr>) })"

fun lov_merge_loop ::
  "lov_stripe_md \<Rightarrow> nat \<Rightarrow> nat \<Rightarrow> lov_oinfo list \<Rightarrow> merge_state \<Rightarrow> merge_state option" where
  "lov_merge_loop lsm index i [] st = Some st"
| "lov_merge_loop lsm index i (loi # lois) st =
     do { st' \<leftarrow> lov_merge_one lsm index i loi st; lov_merge_loop lsm index (i + 1) lois st' }"

definition lov_merge_lvb_kms :: "int \<Rightarrow> lov_stripe_md \<Rightarrow> nat \<Rightarrow> cl_attr \<Rightarrow> (int \<times> cl_attr) option" where
  "lov_merge_lvb_kms current_pid lsm index attr =
     do { lse \<leftarrow> lsm_entry lsm index;
          LASSERT (lsm_lock_owner lsm = current_pid);
          loi \<leftarrow> (if lsme_stripe_count lse \<le> length (lsme_oinfo lse)
                  then Some (take (lsme_stripe_count lse) (lsme_oinfo lse)) else None);
          st \<leftarrow> lov_merge_loop lsm index 0 loi (merge_init attr);
          let attr1 = attr\<lparr>cat_kms_valid := ms_kms_valid st\<rparr>;
          Some (ms_rc st,
            if ms_rc st = 0
            then attr1\<lparr>cat_kms := ms_kms st, cat_size := ms_size st, cat_mtime := ms_mtime st,
                       cat_atime := ms_atime st, cat_ctime := ms_ctime st, cat_blocks := ms_blocks st\<rparr>
            else attr1) }"

end
