(* ===== verification/Lov_Reference.thy ===== *)
theory Lov_Reference
  imports Lov_Stripe
begin

text \<open>
  The striping arithmetic against a reference: a file is dealt out to its objects in rows of
  \<open>c\<close> stripes of \<open>s\<close> bytes. Every function of \<^verbatim>\<open>lov_offset.c\<close> is the reference function, or counts the
  bytes of the file that belong to an object.
\<close>

section \<open>The reference\<close>

text \<open>The object that holds byte \<open>x\<close> of the file, and the offset of the byte in it.\<close>

definition ref_stripe :: "nat \<Rightarrow> nat \<Rightarrow> nat \<Rightarrow> nat" where
  "ref_stripe s c x = x mod (s * c) div s"

definition ref_off :: "nat \<Rightarrow> nat \<Rightarrow> nat \<Rightarrow> nat" where
  "ref_off s c x = x div (s * c) * s + x mod s"

text \<open>How many of the first \<open>n\<close> bytes of the file belong to object \<open>k\<close>.\<close>

definition cnt :: "nat \<Rightarrow> nat \<Rightarrow> nat \<Rightarrow> nat \<Rightarrow> nat" where
  "cnt s c k n = n div (s * c) * s + min s (n mod (s * c) - k * s)"

lemma ref_stripe_less: "0 < s \<Longrightarrow> 0 < c \<Longrightarrow> ref_stripe s c x < c"
  by (simp add: ref_stripe_def less_mult_imp_div_less mult.commute)

lemma ref_stripe_iff:
  "0 < s \<Longrightarrow> ref_stripe s c x = k \<longleftrightarrow> k * s \<le> x mod (s * c) \<and> x mod (s * c) < k * s + s"
  unfolding ref_stripe_def by (metis add.commute div_nat_eqI dividend_less_div_times mult.commute
      mult_Suc times_div_less_eq_dividend)

lemma row_div:
  fixes a q w :: nat
  assumes "a < w"
  shows "(q * w + a) div w = q" and "(q * w + a) mod w = a"
  using assms by simp_all

lemma cnt_Suc:
  assumes "0 < s" and "k < c"
  shows "cnt s c k (Suc n) = cnt s c k n + (if ref_stripe s c n = k then 1 else 0)"
proof -
  define w q r where "w = s * c" and "q = n div w" and "r = n mod w"
  have w: "0 < w" "k * s + s \<le> w"
    using assms mult_le_mono2 [of "Suc k" c s] by (auto simp: w_def algebra_simps)
  have r: "r < w" "n = q * w + r" using w by (simp_all add: q_def r_def)
  note iff = ref_stripe_iff [OF assms(1), of c n k, folded w_def, folded r_def]
  show ?thesis
  proof (cases "Suc r = w")
    case True
    with r have "Suc n = Suc q * w" by simp
    then have "Suc n div w = Suc q" "Suc n mod w = 0"
      using w by (simp_all only: mod_mult_self2_is_0 nonzero_mult_div_cancel_right neq0_conv)
    then have "cnt s c k (Suc n) = q * s + s" by (simp add: cnt_def w_def)
    moreover have "cnt s c k n = q * s + min s (r - k * s)"
      by (simp add: cnt_def w_def [symmetric] q_def r_def)
    ultimately show ?thesis using iff True w by auto
  next
    case False
    with r have "Suc n = q * w + Suc r" "Suc r < w" by simp_all
    then have "Suc n div w = q" "Suc n mod w = Suc r"
      by (simp_all only: row_div)
    then have "cnt s c k (Suc n) = q * s + min s (Suc r - k * s)" by (simp add: cnt_def w_def)
    moreover have "cnt s c k n = q * s + min s (r - k * s)"
      by (simp add: cnt_def w_def [symmetric] q_def r_def)
    ultimately show ?thesis using iff by auto
  qed
qed

lemma cnt_0 [simp]: "cnt s c k 0 = 0"
  by (simp add: cnt_def)

lemma cnt_card:
  assumes "0 < s" and "k < c"
  shows "cnt s c k n = card {x. x < n \<and> ref_stripe s c x = k}"
proof (induction n)
  case 0
  then show ?case by (simp add: cnt_def)
next
  case (Suc n)
  have "{x. x < Suc n \<and> ref_stripe s c x = k} =
      {x. x < n \<and> ref_stripe s c x = k} \<union> (if ref_stripe s c n = k then {n} else {})"
    by (auto simp: less_Suc_eq)
  then show ?case using Suc cnt_Suc [OF assms, of n] by (simp add: card_insert_if)
qed

lemma cnt_mono: "0 < s \<Longrightarrow> k < c \<Longrightarrow> m \<le> n \<Longrightarrow> cnt s c k m \<le> cnt s c k n"
  by (induction n) (auto simp: cnt_Suc le_Suc_eq)

lemma cnt_ref_off:
  assumes "0 < s" and "0 < c"
  shows "cnt s c (ref_stripe s c x) x = ref_off s c x"
proof -
  have "x mod (s * c) - ref_stripe s c x * s = x mod (s * c) mod s"
    by (simp add: ref_stripe_def minus_div_mult_eq_mod)
  also have "\<dots> = x mod s" by (simp add: mod_mult2_eq)
  finally show ?thesis using assms mod_less_divisor [of s x] by (simp add: cnt_def ref_off_def min_absorb2 less_imp_le)
qed

text \<open>
  The file size at which object \<open>k\<close> has \<open>n\<close> bytes and its last byte ends the file.
\<close>

definition ref_size :: "nat \<Rightarrow> nat \<Rightarrow> nat \<Rightarrow> nat \<Rightarrow> nat" where
  "ref_size s c k n = (if n = 0 then 0 else (n - 1) div s * (s * c) + k * s + (n - 1) mod s + 1)"

lemma ref_size_inverse:
  assumes "0 < s" and "0 < c"
  shows "ref_size s c (ref_stripe s c x) (ref_off s c x + 1) = x + 1"
proof -
  have "ref_off s c x div s = x div (s * c)" "ref_off s c x mod s = x mod s"
    using assms by (simp_all add: ref_off_def)
  moreover have "ref_stripe s c x * s + x mod s = x mod (s * c)"
    using div_mult_mod_eq [of "x mod (s * c)" s] by (simp add: ref_stripe_def mod_mult2_eq)
  moreover have "x div (s * c) * (s * c) + x mod (s * c) = x" by (rule div_mult_mod_eq)
  ultimately show ?thesis by (simp add: ref_size_def)
qed

lemma ref_size_byte:
  assumes "0 < s" and "k < c" and "0 < n"
  shows "ref_stripe s c (ref_size s c k n - 1) = k" and "ref_off s c (ref_size s c k n - 1) = n - 1"
proof -
  define q r where "q = (n - 1) div s" and "r = (n - 1) mod s"
  have r: "r < s" "n - 1 = q * s + r" using assms by (simp_all add: q_def r_def)
  have x: "ref_size s c k n - 1 = q * (s * c) + (k * s + r)"
    using assms by (simp add: ref_size_def q_def r_def)
  have "k * s + r < Suc k * s" using r by simp
  also have "\<dots> \<le> s * c" using mult_le_mono2 [of "Suc k" c s] assms by (simp add: mult.commute)
  finally have lt: "k * s + r < s * c" .
  then have "(ref_size s c k n - 1) mod (s * c) = k * s + r" "(ref_size s c k n - 1) div (s * c) = q"
    unfolding x by (simp_all only: row_div)
  moreover have "(ref_size s c k n - 1) mod s = r"
  proof -
    have "ref_size s c k n - 1 = (q * c + k) * s + r" unfolding x by (simp add: algebra_simps)
    then show ?thesis using r by simp
  qed
  ultimately show "ref_stripe s c (ref_size s c k n - 1) = k" "ref_off s c (ref_size s c k n - 1) = n - 1"
    using r by (simp_all add: ref_stripe_def ref_off_def)
qed

lemma ref_size_cnt_le:
  assumes "0 < s" and "k < c"
  shows "ref_size s c k (cnt s c k n) \<le> n"
proof (cases "cnt s c k n = 0")
  case False
  let ?x = "ref_size s c k (cnt s c k n) - 1"
  have x: "ref_stripe s c ?x = k" "ref_off s c ?x = cnt s c k n - 1"
    using ref_size_byte [OF assms] False by simp_all
  then have "cnt s c k ?x = cnt s c k n - 1" using cnt_ref_off [of s c ?x] assms by simp
  then have "cnt s c k ?x < cnt s c k n" using False by simp
  then have "?x < n" using cnt_mono [OF assms, of n ?x] by (meson not_less)
  then show ?thesis by linarith
qed (simp add: ref_size_def)

lemma cnt_le: "0 < s \<Longrightarrow> k < c \<Longrightarrow> cnt s c k n \<le> n"
  by (induction n) (auto simp: cnt_Suc)

section \<open>The code against the reference\<close>

text \<open>Entry \<open>index\<close> of the layout deals out stripes of \<open>s\<close> bytes to \<open>c\<close> objects.\<close>

definition striped :: "lov_stripe_md \<Rightarrow> nat \<Rightarrow> nat \<Rightarrow> nat \<Rightarrow> bool" where
  "striped lsm index s c \<longleftrightarrow> (\<exists>e. lsm_entry lsm index = Some e \<and> s = unat (lsme_stripe_size e) \<and>
     c = (if lsme_is_dom e then 1 else lsme_stripe_count e) \<and> 0 < s \<and> 0 < c \<and> c < 2 ^ 16)"

lemma stripedE:
  assumes "striped lsm index s c"
  obtains e where "lsm_entry lsm index = Some e" "ucast (lsme_stripe_size e) = (of_nat s :: u64)"
    "stripe_width lsm index = Some (of_nat (s * c))" "0 < s" "0 < c" "s < 2 ^ 32" "c < 2 ^ 16"
    "s * c < 2 ^ 48"
proof -
  from assms obtain e where e: "lsm_entry lsm index = Some e" "s = unat (lsme_stripe_size e)"
    "c = (if lsme_is_dom e then 1 else lsme_stripe_count e)" "0 < s" "0 < c" "c < 2 ^ 16"
    by (auto simp: striped_def)
  have s: "s < 2 ^ 32" using e(2) unat_u32 [of "lsme_stripe_size e"] by simp
  have u: "ucast (lsme_stripe_size e) = (of_nat s :: u64)" using e(2) by simp
  have "s * c < 2 ^ 32 * 2 ^ 16" using s e(4-6) by (intro mult_strict_mono) simp_all
  with e u s show thesis
    by (intro that [of e]) (simp_all add: stripe_width_def)
qed

lemma lov_stripe_number_ref:
  assumes "striped lsm index s c"
  shows "lov_stripe_number lsm index off = Some (ref_stripe s c (unat off))"
proof -
  from stripedE [OF assms] obtain e where e: "lsm_entry lsm index = Some e"
    "ucast (lsme_stripe_size e) = (of_nat s :: u64)" "stripe_width lsm index = Some (of_nat (s * c))"
    "0 < s" "0 < c" "s < 2 ^ 32" "c < 2 ^ 16" "s * c < 2 ^ 48" .
  have "unat (off mod of_nat (s * c)) = unat off mod (s * c)"
    using e by (subst mod_of_nat) (simp_all add: unat_of_nat_small less_le_trans [OF mod_less_divisor]
        del: of_nat_mult)
  then show ?thesis
    using e by (simp add: lov_stripe_number_def unat_div unat_of_nat_small ref_stripe_def del: of_nat_mult)
qed

text \<open>The side an offset is reported on: before the stripe, in it, or after it.\<close>

definition ref_side :: "nat \<Rightarrow> nat \<Rightarrow> nat \<Rightarrow> nat \<Rightarrow> int" where
  "ref_side s c k n = (if n mod (s * c) < k * s then - 1 else if n mod (s * c) \<ge> k * s + s then 1 else 0)"

lemma ref_side_0: "0 < s \<Longrightarrow> ref_side s c k n = 0 \<longleftrightarrow> ref_stripe s c n = k"
  by (auto simp: ref_side_def ref_stripe_iff)

lemma lov_stripe_offset_ref:
  assumes "striped lsm index s c" and k: "k < c" and eof: "off \<noteq> OBD_OBJECT_EOF"
  shows "lov_stripe_offset lsm index off k =
    Some (ref_side s c k (unat off), of_nat (cnt s c k (unat off)))"
proof -
  from stripedE [OF assms(1)] obtain e where e: "lsm_entry lsm index = Some e"
    "ucast (lsme_stripe_size e) = (of_nat s :: u64)" "stripe_width lsm index = Some (of_nat (s * c))"
    "0 < s" "0 < c" "s < 2 ^ 32" "c < 2 ^ 16" "s * c < 2 ^ 48" .
  define n r where "n = unat off" and "r = n mod (s * c)"
  have ks: "k * s + s \<le> s * c" using mult_le_mono2 [of "Suc k" c s] k by (simp add: mult.commute)
  have r: "r < s * c" using e by (simp add: r_def)
  have "(of_nat r :: u64) < of_nat (k * s) \<longleftrightarrow> r < k * s"
    using ks r e by (intro of_nat_less_u64) simp_all
  moreover have "(of_nat r :: u64) - of_nat (k * s) = of_nat (r - k * s)" if "\<not> r < k * s"
    using that by (simp add: of_nat_diff)
  moreover have "(of_nat s :: u64) \<le> of_nat (r - k * s) \<longleftrightarrow> s \<le> r - k * s"
    using r e by (simp add: word_le_nat_alt unat_of_nat_small)
  ultimately show ?thesis
    using e eof div_of_nat [of "s * c" off] mod_of_nat [of "s * c" off]
    by (auto simp: lov_stripe_offset_def ref_side_def cnt_def n_def [symmetric] r_def [symmetric]
        simp flip: of_nat_mult)
qed

lemma lov_size_to_stripe_ref:
  assumes "striped lsm index s c" and k: "k < c" and eof: "sz \<noteq> OBD_OBJECT_EOF"
    and "lsm_entry lsm index = Some e" and "\<not> sz < e_start (lsme_extent e)"
  shows "lov_size_to_stripe lsm index sz k = Some (of_nat (cnt s c k (unat sz)))"
proof -
  from stripedE [OF assms(1)] assms(4) have e:
    "ucast (lsme_stripe_size e) = (of_nat s :: u64)" "stripe_width lsm index = Some (of_nat (s * c))"
    "0 < s" "0 < c" "s < 2 ^ 32" "c < 2 ^ 16" "s * c < 2 ^ 48" by auto
  define n r q where "n = unat sz" and "r = n mod (s * c)" and "q = n div (s * c)"
  have ks: "k * s + s \<le> s * c" using mult_le_mono2 [of "Suc k" c s] k by (simp add: mult.commute)
  have r: "r < s * c" using e by (simp add: r_def)
  have "q \<le> n" by (simp add: q_def)
  then have q: "(0 :: u64) < of_nat q \<longleftrightarrow> 0 < q"
    using of_nat_less_u64 [of 0 q] unat_u64 [of sz] by (simp add: n_def)
  have "(of_nat r :: u64) < of_nat (k * s) \<longleftrightarrow> r < k * s"
    using ks r e by (intro of_nat_less_u64) simp_all
  moreover have "(of_nat r :: u64) - of_nat (k * s) = of_nat (r - k * s)" if "\<not> r < k * s"
    using that by (simp add: of_nat_diff)
  moreover have "(of_nat s :: u64) \<le> of_nat (r - k * s) \<longleftrightarrow> s \<le> r - k * s"
    using r e by (simp add: word_le_nat_alt unat_of_nat_small)
  moreover have "(of_nat q - 1) * of_nat s + of_nat s = (of_nat (q * s) :: u64)"
    by (simp add: algebra_simps)
  ultimately show ?thesis
    using e eof assms(4,5) q div_of_nat [of "s * c" sz] mod_of_nat [of "s * c" sz]
    by (auto simp: lov_size_to_stripe_def cnt_def n_def [symmetric] r_def [symmetric] q_def [symmetric]
        simp flip: of_nat_mult)
qed

lemma lov_stripe_size_ref:
  assumes "striped lsm index s c"
  shows "lov_stripe_size lsm index sz k = Some (of_nat (ref_size s c k (unat sz)))"
proof -
  from stripedE [OF assms] obtain e where e: "lsm_entry lsm index = Some e"
    "ucast (lsme_stripe_size e) = (of_nat s :: u64)" "stripe_width lsm index = Some (of_nat (s * c))"
    "0 < s" "0 < c" "s < 2 ^ 32" "c < 2 ^ 16" "s * c < 2 ^ 48" .
  define n a b where "n = unat sz" and "a = n div s" and "b = n mod s"
  have b: "b < s" "n = a * s + b" using e by (simp_all add: a_def b_def)
  have w: "sz div of_nat s = of_nat a" "sz mod of_nat s = of_nat b"
    using e div_of_nat [of s sz] mod_of_nat [of s sz] by (simp_all add: n_def a_def b_def)
  have b0: "(of_nat b :: u64) = 0 \<longleftrightarrow> b = 0"
    using b e unat_of_nat_small [of b] unat_eq_zero [of "of_nat b :: u64"] by simp
  show ?thesis
  proof (cases "sz = 0")
    case True
    then show ?thesis using e by (simp add: lov_stripe_size_def ref_size_def)
  next
    case False
    then have n: "0 < n" by (simp add: n_def unat_gt_0)
    show ?thesis
    proof (cases "b = 0")
      case True
      with n b have a: "n - 1 = (a - 1) * s + (s - 1)" "0 < a" by (cases a; simp)+
      have "(n - 1) div s = a - 1" "(n - 1) mod s = s - 1"
        unfolding a(1) using e(4) by (simp_all only: row_div)
      then have "ref_size s c k n = (a - 1) * (s * c) + (k + 1) * s" using n e(4) by (simp add: ref_size_def)
      moreover have "of_nat (a - 1) = (of_nat a - 1 :: u64)" using a(2) by (simp add: of_nat_diff)
      ultimately show ?thesis
        using False True e w b0 by (simp add: lov_stripe_size_def Let_def n_def [symmetric] distrib_right)
    next
      case bn: False
      then have "n - 1 = a * s + (b - 1)" "b - 1 < s" using b by simp_all
      then have "(n - 1) div s = a" "(n - 1) mod s = b - 1" by (simp_all only: row_div)
      then have "ref_size s c k n = a * (s * c) + k * s + b" using n bn by (simp add: ref_size_def)
      then show ?thesis
        using False bn e w b0 by (simp add: lov_stripe_size_def Let_def n_def [symmetric])
    qed
  qed
qed

subsection \<open>Extents of an object\<close>

lemma cnt_image:
  assumes "0 < s" and "k < c"
  shows "cnt s c k ` {x. lo \<le> x \<and> x < hi \<and> ref_stripe s c x = k} = {cnt s c k lo..<cnt s c k hi}"
proof (intro equalityI subsetI)
  fix v assume "v \<in> cnt s c k ` {x. lo \<le> x \<and> x < hi \<and> ref_stripe s c x = k}"
  then obtain x where x: "v = cnt s c k x" "lo \<le> x" "x < hi" "ref_stripe s c x = k" by auto
  have "cnt s c k (Suc x) \<le> cnt s c k hi" using x by (intro cnt_mono assms) simp
  then show "v \<in> {cnt s c k lo..<cnt s c k hi}"
    using x cnt_mono [OF assms x(2)] cnt_Suc [OF assms, of x] by simp
next
  fix v assume v: "v \<in> {cnt s c k lo..<cnt s c k hi}"
  let ?x = "ref_size s c k (Suc v) - 1"
  have x: "ref_stripe s c ?x = k" "cnt s c k ?x = v"
    using ref_size_byte [OF assms, of "Suc v"] cnt_ref_off [of s c ?x] assms by simp_all
  have hi: "?x < hi" using v x cnt_mono [OF assms, of hi ?x] by (metis atLeastLessThan_iff not_le)
  have "lo \<le> ?x"
  proof (rule ccontr)
    assume "\<not> lo \<le> ?x"
    then have "cnt s c k (Suc ?x) \<le> cnt s c k lo" by (intro cnt_mono assms) simp
    then show False using x v cnt_Suc [OF assms, of ?x] by simp
  qed
  with hi x show "v \<in> cnt s c k ` {x. lo \<le> x \<and> x < hi \<and> ref_stripe s c x = k}"
    by (intro image_eqI [of _ _ ?x]) simp_all
qed

lemma unat_image_of_nat:
  assumes "n < 2 ^ 64"
  shows "{x :: u64. P (unat x) \<and> unat x < n} = of_nat ` {x. P x \<and> x < n}"
proof (intro equalityI subsetI)
  fix v :: u64 assume "v \<in> {x. P (unat x) \<and> unat x < n}"
  then show "v \<in> of_nat ` {x. P x \<and> x < n}" by (intro image_eqI [of _ _ "unat v"]) simp_all
qed (use assms in \<open>auto simp: unat_of_nat_small\<close>)

lemma of_nat_image_interval:
  assumes "b < 2 ^ 64" and that: "a \<le> b"
  shows "of_nat ` {a..<Suc b} = {of_nat a..(of_nat b :: u64)}"
proof (intro equalityI subsetI)
  fix v :: u64 assume "v \<in> {of_nat a..of_nat b}"
  then have "a \<le> unat v" "unat v \<le> b"
    using assms that by (simp_all add: word_le_nat_alt unat_of_nat_small)
  then show "v \<in> of_nat ` {a..<Suc b}" by (intro image_eqI [of _ _ "unat v"]) simp_all
qed (use assms that in \<open>auto simp: word_le_nat_alt unat_of_nat_small\<close>)

lemma lov_stripe_intersects_ref:
  assumes "striped lsm index s c" and k: "k < c" and en: "lsm_entry lsm index = Some e"
    and ne: "e_start ext < e_end ext" "e_start (lsme_extent e) < e_end (lsme_extent e)"
    and lo: "lo = max (e_start ext) (e_start (lsme_extent e))"
    and hi: "hi = min (e_end ext) (e_end (lsme_extent e))" "hi \<noteq> OBD_OBJECT_EOF"
  shows "lov_stripe_intersects lsm index k ext =
    Some (if cnt s c k (unat lo) < cnt s c k (unat hi) \<and> lo < hi
          then Some (of_nat (cnt s c k (unat lo)), of_nat (cnt s c k (unat hi) - 1)) else None)"
proof -
  have s: "0 < s" using stripedE [OF assms(1)] by metis
  have ov: "lu_extent_is_overlapped ext (lsme_extent e) \<longleftrightarrow> lo < hi"
    using ne by (auto simp: lu_extent_is_overlapped_def lo hi(1))
  show ?thesis
  proof (cases "lo < hi")
    case False
    then show ?thesis by (simp add: lov_stripe_intersects_def en ov)
  next
    case True
    define l h where "l = unat lo" and "h = unat (hi - 1)"
    have "hi \<noteq> 0" using True by auto
    then have h: "unat hi = Suc h" by (simp add: h_def unat_minus_one unat_gt_0)
    have lh: "l \<le> h" using True h by (simp add: l_def word_less_nat_alt)
    have l64: "h < 2 ^ 64" unfolding h_def by (rule unat_u64)
    have eof: "lo \<noteq> OBD_OBJECT_EOF" "hi - 1 \<noteq> OBD_OBJECT_EOF"
      using True \<open>hi \<noteq> 0\<close> by (auto simp: OBD_OBJECT_EOF_minus_1 dest: leD)
    have inj: "of_nat (cnt s c k l) = (of_nat (cnt s c k h) :: u64) \<longleftrightarrow> cnt s c k l = cnt s c k h"
      using l64 lh cnt_le [OF s k, of l] cnt_le [OF s k, of h]
      by (metis le_less_trans unat_of_nat_small)
    have sd: "ref_side s c k n \<noteq> 0 \<longleftrightarrow> ref_stripe s c n \<noteq> k" for n by (simp add: ref_side_0 s)
    have m: "cnt s c k l \<le> cnt s c k h" by (intro cnt_mono s k lh)
    have l1: "cnt s c k l < cnt s c k h" if "ref_stripe s c l = k" "l \<noteq> h"
      using that lh cnt_mono [OF s k, of "Suc l" h] cnt_Suc [OF s k, of l] by simp
    have pre: "lov_stripe_intersects lsm index k ext =
      (if ref_stripe s c l \<noteq> k \<and> ref_stripe s c h \<noteq> k \<and> cnt s c k l = cnt s c k h then Some None
       else Some (Some (of_nat (cnt s c k l),
         if ref_stripe s c h \<noteq> k then of_nat (cnt s c k h) - 1 else of_nat (cnt s c k h))))"
      unfolding lov_stripe_intersects_def
      using True hi(2) lov_stripe_offset_ref [OF assms(1) k eof(1)] lov_stripe_offset_ref [OF assms(1) k eof(2)]
      by (simp add: en ov lo [symmetric] hi(1) [symmetric] sd inj l_def [symmetric] h_def [symmetric])
    show ?thesis
      unfolding pre using True m l1 cnt_Suc [OF s k, of h]
      by (cases "ref_stripe s c h = k"; cases "ref_stripe s c l = k"; cases "cnt s c k l = cnt s c k h"; cases "l = h")
        (simp_all add: h l_def [symmetric] of_nat_diff)
  qed
qed

end
