(* ===== verification/Lov_Properties.thy ===== *)
theory Lov_Properties
  imports Lov_Reference
begin

text \<open>
  The properties of the striping arithmetic: the functions of \<^verbatim>\<open>lov_offset.c\<close> invert each other and
  count the bytes of an object, and \<^verbatim>\<open>lov_merge_lvb_kms\<close> recovers the size of a file.
\<close>

section \<open>Offsets\<close>

lemma ref_off_le: "0 < s \<Longrightarrow> 0 < c \<Longrightarrow> ref_off s c x \<le> x"
  using cnt_le [of s "ref_stripe s c x" c x] cnt_ref_off [of s c x] ref_stripe_less [of s c x] by simp

text \<open>
  C5: Every byte of a file has exactly one place in the objects and the arithmetic finds it in both
  directions. The byte at \<open>off\<close> is in a stripe \<open>k\<close> of the layout, \<^verbatim>\<open>lov_stripe_offset\<close> reports it as
  inside that stripe at an object offset \<open>obd\<close>, and \<^verbatim>\<open>lov_stripe_size\<close> of an object that ends with that
  byte is a file that ends with byte \<open>off\<close>.
\<close>

theorem lov_offset_roundtrip:
  assumes "striped lsm index s c" and "off \<noteq> OBD_OBJECT_EOF"
  shows "\<exists>k obd. lov_stripe_number lsm index off = Some k \<and> k < c \<and>
    lov_stripe_offset lsm index off k = Some (0, obd) \<and>
    lov_stripe_size lsm index (obd + 1) k = Some (off + 1)"
proof -
  have sc: "0 < s" "0 < c" using stripedE [OF assms(1)] by metis+
  define k o' where "k = ref_stripe s c (unat off)" and "o' = ref_off s c (unat off)"
  have k: "k < c" by (simp add: k_def ref_stripe_less sc)
  have "unat off < 2 ^ 64 - 1"
    using assms(2) order.not_eq_order_implies_strict [OF _ OBD_OBJECT_EOF_max [of off]]
    by (simp add: OBD_OBJECT_EOF_def word_less_nat_alt)
  then have o': "Suc o' < 2 ^ 64" using ref_off_le [OF sc, of "unat off"] by (simp add: o'_def)
  have "unat (of_nat o' + 1 :: u64) = Suc o'"
    using unat_of_nat_small [OF o'] by (simp add: add.commute)
  then have "lov_stripe_size lsm index (of_nat o' + 1) k = Some (of_nat (Suc (unat off)))"
    using ref_size_inverse [OF sc, of "unat off"] by (simp add: lov_stripe_size_ref [OF assms(1)] k_def o'_def)
  moreover have "lov_stripe_offset lsm index off k = Some (0, of_nat o')"
    using lov_stripe_offset_ref [OF assms(1) k assms(2)] ref_side_0 [OF sc(1), of c k "unat off"]
      cnt_ref_off [OF sc, of "unat off"] by (simp add: k_def o'_def)
  ultimately show ?thesis
    using k lov_stripe_number_ref [OF assms(1), of off]
    by (intro exI [of _ k] exI [of _ "of_nat o'"]) (simp add: k_def add.commute)
qed

text \<open>Three stripes of 64 KiB.\<close>

definition lsm_wit :: lov_stripe_md where
  "lsm_wit = \<lparr>lsm_lock_owner = 1, lsm_entries =
     [\<lparr>lsme_extent = \<lparr>e_start = 0, e_end = 0x100000\<rparr>, lsme_pattern = 1, lsme_stripe_size = 0x10000,
       lsme_stripe_count = 3,
       lsme_oinfo = map (\<lambda>n. \<lparr>loi_kms_valid = False, loi_kms = 0,
         loi_lvb = \<lparr>lvb_size = n, lvb_mtime = 7, lvb_atime = 0, lvb_ctime = 0, lvb_blocks = 8\<rparr>\<rparr>)
         [0x20000, 0x12345, 0x10000]\<rparr>]\<rparr>"

definition attr_wit :: cl_attr where
  "attr_wit = \<lparr>cat_size = 1, cat_kms_valid = False, cat_kms = 1, cat_mtime = 2, cat_atime = 3,
     cat_ctime = 4, cat_blocks = 5\<rparr>"

lemma striped_wit: "striped lsm_wit 0 0x10000 3"
  by (simp add: striped_def lsm_wit_def lsm_entry_def lsme_is_dom_def lov_pattern_def
      LOV_PATTERN_F_MASK_def LOV_PATTERN_MDT_def)

theorem lov_offset_roundtrip_witness:
  "\<exists>k obd. lov_stripe_number lsm_wit 0 0x42345 = Some k \<and> k < 3 \<and>
    lov_stripe_offset lsm_wit 0 0x42345 k = Some (0, obd) \<and>
    lov_stripe_size lsm_wit 0 (obd + 1) k = Some (0x42345 + 1)"
  by (rule lov_offset_roundtrip [OF striped_wit]) (simp add: OBD_OBJECT_EOF_def)

text \<open>
  C18: \<^verbatim>\<open>lov_stripe_offset\<close> counts: the object offset it returns for any stripe \<open>k\<close> is the number of bytes of
  the file before \<open>off\<close> that live in stripe \<open>k\<close>, and the side is 0 exactly if byte \<open>off\<close> lives there too.
\<close>

theorem lov_stripe_offset_counts:
  assumes "striped lsm index s c" and "k < c" and "off \<noteq> OBD_OBJECT_EOF"
  shows "\<exists>side obd. lov_stripe_offset lsm index off k = Some (side, obd) \<and>
    unat obd = card {x. x < unat off \<and> lov_stripe_number lsm index (of_nat x) = Some k} \<and>
    (side = 0 \<longleftrightarrow> lov_stripe_number lsm index off = Some k)"
proof -
  have s: "0 < s" using stripedE [OF assms(1)] by metis
  let ?n = "unat off"
  have "{x. x < ?n \<and> lov_stripe_number lsm index (of_nat x) = Some k} = {x. x < ?n \<and> ref_stripe s c x = k}"
    using unat_u64 [of off] less_trans [of _ ?n "2 ^ 64"]
    by (auto simp: lov_stripe_number_ref [OF assms(1)] unat_of_nat_small)
  moreover have "unat (of_nat (cnt s c k ?n) :: u64) = cnt s c k ?n"
    using cnt_le [OF s assms(2), of ?n] unat_u64 [of off] by (intro unat_of_nat_small) linarith
  ultimately show ?thesis
    using lov_stripe_offset_ref [OF assms] cnt_card [OF s assms(2), of ?n] ref_side_0 [OF s, of c k ?n]
    by (simp add: lov_stripe_number_ref [OF assms(1)])
qed

theorem lov_stripe_offset_counts_witness:
  "\<exists>side obd. lov_stripe_offset lsm_wit 0 0x42345 2 = Some (side, obd) \<and>
    unat obd = card {x. x < unat (0x42345 :: u64) \<and> lov_stripe_number lsm_wit 0 (of_nat x) = Some 2} \<and>
    (side = 0 \<longleftrightarrow> lov_stripe_number lsm_wit 0 0x42345 = Some 2)"
  by (rule lov_stripe_offset_counts [OF striped_wit]) (simp_all add: OBD_OBJECT_EOF_def)

text \<open>
  C27: The two clampings of a file offset to an object agree. \<^verbatim>\<open>lov_size_to_stripe\<close>, which moves a size back to
  the end of the previous stripe, and \<^verbatim>\<open>lov_stripe_offset\<close>, which moves an offset forward to the start of the
  next one, give the same object offset for every size from the start of the component on.
\<close>

theorem lov_size_to_stripe_equiv:
  assumes "striped lsm index s c" and "k < c" and "lsm_entry lsm index = Some e"
    and "e_start (lsme_extent e) \<le> sz"
  shows "lov_size_to_stripe lsm index sz k = map_option snd (lov_stripe_offset lsm index sz k)"
proof (cases "sz = OBD_OBJECT_EOF")
  case True
  then show ?thesis by (simp add: lov_size_to_stripe_def lov_stripe_offset_def assms(3))
next
  case False
  then show ?thesis
    using lov_size_to_stripe_ref [OF assms(1,2) _ assms(3)] lov_stripe_offset_ref [OF assms(1,2)] assms(4)
    by (simp add: leD)
qed

theorem lov_size_to_stripe_equiv_witness:
  "lov_size_to_stripe lsm_wit 0 0x42345 0 = map_option snd (lov_stripe_offset lsm_wit 0 0x42345 0)"
  by (rule lov_size_to_stripe_equiv [OF striped_wit, where e = "lsm_entries lsm_wit ! 0"])
    (simp_all add: lsm_entry_def lsm_wit_def)

section \<open>Extents\<close>

text \<open>The bytes of stripe \<open>k\<close> between two file offsets.\<close>

definition stripe_bytes :: "lov_stripe_md \<Rightarrow> nat \<Rightarrow> nat \<Rightarrow> u64 \<Rightarrow> u64 \<Rightarrow> u64 set" where
  "stripe_bytes lsm index k lo hi = {x. lo \<le> x \<and> x < hi \<and> lov_stripe_number lsm index x = Some k}"

lemma stripe_bytes_offsets:
  assumes "striped lsm index s c" and "k < c" and "hi \<noteq> OBD_OBJECT_EOF"
  shows "(\<lambda>x. snd (the (lov_stripe_offset lsm index x k))) ` stripe_bytes lsm index k lo hi =
    of_nat ` {cnt s c k (unat lo)..<cnt s c k (unat hi)}"
proof -
  have s: "0 < s" using stripedE [OF assms(1)] by metis
  let ?B = "{x. unat lo \<le> x \<and> x < unat hi \<and> ref_stripe s c x = k}"
  have "stripe_bytes lsm index k lo hi = {x. (unat lo \<le> unat x \<and> ref_stripe s c (unat x) = k) \<and> unat x < unat hi}"
    by (auto simp: stripe_bytes_def lov_stripe_number_ref [OF assms(1)] word_le_nat_alt word_less_nat_alt)
  also have "\<dots> = of_nat ` {x. (unat lo \<le> x \<and> ref_stripe s c x = k) \<and> x < unat hi}"
    by (rule unat_image_of_nat [OF unat_u64])
  finally have B: "stripe_bytes lsm index k lo hi = of_nat ` ?B" by (auto simp: image_def)
  have "snd (the (lov_stripe_offset lsm index (of_nat x) k)) = of_nat (cnt s c k x)" if "x \<in> ?B" for x
  proof -
    have x: "unat (of_nat x :: u64) = x" using that unat_u64 [of hi] by (intro unat_of_nat_small) simp
    have "x < unat OBD_OBJECT_EOF"
      using that OBD_OBJECT_EOF_max [of hi] by (simp add: word_le_nat_alt)
    then have "(of_nat x :: u64) \<noteq> OBD_OBJECT_EOF" using x by auto
    then show ?thesis using lov_stripe_offset_ref [OF assms(1,2)] x by simp
  qed
  then have "(\<lambda>x. snd (the (lov_stripe_offset lsm index x k))) ` of_nat ` ?B = of_nat ` cnt s c k ` ?B"
    unfolding image_image by (rule image_cong [OF refl])
  then show ?thesis unfolding B cnt_image [OF s assms(2)] .
qed

text \<open>
  C16: \<^verbatim>\<open>lov_stripe_intersects\<close> is exact on an extent that ends before the end of all files. It reports no
  intersection exactly if no byte of the extent and of the component is in the stripe, and the closed interval it
  returns otherwise holds exactly the object offsets of those bytes.
\<close>

theorem lov_stripe_intersects_exact:
  assumes "striped lsm index s c" and "k < c" and "lsm_entry lsm index = Some e"
    and "e_start ext < e_end ext" and "e_start (lsme_extent e) < e_end (lsme_extent e)"
    and "lo = max (e_start ext) (e_start (lsme_extent e))"
    and "hi = min (e_end ext) (e_end (lsme_extent e))" and "hi \<noteq> OBD_OBJECT_EOF"
  shows "case lov_stripe_intersects lsm index k ext of
      None \<Rightarrow> False
    | Some None \<Rightarrow> stripe_bytes lsm index k lo hi = {}
    | Some (Some (obd_start, obd_end)) \<Rightarrow> obd_start \<le> obd_end \<and>
        {obd_start..obd_end} =
          (\<lambda>x. snd (the (lov_stripe_offset lsm index x k))) ` stripe_bytes lsm index k lo hi"
proof -
  have s: "0 < s" using stripedE [OF assms(1)] by metis
  let ?a = "cnt s c k (unat lo)" and ?b = "cnt s c k (unat hi)"
  note img = stripe_bytes_offsets [OF assms(1,2,8), of lo]
  note ref = lov_stripe_intersects_ref [OF assms]
  show ?thesis
  proof (cases "?a < ?b \<and> lo < hi")
    case True
    then obtain d where d: "?b = Suc d" "?a \<le> d" by (cases ?b) auto
    have "d < 2 ^ 64" using d cnt_le [OF s assms(2), of "unat hi"] unat_u64 [of hi] by linarith
    note i = of_nat_image_interval [OF this d(2)]
    have "{of_nat ?a..(of_nat d :: u64)} \<noteq> {}" unfolding i [symmetric] using d by simp
    then show ?thesis unfolding ref img using True i by (simp add: d)
  next
    case False
    then have "stripe_bytes lsm index k lo hi = {}"
    proof (cases "lo < hi")
      case True
      then have "of_nat ` {?a..<?b} = ({} :: u64 set)" using False by simp
      then show ?thesis using img by simp
    qed (auto simp: stripe_bytes_def)
    then show ?thesis unfolding ref using False by simp
  qed
qed

theorem lov_stripe_intersects_exact_witness:
  "case lov_stripe_intersects lsm_wit 0 1 \<lparr>e_start = 0x15000, e_end = 0x42345\<rparr> of
      None \<Rightarrow> False
    | Some None \<Rightarrow> stripe_bytes lsm_wit 0 1 0x15000 0x42345 = {}
    | Some (Some (obd_start, obd_end)) \<Rightarrow> obd_start \<le> obd_end \<and>
        {obd_start..obd_end} =
          (\<lambda>x. snd (the (lov_stripe_offset lsm_wit 0 x 1))) ` stripe_bytes lsm_wit 0 1 0x15000 0x42345"
  by (rule lov_stripe_intersects_exact [OF striped_wit, where e = "lsm_entries lsm_wit ! 0"])
    (simp_all add: lsm_entry_def lsm_wit_def OBD_OBJECT_EOF_def)

section \<open>Merging the attributes of the objects\<close>

lemma OST_LVB_is_err:
  assumes "w < 2 ^ 32"
  shows "OST_LVB_IS_ERR (OST_LVB_ERR_MASK + w)"
proof -
  have "w = w AND mask 32"
    using assms by (simp add: less_mask_eq)
  then have "OST_LVB_ERR_MASK AND w = w AND (OST_LVB_ERR_MASK AND mask 32)" by (metis and.left_commute)
  also have "\<dots> = 0" by (simp add: OST_LVB_ERR_MASK_def mask_eq_exp_minus_1)
  finally have "OST_LVB_ERR_MASK + w = OST_LVB_ERR_MASK OR w" by (rule disjunctive_add_eq_or)
  then show ?thesis by (simp add: OST_LVB_IS_ERR_def word_ao_absorbs)
qed

lemma OST_LVB_err_roundtrip:
  assumes "- (2 ^ 31) \<le> rc" and "rc < 2 ^ 31"
  shows "OST_LVB_IS_ERR (OST_LVB_SET_ERR rc)" and "OST_LVB_GET_ERR (OST_LVB_SET_ERR rc) = rc"
proof -
  define j where "j = rc + 2 ^ 31"
  have "0 \<le> j" "j < 2 ^ 32" using assms by (simp_all add: j_def)
  then have "(word_of_int j :: u64) < 2 ^ 32"
    by (simp add: word_less_def uint_word_of_int_eq take_bit_int_eq_self)
  moreover have "OST_LVB_SET_ERR rc = OST_LVB_ERR_MASK + word_of_int j"
    by (simp add: j_def OST_LVB_SET_ERR_def OST_LVB_ERR_INIT_def OST_LVB_ERR_MASK_def)
  ultimately show "OST_LVB_IS_ERR (OST_LVB_SET_ERR rc)" using OST_LVB_is_err by simp
  show "OST_LVB_GET_ERR (OST_LVB_SET_ERR rc) = rc"
    using assms by (simp add: OST_LVB_GET_ERR_def OST_LVB_SET_ERR_def sint_sbintrunc'
        ucast_down_wi is_down signed_take_bit_int_eq_self)
qed

text \<open>The size that object \<open>i\<close> contributes to the merge.\<close>

definition obj_size :: "lov_oinfo \<Rightarrow> u64" where
  "obj_size loi = max (lvb_size (loi_lvb loi)) (if loi_kms_valid loi then loi_kms loi else 0)"

lemma lov_merge_one_ok:
  assumes "striped lsm index s c" and "\<not> OST_LVB_IS_ERR (lvb_blocks (loi_lvb loi))"
  shows "\<exists>st'. lov_merge_one lsm index i loi st = Some st' \<and> ms_rc st' = ms_rc st \<and>
    ms_size st' = max (of_nat (ref_size s c i (unat (obj_size loi)))) (ms_size st)"
  using assms(2) by (simp add: lov_merge_one_def lov_stripe_size_ref [OF assms(1)] Let_def obj_size_def)

lemma lov_merge_loop_ok:
  assumes "striped lsm index s c"
    and "\<forall>loi \<in> set lois. \<not> OST_LVB_IS_ERR (lvb_blocks (loi_lvb loi))"
  shows "\<exists>st'. lov_merge_loop lsm index i lois st = Some st' \<and> ms_rc st' = ms_rc st \<and>
    ms_size st' = fold max (map (\<lambda>j. of_nat (ref_size s c (i + j) (unat (obj_size (lois ! j))))) [0..<length lois]) (ms_size st)"
  using assms(2)
proof (induction lois arbitrary: i st)
  case (Cons loi lois)
  from lov_merge_one_ok [OF assms(1), of loi i st] Cons.prems obtain st1 where
    st1: "lov_merge_one lsm index i loi st = Some st1" "ms_rc st1 = ms_rc st"
      "ms_size st1 = max (of_nat (ref_size s c i (unat (obj_size loi)))) (ms_size st)" by auto
  have "[0..<length (loi # lois)] = 0 # map Suc [0..<length lois]"
    by (simp only: list.size map_Suc_upt upt_conv_Cons) simp
  with Cons.IH [of "i + 1" st1] Cons.prems st1 show ?case by (auto simp: o_def)
qed simp

lemma fold_max_eq:
  fixes S :: "'a :: linorder"
  assumes "\<forall>x \<in> set xs. x \<le> S" and "a \<le> S" and "a = S \<or> S \<in> set xs"
  shows "fold max xs a = S"
  using assms by (induction xs arbitrary: a) (auto simp: max_def)

text \<open>
  C17: Splitting a file size over the objects and merging it back gives the size. If no object reports an error
  and each object is as long as \<^verbatim>\<open>lov_size_to_stripe\<close> says for a file of size \<open>S\<close>, then \<^verbatim>\<open>lov_merge_lvb_kms\<close>
  succeeds with the file size \<open>S\<close>.
\<close>

theorem lov_merge_size_roundtrip:
  assumes "striped lsm index s c" and "lsm_entry lsm index = Some e" and "\<not> lsme_is_dom e"
    and "length (lsme_oinfo e) = lsme_stripe_count e" and "lsm_lock_owner lsm = pid"
    and "e_start (lsme_extent e) \<le> S" and "S \<noteq> OBD_OBJECT_EOF"
    and "\<forall>i < lsme_stripe_count e. \<not> OST_LVB_IS_ERR (lvb_blocks (loi_lvb (lsme_oinfo e ! i))) \<and>
      lov_size_to_stripe lsm index S i = Some (obj_size (lsme_oinfo e ! i))"
  shows "\<exists>attr'. lov_merge_lvb_kms pid lsm index attr = Some (0, attr') \<and> cat_size attr' = S"
proof -
  have sc: "0 < s" "0 < c" using stripedE [OF assms(1)] by metis+
  have c: "c = lsme_stripe_count e" using assms(1-3) by (auto simp: striped_def)
  let ?n = "unat S" and ?L = "lsme_oinfo e"
  let ?xs = "map (\<lambda>j. of_nat (ref_size s c (0 + j) (unat (obj_size (?L ! j)))) :: u64) [0..<length ?L]"
  have o': "unat (obj_size (?L ! i)) = cnt s c i ?n" if "i < c" for i
  proof -
    have "obj_size (?L ! i) = of_nat (cnt s c i ?n)"
      using assms(6,8) lov_size_to_stripe_ref [OF assms(1) that assms(7,2)] that c by (simp add: leD)
    then show ?thesis using cnt_le [OF sc(1) that, of ?n] unat_u64 [of S]
      by (simp add: unat_of_nat_small)
  qed
  have xs: "?xs = map (\<lambda>j. of_nat (ref_size s c j (cnt s c j ?n))) [0..<c]"
    using o' assms(4) c by simp
  have le: "(of_nat (ref_size s c j (cnt s c j ?n)) :: u64) \<le> S" if "j < c" for j
    using le_unat_uoi [OF ref_size_cnt_le [OF sc(1) that, of ?n]] ref_size_cnt_le [OF sc(1) that, of ?n]
    by (simp add: word_le_nat_alt)
  have "fold max ?xs 0 = S"
  proof (rule fold_max_eq)
    show "\<forall>x \<in> set ?xs. x \<le> S"
      unfolding xs using le by auto
    show "0 = S \<or> S \<in> set ?xs"
    proof (cases "S = 0")
      case False
      define k where "k = ref_stripe s c (?n - 1)"
      have n: "Suc (?n - 1) = ?n" using False by (simp add: unat_gt_0)
      have k: "k < c" by (simp add: k_def ref_stripe_less sc)
      have "cnt s c k ?n = ref_off s c (?n - 1) + 1"
        using cnt_Suc [OF sc(1) k, of "?n - 1"] cnt_ref_off [OF sc, of "?n - 1"] n by (simp add: k_def)
      then have "ref_size s c k (cnt s c k ?n) = ?n"
        using ref_size_inverse [OF sc, of "?n - 1"] n by (simp add: k_def)
      then show ?thesis unfolding xs using k by (auto simp: image_iff intro!: bexI [of _ k])
    qed simp
  qed simp
  moreover have "\<forall>loi \<in> set ?L. \<not> OST_LVB_IS_ERR (lvb_blocks (loi_lvb loi))"
    using assms(4,8) by (auto simp: in_set_conv_nth)
  ultimately show ?thesis
    using lov_merge_loop_ok [OF assms(1), of ?L 0 "merge_init attr"] assms(2,4,5)
    by (auto simp: lov_merge_lvb_kms_def merge_init_def)
qed

theorem lov_merge_size_roundtrip_witness:
  "\<exists>attr'. lov_merge_lvb_kms 1 lsm_wit 0 attr_wit = Some (0, attr') \<and> cat_size attr' = 0x42345"
  by (rule lov_merge_size_roundtrip [OF striped_wit, where e = "lsm_entries lsm_wit ! 0"])
    (simp_all add: lsm_entry_def lsm_wit_def OBD_OBJECT_EOF_def lsme_is_dom_def lov_pattern_def
      LOV_PATTERN_F_MASK_def LOV_PATTERN_MDT_def less_Suc_eq numeral_3_eq_3 OST_LVB_IS_ERR_def
      OST_LVB_ERR_MASK_def obj_size_def lov_size_to_stripe_def stripe_width_def)

text \<open>The error the loop ends with is that of the last object that has one.\<close>

lemma lov_merge_loop_rc:
  assumes "striped lsm index s c"
  shows "\<exists>st'. lov_merge_loop lsm index i lois st = Some st' \<and>
    ms_rc st' = last (ms_rc st # map OST_LVB_GET_ERR (filter OST_LVB_IS_ERR (map (lvb_blocks \<circ> loi_lvb) lois)))"
proof (induction lois arbitrary: i st)
  case (Cons loi lois)
  have "\<exists>st1. lov_merge_one lsm index i loi st = Some st1 \<and> ms_rc st1 =
      (if OST_LVB_IS_ERR (lvb_blocks (loi_lvb loi)) then OST_LVB_GET_ERR (lvb_blocks (loi_lvb loi)) else ms_rc st)"
    by (simp add: lov_merge_one_def lov_stripe_size_ref [OF assms] Let_def)
  then obtain st1 where st1: "lov_merge_one lsm index i loi st = Some st1" "ms_rc st1 =
      (if OST_LVB_IS_ERR (lvb_blocks (loi_lvb loi)) then OST_LVB_GET_ERR (lvb_blocks (loi_lvb loi)) else ms_rc st)"
    by blast
  show ?case using Cons.IH [of "i + 1" st1] st1 by auto
qed simp

text \<open>
  An object whose attributes could not be read makes the merge fail with its error. If object \<open>i\<close> carries the
  error \<open>rc\<close> that was stored with \<^verbatim>\<open>OST_LVB_SET_ERR\<close> and no later object carries one, \<^verbatim>\<open>lov_merge_lvb_kms\<close> returns
  \<open>rc\<close> and changes nothing of the attributes but the validity of the known minimum size.
\<close>

theorem lov_merge_reports_error:
  assumes "striped lsm index s c" and "lsm_entry lsm index = Some e"
    and "length (lsme_oinfo e) = lsme_stripe_count e" and "lsm_lock_owner lsm = pid"
    and "i < lsme_stripe_count e" and "lvb_blocks (loi_lvb (lsme_oinfo e ! i)) = OST_LVB_SET_ERR rc"
    and "- (2 ^ 31) \<le> rc" and "rc < 2 ^ 31" and "rc \<noteq> 0"
    and "\<forall>j. i < j \<and> j < lsme_stripe_count e \<longrightarrow> \<not> OST_LVB_IS_ERR (lvb_blocks (loi_lvb (lsme_oinfo e ! j)))"
  shows "\<exists>attr'. lov_merge_lvb_kms pid lsm index attr = Some (rc, attr') \<and>
    attr' = attr\<lparr>cat_kms_valid := cat_kms_valid attr'\<rparr>"
proof -
  let ?L = "lsme_oinfo e" and ?B = "lvb_blocks \<circ> loi_lvb"
  have L: "map ?B ?L = map ?B (take i ?L) @ OST_LVB_SET_ERR rc # map ?B (drop (Suc i) ?L)"
    using assms(3,5,6) by (subst id_take_nth_drop [of i ?L]) simp_all
  have "filter OST_LVB_IS_ERR (map ?B (drop (Suc i) ?L)) = []"
    using assms(3,10) by (auto simp: filter_empty_conv in_set_conv_nth)
  then have "last (0 # map OST_LVB_GET_ERR (filter OST_LVB_IS_ERR (map ?B ?L))) = rc"
    unfolding L using OST_LVB_err_roundtrip [OF assms(7,8)] by simp
  then show ?thesis
    using lov_merge_loop_rc [OF assms(1), of 0 ?L "merge_init attr"] assms(2-4,9)
    by (auto simp: lov_merge_lvb_kms_def merge_init_def)
qed

definition lsm_err_wit :: lov_stripe_md where
  "lsm_err_wit = \<lparr>lsm_lock_owner = 1, lsm_entries =
     [\<lparr>lsme_extent = \<lparr>e_start = 0, e_end = 0x100000\<rparr>, lsme_pattern = 1, lsme_stripe_size = 0x10000,
       lsme_stripe_count = 2,
       lsme_oinfo = map (\<lambda>b. \<lparr>loi_kms_valid = True, loi_kms = 5,
         loi_lvb = \<lparr>lvb_size = 5, lvb_mtime = 7, lvb_atime = 0, lvb_ctime = 0, lvb_blocks = b\<rparr>\<rparr>)
         [OST_LVB_SET_ERR (- 5), 8]\<rparr>]\<rparr>"

theorem lov_merge_reports_error_witness:
  "\<exists>attr'. lov_merge_lvb_kms 1 lsm_err_wit 0 attr_wit = Some (- 5, attr') \<and>
    attr' = attr_wit\<lparr>cat_kms_valid := cat_kms_valid attr'\<rparr>"
  by (rule lov_merge_reports_error [where s = "0x10000" and c = 2 and i = 0 and e = "lsm_entries lsm_err_wit ! 0"])
    (auto simp: lsm_entry_def lsm_err_wit_def striped_def lsme_is_dom_def lov_pattern_def
      LOV_PATTERN_F_MASK_def LOV_PATTERN_MDT_def less_2_cases_iff OST_LVB_IS_ERR_def
      OST_LVB_ERR_MASK_def)

end
