(* ===== verification/Seq_Store.thy ===== *)
theory Seq_Store
  imports Seq_Range
begin

text \<open>
  The sequence manager's state and its record on disk: \<^verbatim>\<open>struct lu_server_seq\<close> and
  \<^verbatim>\<open>lustre/fid/fid_store.c\<close>. The record is written in transactions of the object storage. A
  transaction whose handle is synchronous is on disk, with all transactions before it, when
  \<^verbatim>\<open>dt_trans_stop\<close> returns 0. The others are on disk after a later commit, in order, and lost in a crash before
  that. Byte order conversion on the way to the disk and back is left out.
\<close>

datatype lu_mgr_type = LUSTRE_SEQ_SERVER | LUSTRE_SEQ_CONTROLLER

record lu_server_seq =
  lss_space :: lu_seq_range
  lss_lowater_set :: lu_seq_range
  lss_hiwater_set :: lu_seq_range
  lss_type :: lu_mgr_type
  lss_width :: u64
  lss_set_width :: u64
  lss_need_sync :: bool

text \<open>
  A manager with its file. \<open>srv_disk\<close> is the committed record, \<open>srv_journal\<close> the writes that are not committed
  yet, oldest first, each with the information whether \<^verbatim>\<open>seq_update_cb\<close> is registered for its commit.
\<close>

record seq_server =
  srv_seq :: lu_server_seq
  srv_disk :: "lu_seq_range option"
  srv_journal :: "(lu_seq_range \<times> bool) list"

text \<open>What the storage layer and the allocator answer during one update.\<close>

record store_results =
  sr_rdonly :: bool
  sr_create :: int
  sr_declare :: int
  sr_fld_declare :: int
  sr_start :: int
  sr_write :: int
  sr_fld_create :: int
  sr_cb_alloc :: bool
  sr_cb_add :: int
  sr_th_sync :: bool
  sr_stop :: int

section \<open>Commits\<close>

definition seq_update_cb :: "lu_server_seq \<Rightarrow> lu_server_seq" where
  "seq_update_cb seq = seq\<lparr>lss_need_sync := False\<rparr>"

definition commit_write :: "lu_seq_range \<times> bool \<Rightarrow> seq_server \<Rightarrow> seq_server" where
  "commit_write w st = st\<lparr>srv_disk := Some (fst w),
     srv_seq := if snd w then seq_update_cb (srv_seq st) else srv_seq st\<rparr>"

definition commit_first :: "seq_server \<Rightarrow> seq_server" where
  "commit_first st = (case srv_journal st of [] \<Rightarrow> st
     | w # ws \<Rightarrow> (commit_write w st)\<lparr>srv_journal := ws\<rparr>)"

text \<open>\<open>rc\<close> is the status that \<^verbatim>\<open>dt_trans_stop\<close> returns: when it fails, nothing is on disk yet.\<close>

definition dt_trans_stop :: "int \<Rightarrow> bool \<Rightarrow> seq_server \<Rightarrow> seq_server" where
  "dt_trans_stop rc th_sync st =
     (if rc = 0 \<and> th_sync then (fold commit_write (srv_journal st) st)\<lparr>srv_journal := []\<rparr> else st)"

section \<open>Updates\<close>

definition seq_update_cb_add :: "store_results \<Rightarrow> lu_server_seq \<Rightarrow> int \<times> lu_server_seq" where
  "seq_update_cb_add res seq =
     (if \<not> sr_cb_alloc res then (- ENOMEM, seq)
      else (sr_cb_add res, seq\<lparr>lss_need_sync := True\<rparr>))"

text \<open>
  \<open>out\<close> tells whether a range for the location database is passed. The status of \<^verbatim>\<open>dt_trans_stop\<close> at the label
  \<^verbatim>\<open>exit\<close> is dropped.
\<close>

definition seq_store_update :: "store_results \<Rightarrow> bool \<Rightarrow> bool \<Rightarrow> seq_server \<Rightarrow> int \<times> seq_server" where
  "seq_store_update res out sync st =
     (let wr = (\<lambda>cb s. s\<lparr>srv_journal := srv_journal s @ [(lss_space (srv_seq s), cb)]\<rparr>) in
      if sr_rdonly res then (0, st)
      else if sr_create res \<noteq> 0 then (sr_create res, st)
      else if sr_declare res \<noteq> 0 then (sr_declare res, st)
      else if out \<and> sr_fld_declare res \<noteq> 0 then (sr_fld_declare res, st)
      else if sr_start res \<noteq> 0 then (sr_start res, st)
      else if sr_write res \<noteq> 0 then (sr_write res, st)
      else if out \<and> sr_fld_create res \<noteq> 0
      then (sr_fld_create res, dt_trans_stop (sr_stop res) (sr_th_sync res) (wr False st))
      else
        let (rc, seq) = (if \<not> sync then seq_update_cb_add res (srv_seq st) else (0, srv_seq st));
            cb = (\<not> sync \<and> rc = 0);
            sync' = (sync \<or> rc \<noteq> 0)
        in (0, dt_trans_stop (sr_stop res) (sr_th_sync res \<or> sync') (wr cb (st\<lparr>srv_seq := seq\<rparr>))))"

text \<open>\<open>len\<close> is the number of bytes that \<^verbatim>\<open>dt_read\<close> delivered, or its error.\<close>

definition sizeof_lu_seq_range :: int where "sizeof_lu_seq_range = 24"

definition seq_store_read :: "int \<Rightarrow> lu_seq_range \<Rightarrow> lu_server_seq \<Rightarrow> int \<times> lu_server_seq" where
  "seq_store_read len sti_space seq =
     (if len = sizeof_lu_seq_range then (0, seq\<lparr>lss_space := sti_space\<rparr>)
      else if len = 0 then (- ENODATA, seq)
      else if len > 0 then (- EIO, seq)
      else (len, seq))"

section \<open>What an update leaves behind\<close>

text \<open>No call of the storage layer fails.\<close>

definition store_ok :: "store_results \<Rightarrow> bool" where
  "store_ok res \<longleftrightarrow> \<not> sr_rdonly res \<and> sr_create res = 0 \<and> sr_declare res = 0 \<and> sr_fld_declare res = 0 \<and>
     sr_start res = 0 \<and> sr_write res = 0 \<and> sr_fld_create res = 0 \<and> sr_stop res = 0"

text \<open>A write that is reported as done and synchronous is on disk.\<close>

definition durable :: "store_results \<Rightarrow> bool" where
  "durable res \<longleftrightarrow> \<not> sr_rdonly res \<and> sr_stop res = 0"

lemma store_ok_durable: "store_ok res \<Longrightarrow> durable res"
  by (simp add: store_ok_def durable_def)

lemma commit_write_simps [simp]:
  "srv_disk (commit_write w st) = Some (fst w)"
  "srv_journal (commit_write w st) = srv_journal st"
  "lss_space (srv_seq (commit_write w st)) = lss_space (srv_seq st)"
  "lss_lowater_set (srv_seq (commit_write w st)) = lss_lowater_set (srv_seq st)"
  "lss_hiwater_set (srv_seq (commit_write w st)) = lss_hiwater_set (srv_seq st)"
  "lss_width (srv_seq (commit_write w st)) = lss_width (srv_seq st)"
  "lss_set_width (srv_seq (commit_write w st)) = lss_set_width (srv_seq st)"
  "lss_type (srv_seq (commit_write w st)) = lss_type (srv_seq st)"
  by (simp_all add: commit_write_def seq_update_cb_def)

text \<open>The fields of a manager that no update touches.\<close>

definition same_ranges :: "seq_server \<Rightarrow> seq_server \<Rightarrow> bool" where
  "same_ranges st st' \<longleftrightarrow> lss_space (srv_seq st') = lss_space (srv_seq st) \<and>
     lss_lowater_set (srv_seq st') = lss_lowater_set (srv_seq st) \<and>
     lss_hiwater_set (srv_seq st') = lss_hiwater_set (srv_seq st) \<and>
     lss_width (srv_seq st') = lss_width (srv_seq st) \<and>
     lss_set_width (srv_seq st') = lss_set_width (srv_seq st) \<and>
     lss_type (srv_seq st') = lss_type (srv_seq st)"

lemma same_ranges_refl [simp]: "same_ranges st st"
  by (simp add: same_ranges_def)

lemma same_ranges_trans: "same_ranges a b \<Longrightarrow> same_ranges b c \<Longrightarrow> same_ranges a c"
  by (simp add: same_ranges_def)

lemma same_ranges_fold: "same_ranges st (fold commit_write ws st)"
  by (induction ws arbitrary: st) (auto simp: same_ranges_def)

lemma fold_commit_disk: "ws \<noteq> [] \<Longrightarrow> srv_disk (fold commit_write ws st) = Some (fst (last ws))"
  by (induction ws arbitrary: st rule: rev_induct) simp_all

lemma dt_trans_stop_same [simp]: "same_ranges st (dt_trans_stop rc b st)"
  using same_ranges_fold [of st "srv_journal st"] by (simp add: dt_trans_stop_def same_ranges_def)

lemma dt_trans_stop_sync:
  "srv_journal st \<noteq> [] \<Longrightarrow> srv_disk (dt_trans_stop 0 True st) = Some (fst (last (srv_journal st)))"
  "srv_journal (dt_trans_stop 0 True st) = []"
  by (simp_all add: dt_trans_stop_def fold_commit_disk)

lemma seq_store_update_same:
  assumes "seq_store_update res out sync st = (rc, st')"
  shows "same_ranges st st'"
  using assms dt_trans_stop_same
  by (auto simp: seq_store_update_def Let_def seq_update_cb_add_def same_ranges_def split: if_splits)

text \<open>A successful synchronous update has the current space on disk.\<close>

lemma seq_store_update_sync:
  assumes "seq_store_update res out True st = (0, st')" and "durable res"
  shows "srv_disk st' = Some (lss_space (srv_seq st'))" and "srv_journal st' = []"
    and "srv_disk st' = Some (lss_space (srv_seq st))"
  using assms same_ranges_fold [of "st\<lparr>srv_journal := srv_journal st @ [(lss_space (srv_seq st), False)]\<rparr>"]
  by (auto simp: seq_store_update_def Let_def dt_trans_stop_def fold_commit_disk same_ranges_def durable_def split: if_splits)

text \<open>A failed update leaves the record on disk, or adds the current space to it.\<close>

lemma seq_store_update_cases:
  assumes "seq_store_update res out sync st = (rc, st')"
  shows "(srv_disk st' = srv_disk st \<and> srv_journal st' = srv_journal st) \<or>
    (srv_disk st' = srv_disk st \<and> (\<exists>cb. srv_journal st' = srv_journal st @ [(lss_space (srv_seq st), cb)])) \<or>
    (srv_disk st' = Some (lss_space (srv_seq st)) \<and> srv_journal st' = [])"
  using assms
  by (auto simp: seq_store_update_def Let_def dt_trans_stop_def fold_commit_disk seq_update_cb_add_def
      split: if_splits)

text \<open>An update that does not fail is on disk, or leaves the manager in need of a synchronous one.\<close>

lemma seq_store_update_ok:
  assumes "seq_store_update res out sync st = (rc, st')" and "store_ok res"
  shows "rc = 0"
    and "(srv_disk st' = Some (lss_space (srv_seq st)) \<and> srv_journal st' = []) \<or>
      (\<not> sync \<and> srv_disk st' = srv_disk st \<and> srv_journal st' = srv_journal st @ [(lss_space (srv_seq st), True)] \<and>
       lss_need_sync (srv_seq st'))"
  using assms
  by (auto simp: seq_store_update_def Let_def dt_trans_stop_def fold_commit_disk store_ok_def
      seq_update_cb_add_def errno_defs split: if_splits prod.splits)

end
