(* ===== verification/Seq_Server.thy ===== *)
theory Seq_Server
  imports Seq_Store
begin

text \<open>
  The sequence manager, \<^verbatim>\<open>lustre/fid/fid_handler.c\<close> and \<^verbatim>\<open>seq_client_alloc_super\<close> with the RPC it sends
  (\<^verbatim>\<open>lustre/fid/fid_request.c\<close>). The controller on MDT0 cuts super-sequences from the whole space; a
  server cuts meta-sequences from its super-sequence, directly or through the low and high water sets.
  Functions whose C name starts with two underscores have the suffix \<open>_locked\<close>. The mutexes make each
  operation atomic. \<^term>\<open>None\<close> is a violated \<^verbatim>\<open>LASSERT\<close>.
\<close>

definition FID_SEQ_NORMAL :: u64 where "FID_SEQ_NORMAL = 0x200000400"

definition LUSTRE_SEQ_SPACE_RANGE :: lu_seq_range where
  "LUSTRE_SEQ_SPACE_RANGE = \<lparr>lsr_start = FID_SEQ_NORMAL, lsr_end = NOT 0, lsr_index = 0, lsr_flags = 0\<rparr>"

definition LUSTRE_SEQ_ZERO_RANGE :: lu_seq_range where
  "LUSTRE_SEQ_ZERO_RANGE = \<lparr>lsr_start = 0, lsr_end = 0, lsr_index = 0, lsr_flags = 0\<rparr>"

definition LUSTRE_METADATA_SEQ_MAX_WIDTH :: u64 where "LUSTRE_METADATA_SEQ_MAX_WIDTH = 0x20000"
definition LUSTRE_DATA_SEQ_MAX_WIDTH :: u64 where "LUSTRE_DATA_SEQ_MAX_WIDTH = 0x1FFFFFF"
definition LUSTRE_SEQ_META_WIDTH :: u64 where "LUSTRE_SEQ_META_WIDTH = 1"
definition LUSTRE_SEQ_BATCH_WIDTH :: u64 where "LUSTRE_SEQ_BATCH_WIDTH = LUSTRE_SEQ_META_WIDTH * 1000"
definition LUSTRE_SEQ_SUPER_WIDTH :: u64 where
  "LUSTRE_SEQ_SUPER_WIDTH = push_bit 30 1 * LUSTRE_SEQ_META_WIDTH"

section \<open>Super-sequences\<close>

definition range_alloc :: "lu_seq_range \<Rightarrow> lu_seq_range \<Rightarrow> u64 \<Rightarrow> lu_seq_range \<times> lu_seq_range" where
  "range_alloc to from width0 =
     (let width = min (lu_seq_range_space from) width0 in
      (to\<lparr>lsr_start := lsr_start from, lsr_end := lsr_start from + width\<rparr>,
       from\<lparr>lsr_start := lsr_start from + width\<rparr>))"

definition set_space :: "lu_seq_range \<Rightarrow> seq_server \<Rightarrow> seq_server" where
  "set_space space st = st\<lparr>srv_seq := (srv_seq st)\<lparr>lss_space := space\<rparr>\<rparr>"

definition seq_server_alloc_super_locked ::
  "store_results \<Rightarrow> seq_server \<Rightarrow> lu_seq_range \<Rightarrow> (int \<times> lu_seq_range \<times> seq_server) option" where
  "seq_server_alloc_super_locked res st out =
     do { let space = lss_space (srv_seq st);
          LASSERT (lu_seq_range_is_sane space);
          if lu_seq_range_is_exhausted space then Some (- ENOSPC, out, st)
          else do {
            let (out', space') = range_alloc out space (lss_width (srv_seq st));
            let (rc, st') = seq_store_update res True True (set_space space' st);
            Some (rc, out', st') } }"

definition seq_server_alloc_super ::
  "store_results \<Rightarrow> seq_server \<Rightarrow> lu_seq_range \<Rightarrow> (int \<times> lu_seq_range \<times> seq_server) option" where
  "seq_server_alloc_super res seq out = seq_server_alloc_super_locked res seq out"

definition seq_server_alloc_spec ::
  "store_results \<Rightarrow> seq_server \<Rightarrow> lu_seq_range \<Rightarrow> int \<times> seq_server" where
  "seq_server_alloc_spec res st spec =
     (let space = lss_space (srv_seq st) in
      if lsr_start spec \<ge> lsr_end spec then (- EINVAL, st)
      else if lsr_flags spec \<noteq> LU_SEQ_RANGE_MDT \<and> lsr_flags spec \<noteq> LU_SEQ_RANGE_OST then (- EINVAL, st)
      else if lsr_start spec \<ge> lsr_start space
      then seq_store_update res True True (set_space (space\<lparr>lsr_start := lsr_end spec\<rparr>) st)
      else (- ENOSPC, st))"

section \<open>Asking for a super-sequence\<close>

datatype lu_cli_type = LUSTRE_SEQ_METADATA | LUSTRE_SEQ_DATA

record lu_fid =
  f_seq :: u64
  f_oid :: u32
  f_ver :: u32

text \<open>
  \<open>lcs_exp\<close> tells whether an export is set. The manager \<^verbatim>\<open>lcs_srv\<close> on the same node, if there is one, is
  an argument of the functions that use it.
\<close>

record lu_client_seq =
  lcs_exp :: bool
  lcs_space :: lu_seq_range
  lcs_fid :: lu_fid
  lcs_type :: lu_cli_type
  lcs_width :: u64

definition SEQ_ALLOC_SUPER :: u32 where "SEQ_ALLOC_SUPER = 0"
definition SEQ_ALLOC_META :: u32 where "SEQ_ALLOC_META = 1"

definition OSC_REPLY_PORTAL :: nat where "OSC_REPLY_PORTAL = 4"
definition MDC_REPLY_PORTAL :: nat where "MDC_REPLY_PORTAL = 10"
definition SEQ_METADATA_PORTAL :: nat where "SEQ_METADATA_PORTAL = 30"
definition SEQ_DATA_PORTAL :: nat where "SEQ_DATA_PORTAL = 31"
definition SEQ_CONTROLLER_PORTAL :: nat where "SEQ_CONTROLLER_PORTAL = 32"

record seq_request =
  rq_opc :: u32
  rq_range :: lu_seq_range
  rq_request_portal :: nat
  rq_reply_portal :: nat
  rq_no_resend :: bool
  rq_no_delay :: bool
  rq_allow_replay :: bool

definition seq_client_request :: "lu_client_seq \<Rightarrow> u32 \<Rightarrow> seq_request" where
  "seq_client_request seq opc =
     (let rng = lu_seq_range_init\<lparr>lsr_index := lsr_index (lcs_space seq)\<rparr>;
          rng' = (if lcs_type seq = LUSTRE_SEQ_METADATA then fld_range_set_mdt rng else fld_range_set_ost rng)
      in if opc = SEQ_ALLOC_SUPER
         then \<lparr>rq_opc = opc, rq_range = rng', rq_request_portal = SEQ_CONTROLLER_PORTAL,
               rq_reply_portal = MDC_REPLY_PORTAL, rq_no_resend = (lcs_type seq = LUSTRE_SEQ_DATA),
               rq_no_delay = (lcs_type seq = LUSTRE_SEQ_DATA), rq_allow_replay = True\<rparr>
         else if lcs_type seq = LUSTRE_SEQ_METADATA
         then \<lparr>rq_opc = opc, rq_range = rng', rq_request_portal = SEQ_METADATA_PORTAL,
               rq_reply_portal = MDC_REPLY_PORTAL, rq_no_resend = False, rq_no_delay = False,
               rq_allow_replay = True\<rparr>
         else \<lparr>rq_opc = opc, rq_range = rng', rq_request_portal = SEQ_DATA_PORTAL,
               rq_reply_portal = OSC_REPLY_PORTAL, rq_no_resend = False, rq_no_delay = False,
               rq_allow_replay = True\<rparr>)"

text \<open>
  \<open>pack\<close> is the error of packing the request, \<open>send\<close> the RPC layer and the server behind it: the status and the
  range of the reply to a request.
\<close>

type_synonym seq_send = "seq_request \<Rightarrow> int \<times> lu_seq_range"

definition seq_client_rpc ::
  "int \<Rightarrow> seq_send \<Rightarrow> lu_client_seq \<Rightarrow> lu_seq_range \<Rightarrow> u32 \<Rightarrow> (int \<times> lu_seq_range) option" where
  "seq_client_rpc pack send seq output opc =
     do { LASSERT (lcs_exp seq);
          if pack \<noteq> 0 then Some (pack, output)
          else do {
            let (rc, out) = send (seq_client_request seq opc);
            Some (if rc \<noteq> 0 then (rc, output)
                  else if \<not> lu_seq_range_is_sane out then (- EINVAL, out)
                  else if lu_seq_range_is_exhausted out then (- EINVAL, out)
                  else (0, out)) } }"

definition seq_client_alloc_super ::
  "int \<Rightarrow> seq_send \<Rightarrow> store_results \<Rightarrow> lu_client_seq \<Rightarrow> seq_server option
     \<Rightarrow> (int \<times> lu_client_seq \<times> seq_server option) option" where
  "seq_client_alloc_super pack send res seq lcs_srv =
     (case lcs_srv of
        Some ctl \<Rightarrow> do {
          (rc, out, ctl') \<leftarrow> seq_server_alloc_super res ctl (lcs_space seq);
          Some (rc, seq\<lparr>lcs_space := out\<rparr>, Some ctl') }
      | None \<Rightarrow>
          if \<not> lcs_exp seq then Some (- EINPROGRESS, seq, None)
          else do { (rc, out) \<leftarrow> seq_client_rpc pack send seq (lcs_space seq) SEQ_ALLOC_SUPER;
                    Some (rc, seq\<lparr>lcs_space := out\<rparr>, None) })"

section \<open>Meta-sequences\<close>

text \<open>
  The managers of a node. \<open>site_cli\<close> is \<^verbatim>\<open>lss_cli\<close> of the server, the client that asks for super-sequences;
  \<open>site_ctl\<close> is \<^verbatim>\<open>ss_control_seq\<close>, the controller on MDT0, to which \<^verbatim>\<open>lcs_srv\<close> of that client points.
\<close>

record seq_site =
  site_srv :: seq_server
  site_cli :: "lu_client_seq option"
  site_ctl :: "seq_server option"
  ss_node_id :: u32

text \<open>The answers of the environment during one attempt to allocate.\<close>

record meta_env =
  me_pack :: int
  me_send :: seq_send
  me_ctl :: store_results
  me_fld :: int
  me_init :: store_results
  me_init_set :: store_results
  me_store :: store_results
  me_fail :: bool
  me_num_exports :: u64
  me_last_seq :: "int \<times> u64"

definition seq_server_set_cli :: "seq_site \<Rightarrow> lu_client_seq option \<Rightarrow> int \<times> seq_site" where
  "seq_server_set_cli site cli =
     (case cli of None \<Rightarrow> (0, site\<lparr>site_cli := None\<rparr>)
      | Some c \<Rightarrow>
          if site_cli site \<noteq> None then (- EEXIST, site)
          else (0, site\<lparr>site_cli := Some (c\<lparr>lcs_space := (lcs_space c)\<lparr>lsr_index := ss_node_id site\<rparr>\<rparr>)\<rparr>))"

definition seq_set_init_locked :: "store_results \<Rightarrow> seq_server \<Rightarrow> int \<times> seq_server" where
  "seq_set_init_locked res st =
     (let seq = srv_seq st;
          (lo, space1) = range_alloc (lss_lowater_set seq) (lss_space seq) (lss_set_width seq);
          (hi, space2) = range_alloc (lss_hiwater_set seq) space1 (lss_set_width seq)
      in seq_store_update res False True
           (st\<lparr>srv_seq := seq\<lparr>lss_space := space2, lss_lowater_set := lo, lss_hiwater_set := hi\<rparr>\<rparr>))"

text \<open>The branch of \<^verbatim>\<open>range_alloc_set\<close> that reached the high water mark.\<close>

definition switch_to_hiwater :: "meta_env \<Rightarrow> seq_server \<Rightarrow> int \<times> seq_server" where
  "switch_to_hiwater env st =
     (let seq = srv_seq st; space = lss_space seq;
          set_sz = max (lss_set_width seq) (me_num_exports env * lss_width seq);
          set_sz' = min (lu_seq_range_space space) set_sz;
          (hi, space') = range_alloc (lss_hiwater_set seq) space set_sz'
      in seq_store_update (me_store env) False (lss_need_sync seq)
           (st\<lparr>srv_seq := seq\<lparr>lss_lowater_set := lss_hiwater_set seq, lss_hiwater_set := hi,
                               lss_space := space'\<rparr>\<rparr>))"

definition range_alloc_set ::
  "meta_env \<Rightarrow> lu_seq_range \<Rightarrow> seq_server \<Rightarrow> (int \<times> lu_seq_range \<times> seq_server) option" where
  "range_alloc_set env out st =
     do { let st1 = (if lu_seq_range_is_zero (lss_lowater_set (srv_seq st))
                     then snd (seq_set_init_locked (me_init_set env) st) else st);
          let lo1 = lss_lowater_set (srv_seq st1);
          let lo2 = (if me_fail env then lo1\<lparr>lsr_start := lsr_end lo1\<rparr> else lo1);
          let st2 = st1\<lparr>srv_seq := (srv_seq st1)\<lparr>lss_lowater_set := lo2\<rparr>\<rparr>;
          let (rc, st3) = (if lu_seq_range_is_exhausted lo2 then switch_to_hiwater env st2 else (0, st2));
          let lo3 = lss_lowater_set (srv_seq st3);
          LASSERT (\<not> lu_seq_range_is_exhausted lo3 \<or> lu_seq_range_is_sane lo3);
          if rc = 0 then
            let (out', lo4) = range_alloc out lo3 (lss_width (srv_seq st3))
            in Some (rc, out', st3\<lparr>srv_seq := (srv_seq st3)\<lparr>lss_lowater_set := lo4\<rparr>\<rparr>)
          else Some (rc, out, st3) }"

text \<open>The water sets are filled at the end of \<^verbatim>\<open>seq_server_check_and_alloc_super\<close>; the result of it is dropped.\<close>

definition check_set_init :: "meta_env \<Rightarrow> seq_site \<Rightarrow> seq_site" where
  "check_set_init env site =
     (let st = site_srv site in
      if lu_seq_range_is_zero (lss_lowater_set (srv_seq st)) \<and> lss_set_width (srv_seq st) \<noteq> 0
      then site\<lparr>site_srv := snd (seq_set_init_locked (me_init env) st)\<rparr> else site)"

definition seq_server_check_and_alloc_super :: "meta_env \<Rightarrow> seq_site \<Rightarrow> (int \<times> seq_site) option" where
  "seq_server_check_and_alloc_super env site =
     (if lu_seq_range_is_exhausted (lss_space (srv_seq (site_srv site)))
      then case site_cli site of
        None \<Rightarrow> Some (- ENODEV, site)
      | Some cli \<Rightarrow> do {
          (rc, cli', ctl') \<leftarrow> seq_client_alloc_super (me_pack env) (me_send env) (me_ctl env) cli (site_ctl site);
          let site1 = site\<lparr>site_cli := Some cli', site_ctl := ctl'\<rparr>;
          if rc \<noteq> 0 then Some (rc, site1)
          else do {
            let site2 = site1\<lparr>site_srv := set_space (lcs_space cli') (site_srv site1)\<rparr>;
            LASSERT (lu_seq_range_is_sane (lcs_space cli'));
            Some (if ctl' = None then me_fld env else 0, check_set_init env site2) } }
      else Some (0, check_set_init env site))"

text \<open>
  The loop behind the label \<^verbatim>\<open>restart\<close>: each attempt takes the answers of the environment from the head
  of the list. The inner \<^term>\<open>None\<close> says that the loop is still running when the list ends.
\<close>

fun alloc_meta_restart ::
  "meta_env list \<Rightarrow> lu_seq_range \<Rightarrow> seq_site \<Rightarrow> (int \<times> lu_seq_range \<times> seq_site) option option" where
  "alloc_meta_restart [] out site = Some None"
| "alloc_meta_restart (env # envs) out site =
     do { (rc, site1) \<leftarrow> seq_server_check_and_alloc_super env site;
          if rc < 0 then Some (Some (rc, out, site1))
          else if lss_set_width (srv_seq (site_srv site1)) \<noteq> 0
          then do { (rc, out', st) \<leftarrow> range_alloc_set env out (site_srv site1);
                    Some (Some (rc, out', site1\<lparr>site_srv := st\<rparr>)) }
          else do {
            let st = site_srv site1;
            let space = lss_space (srv_seq st);
            let (lrc, last_seq) = me_last_seq env;
            if lrc = 0 \<and> last_seq + 1 \<ge> lsr_end space
            then alloc_meta_restart envs out
                   (site1\<lparr>site_srv := set_space (space\<lparr>lsr_start := lsr_end space\<rparr>) st\<rparr>)
            else do {
              let space1 = (if lrc = 0 \<and> last_seq \<ge> lsr_start space
                            then space\<lparr>lsr_start := last_seq + 1\<rparr> else space);
              let (out', space2) = range_alloc out space1 (lss_width (srv_seq st));
              let (rc, st') = seq_store_update (me_store env) False True (set_space space2 st);
              Some (Some (rc, out', site1\<lparr>site_srv := st'\<rparr>)) } } }"

definition seq_server_alloc_meta_locked ::
  "meta_env list \<Rightarrow> lu_seq_range \<Rightarrow> seq_site \<Rightarrow> (int \<times> lu_seq_range \<times> seq_site) option option" where
  "seq_server_alloc_meta_locked envs out site =
     do { LASSERT (lu_seq_range_is_sane (lss_space (srv_seq (site_srv site))));
          alloc_meta_restart envs out site }"

definition seq_server_alloc_meta ::
  "meta_env list \<Rightarrow> lu_seq_range \<Rightarrow> seq_site \<Rightarrow> (int \<times> lu_seq_range \<times> seq_site) option option" where
  "seq_server_alloc_meta envs out site = seq_server_alloc_meta_locked envs out site"

section \<open>Requests\<close>

text \<open>
  \<open>server\<close> tells whether the server is initialised, \<open>rdonly\<close> whether the device of the manager is read-only.
\<close>

definition seq_server_handle ::
  "meta_env list \<Rightarrow> store_results \<Rightarrow> bool \<Rightarrow> bool \<Rightarrow> seq_site \<Rightarrow> u32 \<Rightarrow> lu_seq_range
     \<Rightarrow> (int \<times> lu_seq_range \<times> seq_site) option option" where
  "seq_server_handle envs res server rdonly site opc out =
     (if opc = SEQ_ALLOC_META then
        if \<not> server then Some (Some (- EINVAL, out, site))
        else if rdonly then Some (Some (- EROFS, out, site))
        else seq_server_alloc_meta envs out site
      else if opc = SEQ_ALLOC_SUPER then
        case site_ctl site of None \<Rightarrow> Some (Some (- EINVAL, out, site))
        | Some ctl \<Rightarrow>
          if rdonly then Some (Some (- EROFS, out, site))
          else do { (rc, out', ctl') \<leftarrow> seq_server_alloc_super res ctl out;
                    Some (Some (rc, out', site\<lparr>site_ctl := Some ctl'\<rparr>)) }
      else Some (Some (- EINVAL, out, site)))"

definition ESERIOUS :: int where "ESERIOUS = 0x1000"

definition err_serious :: "int \<Rightarrow> int" where
  "err_serious rc = - ((- rc) OR ESERIOUS)"

text \<open>\<open>opc\<close> and \<open>out\<close> are the fields of the request and of the reply buffer, if they are there.\<close>

definition seq_handler ::
  "meta_env list \<Rightarrow> store_results \<Rightarrow> bool \<Rightarrow> bool \<Rightarrow> seq_site \<Rightarrow> bool \<Rightarrow> u32 option \<Rightarrow> lu_seq_range option
     \<Rightarrow> lu_seq_range \<Rightarrow> (int \<times> lu_seq_range option \<times> seq_site) option option" where
  "seq_handler envs res server rdonly site replay opc out tmp =
     do { LASSERT (\<not> replay);
          case (opc, out) of
            (Some n, Some r) \<Rightarrow> do {
              reply \<leftarrow> seq_server_handle envs res server rdonly site n
                 (r\<lparr>lsr_index := lsr_index tmp, lsr_flags := lsr_flags tmp\<rparr>);
              Some (map_option (\<lambda>(rc, r', site'). (rc, Some r', site')) reply) }
          | _ \<Rightarrow> Some (Some (err_serious (- EPROTO), out, site)) }"

section \<open>Start\<close>

text \<open>
  \<open>init_rc\<close> is the result of \<^verbatim>\<open>seq_store_init\<close>, \<open>len\<close> that of reading the file. A fresh manager is zeroed memory.
\<close>

definition seq_server_init ::
  "store_results \<Rightarrow> int \<Rightarrow> int \<Rightarrow> lu_mgr_type \<Rightarrow> u32 \<Rightarrow> bool \<Rightarrow> lu_seq_range option \<Rightarrow> (int \<times> seq_server) option" where
  "seq_server_init res init_rc len typ node_id set_batch_width disk =
     do { let is_srv = (typ = LUSTRE_SEQ_SERVER);
          let seq = \<lparr>lss_space = lu_seq_range_init, lss_lowater_set = lu_seq_range_init,
                     lss_hiwater_set = lu_seq_range_init, lss_type = typ,
                     lss_width = (if is_srv then LUSTRE_SEQ_META_WIDTH else LUSTRE_SEQ_SUPER_WIDTH),
                     lss_set_width = (if set_batch_width then LUSTRE_SEQ_BATCH_WIDTH else 0),
                     lss_need_sync = False\<rparr>;
          let st = \<lparr>srv_seq = seq, srv_disk = disk, srv_journal = []\<rparr>;
          if init_rc \<noteq> 0 then Some (init_rc, st)
          else do {
            let (rc, seq1) = seq_store_read len (case disk of None \<Rightarrow> lu_seq_range_init | Some r \<Rightarrow> r) seq;
            if rc \<noteq> 0 \<and> rc \<noteq> - ENODATA then Some (rc, st\<lparr>srv_seq := seq1\<rparr>)
            else do {
              let (rc', st1) =
                (if rc = - ENODATA
                 then seq_store_update res False False
                        (set_space ((if is_srv then LUSTRE_SEQ_ZERO_RANGE else LUSTRE_SEQ_SPACE_RANGE)
                           \<lparr>lsr_index := node_id\<rparr>) (st\<lparr>srv_seq := seq1\<rparr>))
                 else (0, st\<lparr>srv_seq := seq1\<rparr>));
              let space = lss_space (srv_seq st1);
              LASSERT (if is_srv then lu_seq_range_is_sane space
                       else \<not> lu_seq_range_is_zero space \<and> lu_seq_range_is_sane space);
              Some (rc', st1) } } }"

end
