(* ===== verification/Seq_Allocator.thy ===== *)
theory Seq_Allocator
  imports Seq_Server
begin

text \<open>
  The contract that the sequence managers share, and the controller as its first instance. An allocator gains
  items from above and gives items away; it never gives an item twice, whatever commits, crashes and
  restarts happen in between. The controller, the server and the client of the sequence manager are instances.
\<close>

section \<open>Allocators\<close>

inductive run :: "('s \<Rightarrow> 'a set \<Rightarrow> 'a set \<Rightarrow> 's \<Rightarrow> bool) \<Rightarrow> 's \<Rightarrow> ('a set \<times> 'a set) list \<Rightarrow> 's \<Rightarrow> bool"
  for step where
  run_Nil: "run step s [] s"
| run_Cons: "step s gain give s1 \<Longrightarrow> run step s1 evs s2 \<Longrightarrow> run step s ((gain, give) # evs) s2"

inductive_cases run_ConsE: "run step s (ev # evs) s2"

text \<open>What is gained was never there before.\<close>

fun fresh_gains :: "'a set \<Rightarrow> ('a set \<times> 'a set) list \<Rightarrow> bool" where
  "fresh_gains used [] = True"
| "fresh_gains used ((gain, give) # evs) = (gain \<inter> used = {} \<and> fresh_gains (used \<union> gain) evs)"

definition disjoint_gives :: "('a set \<times> 'a set) list \<Rightarrow> bool" where
  "disjoint_gives evs \<longleftrightarrow> (\<forall>i j. i < j \<longrightarrow> j < length evs \<longrightarrow> snd (evs ! i) \<inter> snd (evs ! j) = {})"

lemma disjoint_gives_Cons:
  "disjoint_gives (ev # evs) \<longleftrightarrow> (\<forall>ev' \<in> set evs. snd ev \<inter> snd ev' = {}) \<and> disjoint_gives evs"
proof
  assume d: "disjoint_gives (ev # evs)"
  have "snd ev \<inter> snd (evs ! j) = {}" if "j < length evs" for j
    using d that unfolding disjoint_gives_def by (metis Suc_less_eq length_Cons nth_Cons_0 nth_Cons_Suc zero_less_Suc)
  moreover have "disjoint_gives evs"
    using d unfolding disjoint_gives_def by (metis Suc_less_eq length_Cons nth_Cons_Suc)
  ultimately show "(\<forall>ev' \<in> set evs. snd ev \<inter> snd ev' = {}) \<and> disjoint_gives evs" by (metis in_set_conv_nth)
next
  assume d: "(\<forall>ev' \<in> set evs. snd ev \<inter> snd ev' = {}) \<and> disjoint_gives evs"
  show "disjoint_gives (ev # evs)"
    unfolding disjoint_gives_def
  proof (intro allI impI)
    fix i j assume "i < j" "j < length (ev # evs)"
    then show "snd ((ev # evs) ! i) \<inter> snd ((ev # evs) ! j) = {}"
      using d by (cases i; cases j) (auto simp: disjoint_gives_def)
  qed
qed

locale allocator =
  fixes step :: "'s \<Rightarrow> 'a set \<Rightarrow> 'a set \<Rightarrow> 's \<Rightarrow> bool" and free :: "'s \<Rightarrow> 'a set" and inv :: "'s \<Rightarrow> bool"
  assumes step_inv: "inv s \<Longrightarrow> step s gain give s' \<Longrightarrow> gain \<inter> free s = {} \<Longrightarrow> inv s'"
    and step_give: "inv s \<Longrightarrow> step s gain give s' \<Longrightarrow> gain \<inter> free s = {} \<Longrightarrow> give \<subseteq> free s \<union> gain"
    and step_free: "inv s \<Longrightarrow> step s gain give s' \<Longrightarrow> gain \<inter> free s = {} \<Longrightarrow> free s' \<subseteq> free s \<union> gain - give"
begin

lemma run_gives:
  assumes "run step s evs s'" and "inv s" and "free s \<inter> given = {}" and "free s \<union> given \<subseteq> used"
    and "fresh_gains used evs"
  shows "inv s' \<and> disjoint_gives evs \<and> (\<forall>ev \<in> set evs. snd ev \<inter> given = {})"
  using assms
proof (induction arbitrary: given used rule: run.induct)
  case (run_Nil s)
  then show ?case by (simp add: disjoint_gives_def)
next
  case (run_Cons s gain give s1 evs s2)
  from run_Cons.prems have g: "gain \<inter> free s = {}" "gain \<inter> given = {}" by auto
  note st = step_inv [OF run_Cons.prems(1) run_Cons.hyps(1) g(1)]
    step_give [OF run_Cons.prems(1) run_Cons.hyps(1) g(1)] step_free [OF run_Cons.prems(1) run_Cons.hyps(1) g(1)]
  have "inv s2 \<and> disjoint_gives evs \<and> (\<forall>ev \<in> set evs. snd ev \<inter> (given \<union> give) = {})"
    using run_Cons.prems st g by (intro run_Cons.IH [where used = "used \<union> gain"]) auto
  moreover have "give \<inter> given = {}" using st g run_Cons.prems by auto
  ultimately show ?case by (auto simp: disjoint_gives_Cons)
qed

lemma never_twice:
  "run step s evs s' \<Longrightarrow> inv s \<Longrightarrow> fresh_gains (free s) evs \<Longrightarrow> disjoint_gives evs"
  using run_gives [where given = "{}"] by blast

end

section \<open>Ranges as sets\<close>

definition seqs :: "lu_seq_range \<Rightarrow> u64 set" where
  "seqs r = {x. lu_seq_range_within r x}"

lemma in_seqs: "x \<in> seqs r \<longleftrightarrow> lsr_start r \<le> x \<and> x < lsr_end r"
  by (simp add: seqs_def lu_seq_range_within_def)

lemma seqs_exhausted [simp]: "lu_seq_range_is_exhausted r \<Longrightarrow> seqs r = {}"
  by (auto simp: in_seqs exhausted_iff)

lemma seqs_init [simp]: "seqs lu_seq_range_init = {}"
  by (auto simp: in_seqs lu_seq_range_init_def)

text \<open>Cutting a piece from a sane range splits it, without wrap-around.\<close>

lemma range_alloc_split:
  assumes "range_alloc to from w = (to', from')" and "lu_seq_range_is_sane from"
  shows "lu_seq_range_is_sane to'" and "lu_seq_range_is_sane from'"
    and "lsr_start to' = lsr_start from" and "lsr_end to' = lsr_start from'" and "lsr_end from' = lsr_end from"
    and "lsr_start from \<le> lsr_start from'" and "seqs to' \<union> seqs from' = seqs from" and "seqs to' \<inter> seqs from' = {}"
proof -
  define m where "m = min (lu_seq_range_space from) w"
  have "m \<le> lsr_end from - lsr_start from" by (simp add: m_def lu_seq_range_space_def)
  then have "unat m \<le> unat (lsr_end from) - unat (lsr_start from)"
    using assms(2) by (simp add: lu_seq_range_is_sane_def word_le_nat_alt unat_sub)
  moreover have sane: "unat (lsr_start from) \<le> unat (lsr_end from)"
    using assms(2) by (simp add: lu_seq_range_is_sane_def word_le_nat_alt)
  ultimately have le: "unat (lsr_start from) + unat m \<le> unat (lsr_end from)" by linarith
  then have "unat (lsr_start from + m) = unat (lsr_start from) + unat m"
    using unat_u64 [of "lsr_end from"] by (intro unat_add_lem [THEN iffD1]) simp
  then have b: "lsr_start from \<le> lsr_start from + m" "lsr_start from + m \<le> lsr_end from"
    using le by (simp_all add: word_le_nat_alt)
  have r: "to' = to\<lparr>lsr_start := lsr_start from, lsr_end := lsr_start from + m\<rparr>"
    "from' = from\<lparr>lsr_start := lsr_start from + m\<rparr>"
    using assms(1) by (simp_all add: range_alloc_def Let_def m_def)
  show "lu_seq_range_is_sane to'" "lu_seq_range_is_sane from'" "lsr_start to' = lsr_start from"
    "lsr_end to' = lsr_start from'" "lsr_end from' = lsr_end from" "lsr_start from \<le> lsr_start from'"
    using b by (simp_all add: r lu_seq_range_is_sane_def)
  show "seqs to' \<union> seqs from' = seqs from" "seqs to' \<inter> seqs from' = {}"
    using b by (auto simp: in_seqs r)
qed

section \<open>The controller\<close>

text \<open>
  The steps of the controller: a super-sequence is allocated, the administrator reserves a range, a
  transaction commits, and the node crashes and starts again from its disk. The storage layer may fail at
  any call before the end of a transaction, but is not read-only, and a transaction that was stopped is durable (\<open>durable\<close>). A read of the file
  returns the whole record.
\<close>

definition whole_record :: "lu_seq_range option \<Rightarrow> int" where
  "whole_record disk = (case disk of None \<Rightarrow> 0 | Some _ \<Rightarrow> sizeof_lu_seq_range)"

inductive ctl_step :: "seq_server \<Rightarrow> u64 set \<Rightarrow> u64 set \<Rightarrow> seq_server \<Rightarrow> bool" where
  ctl_super: "seq_server_alloc_super res st out = Some (rc, out', st') \<Longrightarrow> durable res \<Longrightarrow>
     ctl_step st {} (if rc = 0 then seqs out' else {}) st'"
| ctl_spec: "seq_server_alloc_spec res st spec = (rc, st') \<Longrightarrow> durable res \<Longrightarrow>
     ctl_step st {} (if rc = 0 then seqs spec else {}) st'"
| ctl_commit: "ctl_step st {} {} (commit_first st)"
| ctl_restart: "seq_server_init res 0 (whole_record (srv_disk st)) LUSTRE_SEQ_CONTROLLER node batch (srv_disk st)
     = Some (0, st') \<Longrightarrow> ctl_step st {} {} st'"

text \<open>The sequences the controller may still give away, after any number of crashes.\<close>

definition disk_low :: "seq_server \<Rightarrow> u64" where
  "disk_low st = (case srv_disk st of None \<Rightarrow> FID_SEQ_NORMAL | Some r \<Rightarrow> lsr_start r)"

definition ctl_free :: "seq_server \<Rightarrow> u64 set" where
  "ctl_free st = {x. disk_low st \<le> x}"

text \<open>The start of the space only grows: on disk, over the uncommitted writes, and in memory.\<close>

definition ctl_inv :: "seq_server \<Rightarrow> bool" where
  "ctl_inv st \<longleftrightarrow>
     sorted (disk_low st # map (lsr_start \<circ> fst) (srv_journal st) @ [lsr_start (lss_space (srv_seq st))])"

lemma sorted_snoc_mono: "sorted (xs @ [b]) \<Longrightarrow> b \<le> c \<Longrightarrow> sorted (xs @ [c]) \<and> sorted (xs @ [c, c])"
  by (auto simp: sorted_append intro: order.trans)

lemma ctl_inv_low: "ctl_inv st \<Longrightarrow> disk_low st \<le> lsr_start (lss_space (srv_seq st))"
  by (simp add: ctl_inv_def)

lemma seq_store_update_ctl:
  assumes "seq_store_update res out sync (set_space space st) = (rc, st')" and "ctl_inv st"
    and "lsr_start (lss_space (srv_seq st)) \<le> lsr_start space"
  shows "ctl_inv st'" and "disk_low st \<le> disk_low st'"
proof -
  have same: "lss_space (srv_seq st') = space"
    using seq_store_update_same [OF assms(1)] by (simp add: same_ranges_def set_space_def)
  have low: "disk_low st \<le> lsr_start space" using ctl_inv_low [OF assms(2)] assms(3) by (rule order.trans)
  note srt = sorted_snoc_mono [of "disk_low st # map (lsr_start \<circ> fst) (srv_journal st)", OF _ assms(3)]
  have cs: "(srv_disk st' = srv_disk st \<and> srv_journal st' = srv_journal st) \<or>
    (srv_disk st' = srv_disk st \<and> (\<exists>cb. srv_journal st' = srv_journal st @ [(space, cb)])) \<or>
    (srv_disk st' = Some space \<and> srv_journal st' = [])"
    using seq_store_update_cases [OF assms(1)] by (simp add: set_space_def)
  then have "disk_low st' = disk_low st \<or> disk_low st' = lsr_start space" by (auto simp: disk_low_def)
  then show "disk_low st \<le> disk_low st'" using low by auto
  show "ctl_inv st'"
    using cs
  proof (elim disjE conjE exE)
    fix cb assume "srv_disk st' = srv_disk st" "srv_journal st' = srv_journal st @ [(space, cb)]"
    then show ?thesis using assms(2) srt unfolding ctl_inv_def disk_low_def by (simp add: same)
  qed (use assms(2) srt in \<open>auto simp: ctl_inv_def disk_low_def same\<close>)
qed

lemma seq_store_update_ctl_sync:
  assumes "seq_store_update res out True (set_space space st) = (0, st')" and "durable res"
  shows "ctl_free st' = {x. lsr_start space \<le> x}"
  using seq_store_update_sync(3) [OF assms] by (simp add: ctl_free_def disk_low_def set_space_def)

lemma ctl_super_step:
  assumes "seq_server_alloc_super res st out = Some (rc, out', st')" and "durable res" and "ctl_inv st"
  shows "ctl_inv st'" and "rc = 0 \<Longrightarrow> seqs out' \<subseteq> ctl_free st" and "ctl_free st' \<subseteq> ctl_free st"
    and "rc = 0 \<Longrightarrow> ctl_free st' \<inter> seqs out' = {}" and "rc = 0 \<Longrightarrow> lu_seq_range_is_sane out'"
proof -
  let ?sp = "lss_space (srv_seq st)"
  have "(ctl_inv st' \<and> ctl_free st' \<subseteq> ctl_free st) \<and> (rc = 0 \<longrightarrow> seqs out' \<subseteq> ctl_free st \<and>
      ctl_free st' \<inter> seqs out' = {} \<and> lu_seq_range_is_sane out')"
  proof (cases "lu_seq_range_is_exhausted ?sp")
    case True
    then show ?thesis
      using assms by (simp add: seq_server_alloc_super_def seq_server_alloc_super_locked_def ENOSPC_def)
  next
    case False
    obtain sp' where r: "range_alloc out ?sp (lss_width (srv_seq st)) = (out', sp')"
      and u: "seq_store_update res True True (set_space sp' st) = (rc, st')" and sane: "lu_seq_range_is_sane ?sp"
      using assms(1) False
      by (auto simp: seq_server_alloc_super_def seq_server_alloc_super_locked_def Let_def split: prod.splits)
    note sp = range_alloc_split [OF r sane]
    note st' = seq_store_update_ctl [OF u assms(3) sp(6)]
    have low: "disk_low st \<le> lsr_start ?sp" using assms(3) by (simp add: ctl_inv_def)
    have "seqs out' \<subseteq> ctl_free st" using sp(3) low by (auto simp: in_seqs ctl_free_def)
    moreover have "ctl_free st' \<inter> seqs out' = {}" if "rc = 0"
      using seq_store_update_ctl_sync [OF u [unfolded that] assms(2)] sp(4) by (auto simp: in_seqs)
    ultimately show ?thesis using st' sp(1) by (auto simp: ctl_free_def)
  qed
  then show "ctl_inv st'" "rc = 0 \<Longrightarrow> seqs out' \<subseteq> ctl_free st" "ctl_free st' \<subseteq> ctl_free st"
    "rc = 0 \<Longrightarrow> ctl_free st' \<inter> seqs out' = {}" "rc = 0 \<Longrightarrow> lu_seq_range_is_sane out'" by blast+
qed

lemma ctl_spec_step:
  assumes "seq_server_alloc_spec res st spec = (rc, st')" and "durable res" and "ctl_inv st"
  shows "ctl_inv st' \<and> ctl_free st' \<subseteq> ctl_free st \<and>
    (rc = 0 \<longrightarrow> seqs spec \<subseteq> ctl_free st \<and> ctl_free st' \<inter> seqs spec = {})"
proof -
  let ?sp = "lss_space (srv_seq st)"
  consider "rc \<noteq> 0" "st' = st" | "lsr_start spec < lsr_end spec" "lsr_start ?sp \<le> lsr_start spec"
    "seq_store_update res True True (set_space (?sp\<lparr>lsr_start := lsr_end spec\<rparr>) st) = (rc, st')"
    using assms(1) by (auto simp: seq_server_alloc_spec_def Let_def errno_defs not_le split: if_splits)
  then show ?thesis
  proof cases
    case 2
    have low: "disk_low st \<le> lsr_start ?sp" using assms(3) by (simp add: ctl_inv_def)
    have "lsr_start ?sp \<le> lsr_start (?sp\<lparr>lsr_start := lsr_end spec\<rparr>)" using 2 by simp
    note st' = seq_store_update_ctl [OF 2(3) assms(3) this]
    have "seqs spec \<subseteq> ctl_free st" using 2 low by (auto simp: in_seqs ctl_free_def)
    moreover have "ctl_free st' \<inter> seqs spec = {}" if "rc = 0"
      using seq_store_update_ctl_sync [OF 2(3) [unfolded that] assms(2)] by (auto simp: in_seqs)
    ultimately show ?thesis using st' by (auto simp: ctl_free_def)
  qed (use assms(3) in auto)
qed

lemma ctl_commit_step: "ctl_inv st \<Longrightarrow> ctl_inv (commit_first st) \<and> ctl_free (commit_first st) \<subseteq> ctl_free st"
  by (cases "srv_journal st")
    (auto simp: commit_first_def ctl_inv_def ctl_free_def disk_low_def)

text \<open>A manager that started has the record of the disk as its space, or the default one if there is none.\<close>

definition default_space :: "lu_mgr_type \<Rightarrow> u32 \<Rightarrow> lu_seq_range" where
  "default_space typ node =
     (if typ = LUSTRE_SEQ_SERVER then LUSTRE_SEQ_ZERO_RANGE else LUSTRE_SEQ_SPACE_RANGE)\<lparr>lsr_index := node\<rparr>"

lemma seq_server_init_Some:
  assumes "seq_server_init res 0 (whole_record (Some r)) typ node batch (Some r) = Some (0, st')"
  shows "lss_space (srv_seq st') = r" and "srv_disk st' = Some r" and "srv_journal st' = []"
    and "lss_lowater_set (srv_seq st') = lu_seq_range_init" and "lss_hiwater_set (srv_seq st') = lu_seq_range_init"
  using assms by (auto simp: seq_server_init_def whole_record_def seq_store_read_def Let_def ENODATA_def split: if_splits)

lemma seq_server_init_None:
  assumes "seq_server_init res 0 (whole_record None) typ node batch None = Some (0, st')"
  shows "lss_space (srv_seq st') = default_space typ node"
    and "(srv_disk st' = None \<or> srv_disk st' = Some (default_space typ node)) \<and>
      (srv_journal st' = [] \<or> (\<exists>cb. srv_journal st' = [(default_space typ node, cb)]))"
    and "lss_lowater_set (srv_seq st') = lu_seq_range_init" and "lss_hiwater_set (srv_seq st') = lu_seq_range_init"
proof -
  obtain st where st: "seq_store_update res False False st = (0, st')"
    "lss_space (srv_seq st) = default_space typ node" "srv_disk st = None" "srv_journal st = []"
    "lss_lowater_set (srv_seq st) = lu_seq_range_init" "lss_hiwater_set (srv_seq st) = lu_seq_range_init"
    using assms
    by (auto simp: seq_server_init_def whole_record_def seq_store_read_def Let_def errno_defs set_space_def
        sizeof_lu_seq_range_def default_space_def split: if_splits prod.splits)
  show "lss_space (srv_seq st') = default_space typ node"
    "lss_lowater_set (srv_seq st') = lu_seq_range_init" "lss_hiwater_set (srv_seq st') = lu_seq_range_init"
    using seq_store_update_same [OF st(1)] st by (simp_all add: same_ranges_def)
  show "(srv_disk st' = None \<or> srv_disk st' = Some (default_space typ node)) \<and>
      (srv_journal st' = [] \<or> (\<exists>cb. srv_journal st' = [(default_space typ node, cb)]))"
    using seq_store_update_cases [OF st(1)] st by auto
qed

lemma seq_server_init_sync:
  assumes "seq_server_init res 0 (whole_record None) typ node batch None = Some (0, st')" and "batch \<Longrightarrow> store_ok res"
    and "lss_set_width (srv_seq st') \<noteq> 0"
  shows "length (srv_journal st') \<le> 1 \<and> (srv_journal st' \<noteq> [] \<longrightarrow> lss_need_sync (srv_seq st'))"
proof -
  obtain st where st: "seq_store_update res False False st = (0, st')"
    "lss_set_width (srv_seq st) = (if batch then LUSTRE_SEQ_BATCH_WIDTH else 0)" "srv_journal st = []"
    using assms(1)
    by (auto simp: seq_server_init_def whole_record_def seq_store_read_def Let_def errno_defs set_space_def
        sizeof_lu_seq_range_def split: if_splits prod.splits)
  then have "batch" using seq_store_update_same [OF st(1)] assms(3) by (cases batch) (auto simp: same_ranges_def)
  then show ?thesis using seq_store_update_ok(2) [OF st(1) assms(2)] st(3) by auto
qed

lemma ctl_restart_step:
  assumes "seq_server_init res 0 (whole_record (srv_disk st)) LUSTRE_SEQ_CONTROLLER node batch (srv_disk st) = Some (0, st')"
  shows "ctl_inv st' \<and> ctl_free st' = ctl_free st"
proof (cases "srv_disk st")
  case None
  have "lsr_start (default_space LUSTRE_SEQ_CONTROLLER node) = FID_SEQ_NORMAL"
    by (simp add: default_space_def LUSTRE_SEQ_SPACE_RANGE_def)
  then show ?thesis
    using seq_server_init_None [OF assms [unfolded None]] None
    by (auto simp: ctl_inv_def ctl_free_def disk_low_def)
next
  case (Some r)
  then show ?thesis
    using seq_server_init_Some [OF assms [unfolded Some]] by (simp add: ctl_inv_def ctl_free_def disk_low_def)
qed

interpretation ctl: allocator ctl_step ctl_free ctl_inv
proof
  fix s gain give s'
  assume inv: "ctl_inv s" and "ctl_step s gain give s'" and "gain \<inter> ctl_free s = {}"
  from this(2) have "ctl_inv s' \<and> give \<subseteq> ctl_free s \<union> gain \<and> ctl_free s' \<subseteq> ctl_free s \<union> gain - give"
  proof cases
    case (ctl_super res out rc out')
    then show ?thesis using ctl_super_step [OF ctl_super(3,4) inv] by auto
  next
    case (ctl_spec res spec rc)
    then show ?thesis using ctl_spec_step [OF ctl_spec(3,4) inv] by auto
  next
    case ctl_commit
    then show ?thesis using ctl_commit_step [OF inv] by simp
  next
    case (ctl_restart res node batch)
    then show ?thesis using ctl_restart_step [OF ctl_restart(3)] by simp
  qed
  then show "ctl_inv s'" "give \<subseteq> ctl_free s \<union> gain" "ctl_free s' \<subseteq> ctl_free s \<union> gain - give" by blast+
qed

end
