(* ===== verification/Seq_Site.thy ===== *)
theory Seq_Site
  imports Seq_Allocator
begin

text \<open>
  The sequence server of a node, with the controller if the node has it, as an allocator: the water sets, the
  space, the record on disk and the uncommitted record never hold a sequence that was given away.
\<close>

section \<open>The server\<close>

definition journal_seqs :: "seq_server \<Rightarrow> u64 set" where
  "journal_seqs st = (\<Union>w \<in> set (srv_journal st). seqs (fst w))"

definition disk_seqs :: "seq_server \<Rightarrow> u64 set" where
  "disk_seqs st = (case srv_disk st of None \<Rightarrow> {} | Some r \<Rightarrow> seqs r)"

abbreviation space_of :: "seq_server \<Rightarrow> lu_seq_range" where
  "space_of st \<equiv> lss_space (srv_seq st)"

abbreviation lo_seqs :: "seq_server \<Rightarrow> u64 set" where
  "lo_seqs st \<equiv> seqs (lss_lowater_set (srv_seq st))"

abbreviation hi_seqs :: "seq_server \<Rightarrow> u64 set" where
  "hi_seqs st \<equiv> seqs (lss_hiwater_set (srv_seq st))"

text \<open>Every sequence the server could still give away, after any number of crashes.\<close>

definition srv_free :: "seq_server \<Rightarrow> u64 set" where
  "srv_free st = lo_seqs st \<union> hi_seqs st \<union> seqs (space_of st) \<union> disk_seqs st \<union> journal_seqs st"

text \<open>
  The low water set is safe: it is outside the record on disk and outside every uncommitted one. The high water
  set is outside the uncommitted record, and outside the one on disk once nothing is uncommitted. While a write is
  uncommitted, the next one will be synchronous.
\<close>

definition sets_ok :: "seq_server \<Rightarrow> bool" where
  "sets_ok st \<longleftrightarrow> lo_seqs st \<inter> hi_seqs st = {} \<and> (lo_seqs st \<union> hi_seqs st) \<inter> seqs (space_of st) = {} \<and>
     lo_seqs st \<inter> disk_seqs st = {} \<and> (lo_seqs st \<union> hi_seqs st) \<inter> journal_seqs st = {} \<and>
     (srv_journal st = [] \<longrightarrow> hi_seqs st \<inter> disk_seqs st = {}) \<and>
     length (srv_journal st) \<le> 1 \<and> (srv_journal st \<noteq> [] \<longrightarrow> lss_need_sync (srv_seq st))"

definition srv_inv :: "seq_server \<Rightarrow> bool" where
  "srv_inv st \<longleftrightarrow> lu_seq_range_is_sane (lss_lowater_set (srv_seq st)) \<and>
     lu_seq_range_is_sane (lss_hiwater_set (srv_seq st)) \<and>
     (if lss_set_width (srv_seq st) = 0 then lo_seqs st = {} \<and> hi_seqs st = {} else sets_ok st)"

lemma seqs_zero [simp]: "lu_seq_range_is_zero r \<Longrightarrow> seqs r = {}"
  by (auto simp: in_seqs lu_seq_range_is_zero_def)

lemma sane_init [simp]: "lu_seq_range_is_sane lu_seq_range_init"
  by (simp add: lu_seq_range_is_sane_def lu_seq_range_init_def)

lemma same_rangesD:
  assumes "same_ranges st st'"
  shows "space_of st' = space_of st" "lss_lowater_set (srv_seq st') = lss_lowater_set (srv_seq st)"
    "lss_hiwater_set (srv_seq st') = lss_hiwater_set (srv_seq st)" "lss_width (srv_seq st') = lss_width (srv_seq st)"
    "lss_set_width (srv_seq st') = lss_set_width (srv_seq st)"
  using assms by (simp_all add: same_ranges_def)

subsection \<open>Water sets\<close>

lemma seq_set_init_inv:
  assumes "seq_set_init_locked res st = (rc, st')" and "store_ok res" and "lu_seq_range_is_sane (space_of st)"
    and "lss_set_width (srv_seq st) \<noteq> 0"
  shows "srv_inv st'" and "srv_free st' \<subseteq> seqs (space_of st)" and "lu_seq_range_is_sane (space_of st')"
    and "lss_set_width (srv_seq st') = lss_set_width (srv_seq st)"
proof -
  let ?w = "lss_set_width (srv_seq st)"
  obtain lo sp1 hi sp2 where r: "range_alloc (lss_lowater_set (srv_seq st)) (space_of st) ?w = (lo, sp1)"
    "range_alloc (lss_hiwater_set (srv_seq st)) sp1 ?w = (hi, sp2)" by (meson surj_pair)
  define s1 where "s1 = st\<lparr>srv_seq := (srv_seq st)\<lparr>lss_space := sp2, lss_lowater_set := lo, lss_hiwater_set := hi\<rparr>\<rparr>"
  have u: "seq_store_update res False True s1 = (rc, st')"
    using assms(1) r by (simp add: seq_set_init_locked_def Let_def s1_def)
  note d = seq_store_update_ok(2) [OF u assms(2), simplified] same_rangesD [OF seq_store_update_same [OF u]]
  have d': "srv_disk st' = Some sp2" "srv_journal st' = []" "space_of st' = sp2"
    "lss_lowater_set (srv_seq st') = lo" "lss_hiwater_set (srv_seq st') = hi" "lss_set_width (srv_seq st') = ?w"
    using d by (simp_all add: s1_def)
  note p = range_alloc_split [OF r(1) assms(3)]
  note q = range_alloc_split [OF r(2) p(2)]
  have "seqs lo \<inter> seqs hi = {}" "seqs lo \<inter> seqs sp2 = {}" "seqs hi \<inter> seqs sp2 = {}"
    using p(8) q(7,8) by auto
  then show "srv_inv st'"
    using p(1) q(1) d' assms(4) by (auto simp: srv_inv_def sets_ok_def disk_seqs_def journal_seqs_def)
  show "srv_free st' \<subseteq> seqs (space_of st)"
    using p(7) q(7) d' by (auto simp: srv_free_def disk_seqs_def journal_seqs_def)
  show "lu_seq_range_is_sane (space_of st')" "lss_set_width (srv_seq st') = ?w" using q(2) d' by simp_all
qed

lemma take_from_lo:
  assumes "srv_inv st" and "lss_set_width (srv_seq st) \<noteq> 0"
    and "range_alloc out (lss_lowater_set (srv_seq st)) w = (out', lo)"
    and "st' = st\<lparr>srv_seq := (srv_seq st)\<lparr>lss_lowater_set := lo\<rparr>\<rparr>"
  shows "srv_inv st' \<and> seqs out' \<subseteq> srv_free st \<and> srv_free st' \<subseteq> srv_free st - seqs out'"
proof -
  have s: "sets_ok st" "lu_seq_range_is_sane (lss_lowater_set (srv_seq st))"
    "lu_seq_range_is_sane (lss_hiwater_set (srv_seq st))"
    using assms(1,2) by (auto simp: srv_inv_def)
  note p = range_alloc_split [OF assms(3) s(2)]
  have lo: "lo_seqs st = seqs out' \<union> seqs lo" using p(7) by simp
  have "sets_ok st'" using s(1) unfolding sets_ok_def assms(4) lo
    by (auto simp: disk_seqs_def journal_seqs_def)
  moreover have "seqs out' \<inter> srv_free st' = {}"
    using s(1) p(8) unfolding sets_ok_def assms(4) lo
    by (cases "srv_journal st = []") (auto simp: srv_free_def disk_seqs_def journal_seqs_def)
  moreover have "srv_free st' \<subseteq> srv_free st"
    unfolding srv_free_def lo by (auto simp: assms(4) disk_seqs_def journal_seqs_def)
  ultimately show ?thesis
    using s(3) p(2) lo assms(2) by (auto simp: srv_inv_def assms(4) srv_free_def)
qed

text \<open>The switch to the high water set, with the write that follows it.\<close>

lemma switch_to_hiwater_inv:
  assumes "srv_inv st" and "lss_set_width (srv_seq st) \<noteq> 0" and "lu_seq_range_is_sane (space_of st)"
    and "store_ok (me_store env)" and "switch_to_hiwater env st = (rc, st')"
  shows "rc = 0" and "srv_inv st'" and "srv_free st' \<subseteq> srv_free st"
    and "lss_set_width (srv_seq st') = lss_set_width (srv_seq st)"
proof -
  define w where "w = min (lu_seq_range_space (space_of st))
      (max (lss_set_width (srv_seq st)) (me_num_exports env * lss_width (srv_seq st)))"
  obtain hi sp where hs: "range_alloc (lss_hiwater_set (srv_seq st)) (space_of st) w = (hi, sp)" by fastforce
  have upd: "seq_store_update (me_store env) False (lss_need_sync (srv_seq st))
      (st\<lparr>srv_seq := (srv_seq st)\<lparr>lss_lowater_set := lss_hiwater_set (srv_seq st), lss_hiwater_set := hi,
                                   lss_space := sp\<rparr>\<rparr>) = (rc, st')"
    using assms(5) hs by (simp add: switch_to_hiwater_def Let_def w_def [symmetric])
  have s: "sets_ok st" "lu_seq_range_is_sane (lss_hiwater_set (srv_seq st))"
    using assms(1,2) by (auto simp: srv_inv_def)
  note p = range_alloc_split [OF hs assms(3)]
  note d = same_rangesD [OF seq_store_update_same [OF upd], simplified]
  note u = seq_store_update_ok [OF upd assms(4), simplified]
  show "rc = 0" by (rule u(1))
  show "lss_set_width (srv_seq st') = lss_set_width (srv_seq st)" using d by simp
  have dis: "hi_seqs st \<inter> seqs hi = {}" "hi_seqs st \<inter> seqs sp = {}" "seqs hi \<inter> seqs sp = {}"
    using s(1) p(7,8) unfolding sets_ok_def by auto
  have "sets_ok st' \<and> srv_free st' \<subseteq> srv_free st"
    using u(2)
  proof (elim disjE conjE)
    assume "srv_disk st' = Some sp" "srv_journal st' = []"
    then show ?thesis using d dis p(7) by (auto simp: sets_ok_def disk_seqs_def journal_seqs_def srv_free_def)
  next
    assume a: "\<not> lss_need_sync (srv_seq st)" "srv_disk st' = srv_disk st"
      "srv_journal st' = srv_journal st @ [(sp, True)]" "lss_need_sync (srv_seq st')"
    then have j: "srv_journal st = []" using s(1) by (auto simp: sets_ok_def)
    then have "hi_seqs st \<inter> disk_seqs st = {}" using s(1) by (simp add: sets_ok_def)
    then show ?thesis
      using a j d dis p(7) by (auto simp: sets_ok_def disk_seqs_def journal_seqs_def srv_free_def)
  qed
  then show "srv_inv st'" "srv_free st' \<subseteq> srv_free st" using d s(2) p(1) assms(2) by (simp_all add: srv_inv_def)
qed

lemma shrink_lo:
  assumes "srv_inv st" and "lss_set_width (srv_seq st) \<noteq> 0"
    and "lo = lss_lowater_set (srv_seq st) \<or> lo = (lss_lowater_set (srv_seq st))\<lparr>lsr_start := lsr_end (lss_lowater_set (srv_seq st))\<rparr>"
    and "st' = st\<lparr>srv_seq := (srv_seq st)\<lparr>lss_lowater_set := lo\<rparr>\<rparr>"
  shows "srv_inv st' \<and> srv_free st' \<subseteq> srv_free st"
proof -
  have "seqs lo \<subseteq> lo_seqs st" "lu_seq_range_is_sane lo"
    using assms(1,3) by (auto simp: in_seqs srv_inv_def lu_seq_range_is_sane_def)
  then show ?thesis
    using assms(1,2) unfolding srv_inv_def sets_ok_def assms(4)
    by (auto simp: srv_free_def disk_seqs_def journal_seqs_def)
qed

text \<open>The storage answers an attempt may get: where the water sets are used, the writes must not fail.\<close>

definition env_ok :: "u64 \<Rightarrow> meta_env \<Rightarrow> bool" where
  "env_ok set_width env \<longleftrightarrow> durable (me_ctl env) \<and> durable (me_store env) \<and>
     (set_width \<noteq> 0 \<longrightarrow> store_ok (me_init env) \<and> store_ok (me_init_set env) \<and> store_ok (me_store env))"

lemma range_alloc_set_inv:
  assumes "range_alloc_set env out st = Some (rc, out', st')" and "srv_inv st" and "lss_set_width (srv_seq st) \<noteq> 0"
    and "lu_seq_range_is_sane (space_of st)" and "env_ok (lss_set_width (srv_seq st)) env"
  shows "srv_inv st' \<and> seqs out' \<subseteq> srv_free st \<and> srv_free st' \<subseteq> srv_free st - seqs out' \<and> rc = 0"
proof -
  let ?w = "lss_set_width (srv_seq st)"
  have ok: "store_ok (me_init_set env)" "store_ok (me_store env)" using assms(3,5) by (auto simp: env_ok_def)
  define st1 where "st1 = (if lu_seq_range_is_zero (lss_lowater_set (srv_seq st))
                     then snd (seq_set_init_locked (me_init_set env) st) else st)"
  have 1: "srv_inv st1" "srv_free st1 \<subseteq> srv_free st" "lu_seq_range_is_sane (space_of st1)"
    "lss_set_width (srv_seq st1) = ?w"
    using assms(2-4) seq_set_init_inv [OF _ ok(1) assms(4,3)]
    by (auto simp: st1_def srv_free_def prod_eq_iff)
  define lo1 lo2 where "lo1 = lss_lowater_set (srv_seq st1)"
    and "lo2 = (if me_fail env then lo1\<lparr>lsr_start := lsr_end lo1\<rparr> else lo1)"
  define st2 where "st2 = st1\<lparr>srv_seq := (srv_seq st1)\<lparr>lss_lowater_set := lo2\<rparr>\<rparr>"
  have 2: "srv_inv st2" "srv_free st2 \<subseteq> srv_free st1"
    using shrink_lo [OF 1(1) _ _ st2_def] 1(4) assms(3) by (auto simp: lo2_def lo1_def)
  have w2: "lss_set_width (srv_seq st2) \<noteq> 0" "lu_seq_range_is_sane (space_of st2)"
    using 1(3,4) assms(3) by (simp_all add: st2_def)
  obtain rc3 st3 where s3: "(if lu_seq_range_is_exhausted lo2 then switch_to_hiwater env st2 else (0, st2)) = (rc3, st3)"
    by fastforce
  have 3: "rc3 = 0" "srv_inv st3" "srv_free st3 \<subseteq> srv_free st2" "lss_set_width (srv_seq st3) \<noteq> 0"
    using s3 switch_to_hiwater_inv [OF 2(1) w2 ok(2)] 2 w2 by (auto split: if_splits)
  obtain lo4 where lo4: "range_alloc out (lss_lowater_set (srv_seq st3)) (lss_width (srv_seq st3)) = (out', lo4)"
    "rc = 0" "st' = st3\<lparr>srv_seq := (srv_seq st3)\<lparr>lss_lowater_set := lo4\<rparr>\<rparr>"
    using assms(1) [unfolded range_alloc_set_def Let_def, folded st1_def, folded lo1_def, folded lo2_def,
        folded st2_def, unfolded s3] 3(1)
    by (auto split: prod.splits)
  show ?thesis using take_from_lo [OF 3(2,4) lo4(1,3)] lo4(2) 1(2) 2(2) 3(3) by blast
qed

section \<open>The node\<close>

definition site_ctl_free :: "seq_site \<Rightarrow> u64 set" where
  "site_ctl_free site = (case site_ctl site of None \<Rightarrow> {} | Some ctl \<Rightarrow> ctl_free ctl)"

definition site_free :: "seq_site \<Rightarrow> u64 set" where
  "site_free site = srv_free (site_srv site) \<union> site_ctl_free site"

definition site_inv :: "seq_site \<Rightarrow> bool" where
  "site_inv site \<longleftrightarrow> srv_inv (site_srv site) \<and> pred_option ctl_inv (site_ctl site) \<and>
     srv_free (site_srv site) \<inter> site_ctl_free site = {}"

text \<open>The sequences that the replies to a server without a local controller may bring.\<close>

definition supplied :: "seq_site \<Rightarrow> meta_env \<Rightarrow> u64 set" where
  "supplied site env = (if site_ctl site = None then {x. \<exists>req r. me_send env req = (0, r) \<and> x \<in> seqs r} else {})"

text \<open>A super-sequence comes from the controller or from the reply, and from nowhere else.\<close>

lemma seq_client_alloc_super_gain:
  assumes "seq_client_alloc_super (me_pack env) (me_send env) (me_ctl env) cli (site_ctl site) = Some (rc, cli', ctl')"
    and "site_inv site" and "env_ok w env" and "supplied site env \<inter> site_free site = {}"
  shows "pred_option ctl_inv ctl'" and "site_ctl_free (site\<lparr>site_ctl := ctl'\<rparr>) \<subseteq> site_ctl_free site"
    and "(ctl' = None) = (site_ctl site = None)"
    and "rc = 0 \<Longrightarrow> seqs (lcs_space cli') \<subseteq> site_ctl_free site \<union> supplied site env \<and>
      seqs (lcs_space cli') \<inter> (srv_free (site_srv site) \<union> site_ctl_free (site\<lparr>site_ctl := ctl'\<rparr>)) = {}"
proof -
  have "pred_option ctl_inv ctl' \<and> site_ctl_free (site\<lparr>site_ctl := ctl'\<rparr>) \<subseteq> site_ctl_free site \<and>
    (ctl' = None) = (site_ctl site = None) \<and>
    (rc = 0 \<longrightarrow> seqs (lcs_space cli') \<subseteq> site_ctl_free site \<union> supplied site env \<and>
      seqs (lcs_space cli') \<inter> (srv_free (site_srv site) \<union> site_ctl_free (site\<lparr>site_ctl := ctl'\<rparr>)) = {})"
  proof (cases "site_ctl site")
    case (Some c)
    obtain out c' where c: "seq_server_alloc_super (me_ctl env) c (lcs_space cli) = Some (rc, out, c')"
      "cli' = cli\<lparr>lcs_space := out\<rparr>" "ctl' = Some c'"
      using assms(1) Some by (auto simp: seq_client_alloc_super_def bind_eq_Some_conv)
    have i: "durable (me_ctl env)" "ctl_inv c" using assms(2,3) Some by (simp_all add: env_ok_def site_inv_def)
    note s = ctl_super_step [OF c(1) i]
    have "srv_free (site_srv site) \<inter> ctl_free c = {}" using assms(2) Some by (simp add: site_inv_def site_ctl_free_def)
    then show ?thesis using s c Some by (auto simp: site_ctl_free_def)
  next
    case None
    then have "ctl' = None" "rc = 0 \<Longrightarrow> seqs (lcs_space cli') \<subseteq> supplied site env"
      using assms(1) None
      by (auto simp: seq_client_alloc_super_def seq_client_rpc_def bind_eq_Some_conv supplied_def errno_defs
          split: if_splits prod.splits) blast
    then show ?thesis using None assms(4) by (auto simp: site_ctl_free_def site_free_def)
  qed
  then show "pred_option ctl_inv ctl'" "site_ctl_free (site\<lparr>site_ctl := ctl'\<rparr>) \<subseteq> site_ctl_free site"
    "(ctl' = None) = (site_ctl site = None)"
    "rc = 0 \<Longrightarrow> seqs (lcs_space cli') \<subseteq> site_ctl_free site \<union> supplied site env \<and>
      seqs (lcs_space cli') \<inter> (srv_free (site_srv site) \<union> site_ctl_free (site\<lparr>site_ctl := ctl'\<rparr>)) = {}" by blast+
qed

text \<open>What the first half of an attempt keeps. Without water sets, only the space in memory changes.\<close>

definition keeps_site :: "u64 set \<Rightarrow> seq_site \<Rightarrow> seq_site \<Rightarrow> bool" where
  "keeps_site gain site site' \<longleftrightarrow> site_inv site' \<and> site_free site' \<subseteq> site_free site \<union> gain \<and>
     lu_seq_range_is_sane (space_of (site_srv site')) \<and> (site_ctl site' = None) = (site_ctl site = None) \<and>
     lss_set_width (srv_seq (site_srv site')) = lss_set_width (srv_seq (site_srv site)) \<and>
     (lss_set_width (srv_seq (site_srv site)) = 0 \<longrightarrow>
       srv_free (set_space lu_seq_range_init (site_srv site')) \<subseteq> srv_free (set_space lu_seq_range_init (site_srv site)) \<and>
       site_ctl_free site' \<subseteq> site_ctl_free site)"

lemma srv_free_space:
  "srv_free st = seqs (space_of st) \<union> srv_free (set_space lu_seq_range_init st)"
  by (auto simp: srv_free_def set_space_def disk_seqs_def journal_seqs_def)

lemma set_space_idem [simp]: "set_space a (set_space b st) = set_space a st"
  by (simp add: set_space_def)

lemma set_space_simps [simp]:
  "space_of (set_space r st) = r" "lss_set_width (srv_seq (set_space r st)) = lss_set_width (srv_seq st)"
  "lss_lowater_set (srv_seq (set_space r st)) = lss_lowater_set (srv_seq st)"
  "lss_hiwater_set (srv_seq (set_space r st)) = lss_hiwater_set (srv_seq st)"
  "lss_need_sync (srv_seq (set_space r st)) = lss_need_sync (srv_seq st)"
  "srv_disk (set_space r st) = srv_disk st" "srv_journal (set_space r st) = srv_journal st"
  "disk_seqs (set_space r st) = disk_seqs st" "journal_seqs (set_space r st) = journal_seqs st"
  by (simp_all add: set_space_def disk_seqs_def journal_seqs_def)

lemma srv_inv_set_space:
  assumes "srv_inv st" and "seqs r \<inter> srv_free st = {} \<or> seqs r \<subseteq> seqs (space_of st)"
  shows "srv_inv (set_space r st)"
proof (cases "lss_set_width (srv_seq st) = 0")
  case False
  then have "sets_ok st" using assms(1) by (simp add: srv_inv_def)
  then have "(lo_seqs st \<union> hi_seqs st) \<inter> seqs (space_of st) = {}" by (simp add: sets_ok_def)
  then have "(lo_seqs st \<union> hi_seqs st) \<inter> seqs r = {}" using assms(2) unfolding srv_free_def by blast
  then show ?thesis using assms(1) False by (simp add: srv_inv_def sets_ok_def)
qed (use assms(1) in \<open>simp add: srv_inv_def\<close>)

lemma set_init_keeps:
  assumes "site_inv site" and "lu_seq_range_is_sane (space_of (site_srv site))"
    and "env_ok (lss_set_width (srv_seq (site_srv site))) env"
  shows "keeps_site {} site (check_set_init env site)"
proof (cases "lu_seq_range_is_zero (lss_lowater_set (srv_seq (site_srv site))) \<and>
    lss_set_width (srv_seq (site_srv site)) \<noteq> 0")
  case True
  let ?st = "site_srv site"
  have ok: "store_ok (me_init env)" using assms(3) True by (simp add: env_ok_def)
  obtain rc st' where i: "seq_set_init_locked (me_init env) ?st = (rc, st')" by fastforce
  note s = seq_set_init_inv [OF i ok assms(2) conjunct2 [OF True]]
  have "srv_free st' \<subseteq> srv_free ?st" using s(2) srv_free_space [of ?st] by auto
  then show ?thesis
    using s True i assms(1)
    unfolding keeps_site_def site_inv_def site_free_def site_ctl_free_def by (auto simp: check_set_init_def)
next
  case False
  then have "check_set_init env site = site" by (auto simp: check_set_init_def Let_def)
  then show ?thesis using assms(1,2) by (simp add: keeps_site_def)
qed

lemma new_space_keeps:
  assumes "site_inv site" and "lu_seq_range_is_sane r" and "pred_option ctl_inv ctl'"
    and "site_ctl_free (site\<lparr>site_ctl := ctl'\<rparr>) \<subseteq> site_ctl_free site" and "(ctl' = None) = (site_ctl site = None)"
    and "seqs r \<subseteq> site_ctl_free site \<union> gain"
    and "seqs r \<inter> (srv_free (site_srv site) \<union> site_ctl_free (site\<lparr>site_ctl := ctl'\<rparr>)) = {}"
    and "site' = site\<lparr>site_cli := cli, site_ctl := ctl', site_srv := set_space r (site_srv site)\<rparr>"
  shows "keeps_site gain site site'"
proof -
  let ?st = "site_srv site"
  have c: "site_ctl_free site' = site_ctl_free (site\<lparr>site_ctl := ctl'\<rparr>)" by (simp add: site_ctl_free_def assms(8))
  have f: "srv_free (set_space r ?st) = seqs r \<union> srv_free (set_space lu_seq_range_init ?st)"
    using srv_free_space [of "set_space r ?st"] by simp
  have g: "srv_free (set_space lu_seq_range_init ?st) \<subseteq> srv_free ?st" using srv_free_space [of ?st] by blast
  have i: "srv_inv (set_space r ?st)" using assms(1,7) by (intro srv_inv_set_space) (auto simp: site_inv_def)
  have s: "site_srv site' = set_space r ?st" "site_ctl site' = ctl'" by (simp_all add: assms(8))
  have "srv_free ?st \<inter> site_ctl_free site = {}" using assms(1) by (simp add: site_inv_def)
  then have "site_inv site'" using i f g assms(3,4,7) unfolding site_inv_def s c by auto
  moreover have "site_free site' \<subseteq> site_free site \<union> gain"
    using f g assms(4,6) unfolding site_free_def s c by blast
  ultimately show ?thesis using assms(2,4,5) unfolding keeps_site_def s c by simp
qed

lemma keeps_site_trans:
  assumes "keeps_site gain a b" and "keeps_site {} b c"
  shows "keeps_site gain a c"
  using assms unfolding keeps_site_def by (auto dest: subsetD)

lemma check_set_init_keeps:
  assumes k: "keeps_site gain site s" and "env_ok (lss_set_width (srv_seq (site_srv site))) env"
  shows "keeps_site gain site (check_set_init env s)"
proof -
  have "site_inv s" "lu_seq_range_is_sane (space_of (site_srv s))"
    "env_ok (lss_set_width (srv_seq (site_srv s))) env" using assms by (simp_all add: keeps_site_def)
  from set_init_keeps [OF this] show ?thesis by (rule keeps_site_trans [OF k])
qed

lemma check_and_alloc_super_keeps:
  assumes "seq_server_check_and_alloc_super env site = Some (rc, site')" and "site_inv site"
    and "lu_seq_range_is_sane (space_of (site_srv site))"
    and "env_ok (lss_set_width (srv_seq (site_srv site))) env" and "supplied site env \<inter> site_free site = {}"
  shows "keeps_site (supplied site env) site site'"
proof -
  note fin = check_set_init_keeps [OF _ assms(4)]
  have self: "keeps_site {} site site"
    using assms(2,3) by (simp add: keeps_site_def)
  have mono: "keeps_site {} site s \<Longrightarrow> keeps_site (supplied site env) site s" for s
    by (auto simp: keeps_site_def)
  show ?thesis
  proof (cases "lu_seq_range_is_exhausted (space_of (site_srv site))")
    case False
    then have "site' = check_set_init env site"
      using assms(1) by (simp add: seq_server_check_and_alloc_super_def)
    then show ?thesis using fin [OF self] mono by simp
  next
    case True
    show ?thesis
    proof (cases "site_cli site")
      case None
      then show ?thesis using assms(1) True mono [OF self]
        by (simp add: seq_server_check_and_alloc_super_def Let_def)
    next
      case (Some cli)
      obtain rc1 cli' ctl' where a: "seq_client_alloc_super (me_pack env) (me_send env) (me_ctl env) cli (site_ctl site)
          = Some (rc1, cli', ctl')"
        "if rc1 \<noteq> 0 then site' = site\<lparr>site_cli := Some cli', site_ctl := ctl'\<rparr>
         else lu_seq_range_is_sane (lcs_space cli') \<and>
           site' = check_set_init env (site\<lparr>site_cli := Some cli', site_ctl := ctl', site_srv := set_space (lcs_space cli') (site_srv site)\<rparr>)"
        using assms(1) True Some
        by (auto simp: seq_server_check_and_alloc_super_def Let_def bind_eq_Some_conv LASSERT_eq_Some split: if_splits)
      note g = seq_client_alloc_super_gain [OF a(1) assms(2,4,5)]
      show ?thesis
      proof (cases "rc1 = 0")
        case True
        then show ?thesis
          using a(2) fin [OF new_space_keeps [OF assms(2) _ g(1-3) conjunct1 [OF g(4) [OF True]] conjunct2 [OF g(4) [OF True]] refl]]
          by simp
      next
        case False
        then have s: "site' = site\<lparr>site_cli := Some cli', site_ctl := ctl'\<rparr>" using a(2) by simp
        have "site_ctl_free site' = site_ctl_free (site\<lparr>site_ctl := ctl'\<rparr>)" by (simp add: s site_ctl_free_def)
        then show ?thesis using self g(1-3) assms(2) s unfolding keeps_site_def site_inv_def site_free_def by auto
      qed
    qed
  qed
qed

lemma supplied_cong: "(site_ctl a = None) = (site_ctl b = None) \<Longrightarrow> supplied a env = supplied b env"
  by (auto simp: supplied_def)

text \<open>A successful allocation without water sets leaves the space on disk.\<close>

lemma cut_space:
  assumes "keeps_site gain site0 site" and "lss_set_width (srv_seq (site_srv site)) = 0"
    and "lu_seq_range_is_sane sp" and "seqs sp \<subseteq> seqs (space_of (site_srv site))"
    and "range_alloc out sp w = (out', sp')"
    and "seq_store_update res False True (set_space sp' (site_srv site)) = (rc, st')" and "durable res"
    and "site' = site\<lparr>site_srv := st'\<rparr>"
  shows "site_inv site' \<and> site_free site' \<subseteq> site_free site0 \<union> gain \<and>
    (rc = 0 \<longrightarrow> seqs out' \<subseteq> site_free site0 \<union> gain \<and> site_free site' \<inter> seqs out' = {})"
proof -
  let ?st = "site_srv site"
  note p = range_alloc_split [OF assms(5,3)]
  note d = same_rangesD [OF seq_store_update_same [OF assms(6)], simplified]
  have i: "site_inv site" "site_free site \<subseteq> site_free site0 \<union> gain" using assms(1) by (simp_all add: keeps_site_def)
  have e: "lo_seqs ?st = {}" "hi_seqs ?st = {}" "srv_inv ?st" using i(1) assms(2) by (simp_all add: site_inv_def srv_inv_def)
  have sp: "seqs sp' \<subseteq> seqs (space_of ?st)" "seqs out' \<subseteq> seqs (space_of ?st)" using p(7) assms(4) by auto
  have dj: "disk_seqs st' \<union> journal_seqs st' \<subseteq> disk_seqs ?st \<union> journal_seqs ?st \<union> seqs sp'"
    using seq_store_update_cases [OF assms(6)] by (auto simp: disk_seqs_def journal_seqs_def)
  have f: "srv_free st' \<subseteq> srv_free ?st" using d e sp dj by (auto simp: srv_free_def)
  have c: "site_ctl_free site' = site_ctl_free site" by (simp add: site_ctl_free_def assms(8))
  have "srv_inv st'" using d e assms(2) by (simp add: srv_inv_def)
  then have "site_inv site'" using i(1) f unfolding site_inv_def c by (auto simp: assms(8))
  moreover have "seqs out' \<subseteq> site_free site" using sp(2) by (auto simp: site_free_def srv_free_def)
  moreover have "site_free site' \<inter> seqs out' = {}" if rc: "rc = 0"
  proof -
    have "srv_free st' = seqs sp'"
      using seq_store_update_sync(2,3) [OF assms(6) [unfolded rc] assms(7)] d e
      by (simp add: srv_free_def disk_seqs_def journal_seqs_def)
    moreover have "seqs out' \<inter> site_ctl_free site = {}" using i(1) sp(2) by (auto simp: site_inv_def srv_free_def)
    ultimately show ?thesis using p(8) unfolding site_free_def c by (auto simp: assms(8))
  qed
  moreover have "site_free site' \<subseteq> site_free site" using f unfolding site_free_def c by (auto simp: assms(8))
  ultimately show ?thesis using i(2) by blast
qed

text \<open>One attempt that ends, in the three ways the loop does.\<close>

definition meta_ok :: "u64 set \<Rightarrow> seq_site \<Rightarrow> int \<Rightarrow> lu_seq_range \<Rightarrow> seq_site \<Rightarrow> bool" where
  "meta_ok gain site rc out site' \<longleftrightarrow> site_inv site' \<and> site_free site' \<subseteq> site_free site \<union> gain \<and>
     (rc = 0 \<longrightarrow> seqs out \<subseteq> site_free site \<union> gain \<and> site_free site' \<inter> seqs out = {})"

lemma meta_ok_mono: "meta_ok gain site rc out site' \<Longrightarrow> gain \<subseteq> gain' \<Longrightarrow> meta_ok gain' site rc out site'"
  unfolding meta_ok_def by blast

lemma meta_ok_sets:
  assumes "keeps_site gain site0 site" and "range_alloc_set env out (site_srv site) = Some (rc, out', st')"
    and "lss_set_width (srv_seq (site_srv site)) \<noteq> 0" and "env_ok (lss_set_width (srv_seq (site_srv site))) env"
  shows "meta_ok gain site0 rc out' (site\<lparr>site_srv := st'\<rparr>)"
proof -
  have i: "srv_inv (site_srv site)" "lu_seq_range_is_sane (space_of (site_srv site))"
    "srv_free (site_srv site) \<inter> site_ctl_free site = {}" "pred_option ctl_inv (site_ctl site)"
    "site_free site \<subseteq> site_free site0 \<union> gain"
    using assms(1) by (simp_all add: keeps_site_def site_inv_def)
  note r = range_alloc_set_inv [OF assms(2) i(1) assms(3) i(2) assms(4)]
  have "site_ctl_free (site\<lparr>site_srv := st'\<rparr>) = site_ctl_free site" by (simp add: site_ctl_free_def)
  then show ?thesis using r i unfolding meta_ok_def site_inv_def site_free_def by auto
qed

lemma bump_space:
  assumes "lu_seq_range_is_sane sp" and "\<not> (lrc = 0 \<and> last_seq + 1 \<ge> lsr_end sp)" and "last_seq \<noteq> - 1"
    and "sp' = (if lrc = (0 :: int) \<and> last_seq \<ge> lsr_start sp then sp\<lparr>lsr_start := last_seq + 1\<rparr> else sp)"
  shows "lu_seq_range_is_sane sp' \<and> seqs sp' \<subseteq> seqs sp"
proof -
  have "1 + last_seq \<noteq> 0" using assms(3) by (metis add_eq_0_iff)
  then have "last_seq \<le> last_seq + 1" by (simp add: word_le_nat_alt unatSuc add.commute)
  then show ?thesis using assms by (auto simp: lu_seq_range_is_sane_def in_seqs)
qed

text \<open>The space that lies below the last sequence on disk is dropped before the next attempt.\<close>

lemma discard_space:
  assumes "keeps_site gain site0 site" and "lss_set_width (srv_seq (site_srv site)) = 0"
    and "site' = site\<lparr>site_srv := set_space ((space_of (site_srv site))\<lparr>lsr_start := lsr_end (space_of (site_srv site))\<rparr>)
      (site_srv site)\<rparr>"
  shows "site_inv site' \<and> site_free site' \<subseteq> site_free site0"
proof -
  let ?st = "site_srv site" and ?r = "(space_of (site_srv site))\<lparr>lsr_start := lsr_end (space_of (site_srv site))\<rparr>"
  have e: "seqs ?r = {}" by (auto simp: in_seqs)
  have i: "site_inv site" using assms(1) by (simp add: keeps_site_def)
  have c: "site_ctl_free site' = site_ctl_free site" by (simp add: site_ctl_free_def assms(3))
  have fs: "srv_free (site_srv site') = srv_free (set_space lu_seq_range_init ?st)"
    using srv_free_space [of "set_space ?r ?st"] e by (simp add: assms(3))
  have "site_free site' \<subseteq> site_free site0"
    using assms(1,2) srv_free_space [of "site_srv site0"] fs c unfolding keeps_site_def site_free_def by auto
  moreover have "srv_inv (site_srv site')" using i e by (auto intro!: srv_inv_set_space simp: site_inv_def assms(3))
  moreover have "srv_free (site_srv site') \<subseteq> srv_free ?st" unfolding fs using srv_free_space [of ?st] by blast
  ultimately show ?thesis using i unfolding site_inv_def c by (auto simp: assms(3))
qed

lemma alloc_meta_restart_ok:
  assumes "alloc_meta_restart envs out site = Some (Some (rc, out', site'))" and "site_inv site"
    and "lu_seq_range_is_sane (space_of (site_srv site))"
    and "\<forall>env \<in> set envs. env_ok (lss_set_width (srv_seq (site_srv site))) env \<and> snd (me_last_seq env) \<noteq> - 1"
    and "(\<Union>env \<in> set envs. supplied site env) \<inter> site_free site = {}"
  shows "meta_ok (\<Union>env \<in> set envs. supplied site env) site rc out' site'"
  using assms
proof (induction envs arbitrary: site)
  case (Cons env envs)
  let ?w = "lss_set_width (srv_seq (site_srv site))" and ?g = "\<Union>env \<in> set (env # envs). supplied site env"
  have env: "env_ok ?w env" "snd (me_last_seq env) \<noteq> - 1" "supplied site env \<inter> site_free site = {}"
    using Cons.prems(4,5) by auto
  obtain rc1 site1 where c: "seq_server_check_and_alloc_super env site = Some (rc1, site1)"
    using Cons.prems(1) by (auto simp: bind_eq_Some_conv)
  have k: "keeps_site (supplied site env) site site1"
    by (rule check_and_alloc_super_keeps [OF c Cons.prems(2,3) env(1,3)])
  have kD: "site_inv site1" "site_free site1 \<subseteq> site_free site \<union> supplied site env" "(site_ctl site1 = None) = (site_ctl site = None)"
    "lu_seq_range_is_sane (space_of (site_srv site1))" "lss_set_width (srv_seq (site_srv site1)) = ?w"
    using k by (simp_all add: keeps_site_def)
  have sub: "supplied site env \<subseteq> ?g" by auto
  obtain lrc last_seq where ls: "me_last_seq env = (lrc, last_seq)" by fastforce
  define st sp where "st = site_srv site1" and "sp = lss_space (srv_seq st)"
  define sp1 where "sp1 = (if lrc = 0 \<and> last_seq \<ge> lsr_start sp then sp\<lparr>lsr_start := last_seq + 1\<rparr> else sp)"
  obtain out2 sp2 where ra: "range_alloc out sp1 (lss_width (srv_seq st)) = (out2, sp2)" by fastforce
  obtain rc2 st2 where su: "seq_store_update (me_store env) False True (set_space sp2 st) = (rc2, st2)" by fastforce
  note body = Cons.prems(1) [unfolded alloc_meta_restart.simps c bind.bind_lunit prod.case kD(5) ls Let_def,
      folded st_def, folded sp_def, folded sp1_def, unfolded ra su prod.case]
  consider (neg) "rc1 < 0" | (sets) "\<not> rc1 < 0" "?w \<noteq> 0" | (restart) "\<not> rc1 < 0" "?w = 0" "lrc = 0 \<and> last_seq + 1 \<ge> lsr_end sp"
    | (cut) "\<not> rc1 < 0" "?w = 0" "\<not> (lrc = 0 \<and> last_seq + 1 \<ge> lsr_end sp)" by blast
  then show ?case
  proof cases
    case neg
    then have "rc = rc1 \<and> site' = site1" using body by simp
    then show ?thesis using neg kD sub unfolding meta_ok_def by auto
  next
    case sets
    then obtain st' where s: "range_alloc_set env out st = Some (rc, out', st')" "site' = site1\<lparr>site_srv := st'\<rparr>"
      using body by (auto simp: bind_eq_Some_conv)
    have "meta_ok (supplied site env) site rc out' site'"
      using meta_ok_sets [OF k s(1) [unfolded st_def]] s(2) sets(2) env(1) kD(5) by simp
    then show ?thesis using sub by (rule meta_ok_mono)
  next
    case restart
    let ?s = "site1\<lparr>site_srv := set_space (sp\<lparr>lsr_start := lsr_end sp\<rparr>) st\<rparr>"
    have again: "alloc_meta_restart envs out ?s = Some (Some (rc, out', site'))" using body restart by simp
    note d = discard_space [OF k restart(2) [folded kD(5)], of ?s, folded st_def, folded sp_def, OF refl]
    have su: "supplied ?s env' = supplied site env'" for env' by (rule supplied_cong) (simp add: kD(3))
    have "meta_ok (\<Union>env \<in> set envs. supplied ?s env) ?s rc out' site'"
      using Cons.prems(4,5) d kD(5) su
      by (intro Cons.IH [OF again]) (auto simp: lu_seq_range_is_sane_def st_def)
    then have "meta_ok ?g ?s rc out' site'" by (rule meta_ok_mono) (auto simp: su)
    then show ?thesis using d unfolding meta_ok_def by blast
  next
    case cut
    have r: "rc = rc2" "out' = out2" "site' = site1\<lparr>site_srv := st2\<rparr>"
      using body unfolding if_not_P [OF cut(1)] if_not_P [OF cut(3)] by (simp_all add: cut(2))
    have b: "lu_seq_range_is_sane sp1 \<and> seqs sp1 \<subseteq> seqs sp"
      by (rule bump_space [OF _ cut(3) _ sp1_def]) (use kD(4) env(2) ls in \<open>simp_all add: sp_def st_def\<close>)
    have "meta_ok (supplied site env) site rc out' site'"
      unfolding meta_ok_def r using b env(1) cut kD(5)
      by (intro cut_space [OF k _ _ _ ra su [unfolded st_def]]) (simp_all add: st_def sp_def env_ok_def)
    then show ?thesis using sub by (rule meta_ok_mono)
  qed
qed simp

section \<open>The node as an allocator\<close>

text \<open>
  The steps of a node: a meta-sequence is allocated, the controller does one of its steps, a transaction of the
  server commits, and the node crashes and its server starts again from the disk with a new client. The
  second half of the assumption on \<^verbatim>\<open>dt_last_seq_get\<close> is that no object has the largest number as its sequence.
\<close>

inductive site_step :: "seq_site \<Rightarrow> u64 set \<Rightarrow> u64 set \<Rightarrow> seq_site \<Rightarrow> bool" where
  site_meta: "seq_server_alloc_meta envs out site = Some (Some (rc, out', site')) \<Longrightarrow>
     \<forall>env \<in> set envs. env_ok (lss_set_width (srv_seq (site_srv site))) env \<and> snd (me_last_seq env) \<noteq> - 1 \<Longrightarrow>
     site_step site (\<Union>env \<in> set envs. supplied site env) (if rc = 0 then seqs out' else {}) site'"
| site_control: "site_ctl site = Some ctl \<Longrightarrow> ctl_step ctl {} give ctl' \<Longrightarrow>
     site_step site {} give (site\<lparr>site_ctl := Some ctl'\<rparr>)"
| site_commit: "site_step site {} {} (site\<lparr>site_srv := commit_first (site_srv site)\<rparr>)"
| site_restart: "seq_server_init res 0 (whole_record (srv_disk (site_srv site))) LUSTRE_SEQ_SERVER node batch
       (srv_disk (site_srv site)) = Some (0, srv') \<Longrightarrow> (batch \<Longrightarrow> store_ok res) \<Longrightarrow>
     site_step site {} {} (site\<lparr>site_srv := srv', site_cli := cli\<rparr>)"

lemma srv_commit_step:
  assumes "srv_inv st"
  shows "srv_inv (commit_first st) \<and> srv_free (commit_first st) \<subseteq> srv_free st"
proof (cases "srv_journal st")
  case (Cons w ws)
  have r: "lss_lowater_set (srv_seq (commit_first st)) = lss_lowater_set (srv_seq st)"
    "lss_hiwater_set (srv_seq (commit_first st)) = lss_hiwater_set (srv_seq st)" "space_of (commit_first st) = space_of st"
    "lss_set_width (srv_seq (commit_first st)) = lss_set_width (srv_seq st)"
    "disk_seqs (commit_first st) = seqs (fst w)" "srv_journal (commit_first st) = ws"
    using Cons by (simp_all add: commit_first_def disk_seqs_def)
  have j: "journal_seqs st = seqs (fst w) \<union> journal_seqs (commit_first st)"
    using r(6) Cons by (simp add: journal_seqs_def)
  show ?thesis using assms r j Cons by (auto simp: srv_inv_def sets_ok_def srv_free_def)
qed (use assms in \<open>simp add: commit_first_def\<close>)

lemma srv_restart_step:
  assumes "seq_server_init res 0 (whole_record (srv_disk st)) LUSTRE_SEQ_SERVER node batch (srv_disk st) = Some (0, st')"
    and "batch \<Longrightarrow> store_ok res"
  shows "srv_inv st' \<and> srv_free st' \<subseteq> srv_free st"
proof (cases "srv_disk st")
  case None
  note i = seq_server_init_None [OF assms(1) [unfolded None]]
  have z: "seqs (default_space LUSTRE_SEQ_SERVER node) = {}"
    by (auto simp: default_space_def LUSTRE_SEQ_ZERO_RANGE_def in_seqs)
  have "sets_ok st'" if "lss_set_width (srv_seq st') \<noteq> 0"
    using i z that seq_server_init_sync [OF assms(1) [unfolded None] assms(2)]
    by (auto simp: sets_ok_def journal_seqs_def)
  then show ?thesis
    using i z by (auto simp: srv_inv_def srv_free_def disk_seqs_def journal_seqs_def)
next
  case (Some r)
  note i = seq_server_init_Some [OF assms(1) [unfolded Some]]
  then show ?thesis
    using Some by (auto simp: srv_inv_def sets_ok_def srv_free_def disk_seqs_def journal_seqs_def)
qed

lemma site_srv_change:
  assumes "site_inv site" and "srv_inv st \<and> srv_free st \<subseteq> srv_free (site_srv site)"
    and "site_srv site' = st" and "site_ctl site' = site_ctl site"
  shows "site_inv site' \<and> site_free site' \<subseteq> site_free site"
proof -
  have "site_ctl_free site' = site_ctl_free site" by (simp add: site_ctl_free_def assms(4))
  then show ?thesis using assms unfolding site_inv_def site_free_def by auto
qed

interpretation site: allocator site_step site_free site_inv
proof
  fix s gain give s'
  assume inv: "site_inv s" and "site_step s gain give s'" and fresh: "gain \<inter> site_free s = {}"
  from this(2) have "site_inv s' \<and> give \<subseteq> site_free s \<union> gain \<and> site_free s' \<subseteq> site_free s \<union> gain - give"
  proof cases
    case (site_meta envs out rc out')
    have r: "alloc_meta_restart envs out s = Some (Some (rc, out', s'))" "lu_seq_range_is_sane (space_of (site_srv s))"
      using site_meta(3) by (auto simp: seq_server_alloc_meta_def seq_server_alloc_meta_locked_def)
    show ?thesis
      using alloc_meta_restart_ok [OF r(1) inv r(2) site_meta(4)] fresh site_meta(1,2) unfolding meta_ok_def by auto
  next
    case (site_control ctl ctl')
    have c: "ctl_inv ctl" "srv_free (site_srv s) \<inter> ctl_free ctl = {}"
      using inv site_control(3) by (simp_all add: site_inv_def site_ctl_free_def)
    note k = ctl.step_inv [OF c(1) site_control(4)] ctl.step_give [OF c(1) site_control(4)]
      ctl.step_free [OF c(1) site_control(4)]
    show ?thesis
      using inv c k site_control unfolding site_inv_def site_free_def site_ctl_free_def by auto
  next
    case site_commit
    then show ?thesis
      using site_srv_change [OF inv srv_commit_step, of s'] inv by (auto simp: site_inv_def)
  next
    case (site_restart res node batch srv' cli)
    show ?thesis
      using site_srv_change [OF inv srv_restart_step [OF site_restart(4,5)], of s'] site_restart(1-3) by auto
  qed
  then show "site_inv s'" "give \<subseteq> site_free s \<union> gain" "site_free s' \<subseteq> site_free s \<union> gain - give" by blast+
qed

end
