(* ===== verification/Seq_Client.thy ===== *)
theory Seq_Client
  imports Seq_Site
begin

text \<open>
  The client side of the sequence manager, \<^verbatim>\<open>lustre/fid/fid_request.c\<close>: a client gets meta-sequences from the
  manager on its own node or by RPC and hands out FIDs of the sequence it is in. The client is the third
  allocator: it never hands out a FID twice.
\<close>

section \<open>Sequences\<close>

text \<open>
  Each attempt of the loop takes the answers of the RPC layer from the head of the list; the inner \<^term>\<open>None\<close> says
  that the client still waits when the list ends.
\<close>

fun alloc_meta_retry :: "(int \<times> seq_send) list \<Rightarrow> lu_client_seq \<Rightarrow> (int \<times> lu_client_seq) option option" where
  "alloc_meta_retry [] seq = Some None"
| "alloc_meta_retry ((pack, send) # tries) seq =
     do { (rc, out) \<leftarrow> seq_client_rpc pack send seq (lcs_space seq) SEQ_ALLOC_META;
          let seq' = seq\<lparr>lcs_space := out\<rparr>;
          if rc = - EINPROGRESS \<or> rc = - EAGAIN then alloc_meta_retry tries seq'
          else Some (Some (rc, seq')) }"

definition seq_client_alloc_meta ::
  "(int \<times> seq_send) list \<Rightarrow> meta_env list \<Rightarrow> lu_client_seq \<Rightarrow> seq_site option
     \<Rightarrow> (int \<times> lu_client_seq \<times> seq_site option) option option" where
  "seq_client_alloc_meta tries envs seq lcs_srv =
     (case lcs_srv of
        Some site \<Rightarrow> map_option (map_option (\<lambda>(rc, out, site'). (rc, seq\<lparr>lcs_space := out\<rparr>, Some site')))
                       (seq_server_alloc_meta envs (lcs_space seq) site)
      | None \<Rightarrow> map_option (map_option (\<lambda>(rc, seq'). (rc, seq', None))) (alloc_meta_retry tries seq))"

text \<open>The sequence number is \<^term>\<open>None\<close> where \<^verbatim>\<open>*seqnr\<close> is not written.\<close>

definition seq_client_alloc_seq ::
  "(int \<times> seq_send) list \<Rightarrow> meta_env list \<Rightarrow> lu_client_seq \<Rightarrow> seq_site option
     \<Rightarrow> (int \<times> u64 option \<times> lu_client_seq \<times> seq_site option) option option" where
  "seq_client_alloc_seq tries envs seq lcs_srv =
     do { LASSERT (lu_seq_range_is_sane (lcs_space seq));
          r \<leftarrow> (if lu_seq_range_is_exhausted (lcs_space seq)
                then seq_client_alloc_meta tries envs seq lcs_srv else Some (Some (0, seq, lcs_srv)));
          case r of
            None \<Rightarrow> Some None
          | Some (rc, seq', srv') \<Rightarrow>
              if rc \<noteq> 0 then Some (Some (rc, None, seq', srv'))
              else do {
                LASSERT (\<not> lu_seq_range_is_exhausted (lcs_space seq'));
                let seqnr = lsr_start (lcs_space seq');
                Some (Some (rc, Some seqnr,
                  seq'\<lparr>lcs_space := (lcs_space seq')\<lparr>lsr_start := seqnr + 1\<rparr>\<rparr>, srv')) } }"

section \<open>FIDs\<close>

definition LUSTRE_FID_INIT_OID :: u32 where "LUSTRE_FID_INIT_OID = 1"

definition fid_is_zero :: "lu_fid \<Rightarrow> bool" where
  "fid_is_zero fid \<longleftrightarrow> f_seq fid = 0 \<and> f_oid fid = 0"

definition fid_zero :: lu_fid where
  "fid_zero = \<lparr>f_seq = 0, f_oid = 0, f_ver = 0\<rparr>"

definition max_width :: "lu_cli_type \<Rightarrow> u64" where
  "max_width typ = (if typ = LUSTRE_SEQ_METADATA then LUSTRE_METADATA_SEQ_MAX_WIDTH else LUSTRE_DATA_SEQ_MAX_WIDTH)"

definition seq_client_get_seq ::
  "(int \<times> seq_send) list \<Rightarrow> meta_env list \<Rightarrow> lu_client_seq \<Rightarrow> seq_site option
     \<Rightarrow> (int \<times> u64 option \<times> lu_client_seq \<times> seq_site option) option option" where
  "seq_client_get_seq tries envs seq lcs_srv =
     do { r \<leftarrow> seq_client_alloc_seq tries envs seq lcs_srv;
          Some (case r of
              None \<Rightarrow> None
            | Some (rc, seqnr, seq', srv') \<Rightarrow>
                Some (rc, seqnr,
                  case seqnr of None \<Rightarrow> seq'
                  | Some n \<Rightarrow> seq'\<lparr>lcs_fid := \<lparr>f_seq = n, f_oid = ucast (max_width (lcs_type seq')), f_ver = 0\<rparr>\<rparr>,
                  srv')) }"

definition fail_seq_exhaust :: "bool \<Rightarrow> lu_client_seq \<Rightarrow> lu_client_seq" where
  "fail_seq_exhaust exhaust seq =
     (if exhaust then seq\<lparr>lcs_fid := (lcs_fid seq)\<lparr>f_oid := ucast (lcs_width seq)\<rparr>\<rparr> else seq)"

text \<open>\<open>exhaust\<close> is the fault injection \<^verbatim>\<open>OBD_FAIL_SEQ_EXHAUST\<close>. The FID is \<^term>\<open>None\<close> where \<^verbatim>\<open>*fid\<close> is not written.\<close>

definition seq_client_alloc_fid ::
  "bool \<Rightarrow> (int \<times> seq_send) list \<Rightarrow> meta_env list \<Rightarrow> lu_client_seq \<Rightarrow> seq_site option
     \<Rightarrow> (int \<times> lu_fid option \<times> lu_client_seq \<times> seq_site option) option option" where
  "seq_client_alloc_fid exhaust tries envs seq0 lcs_srv =
     (let seq = fail_seq_exhaust exhaust seq0 in
      if \<not> fid_is_zero (lcs_fid seq) \<and> ucast (f_oid (lcs_fid seq)) < lcs_width seq
      then let fid = (lcs_fid seq)\<lparr>f_oid := f_oid (lcs_fid seq) + 1\<rparr>
           in Some (Some (0, Some fid, seq\<lparr>lcs_fid := fid\<rparr>, lcs_srv))
      else do {
        r \<leftarrow> seq_client_alloc_seq tries envs seq lcs_srv;
        Some (case r of
            None \<Rightarrow> None
          | Some (rc, None, seq', srv') \<Rightarrow> Some (rc, if rc \<ge> 0 then Some (lcs_fid seq') else None, seq', srv')
          | Some (rc, Some seqnr, seq', srv') \<Rightarrow>
              let fid = \<lparr>f_seq = seqnr, f_oid = LUSTRE_FID_INIT_OID, f_ver = 0\<rparr>
              in Some (1, Some fid, seq'\<lparr>lcs_fid := fid\<rparr>, srv')) })"

definition seq_client_flush :: "lu_client_seq \<Rightarrow> lu_client_seq" where
  "seq_client_flush seq = seq\<lparr>lcs_fid := fid_zero, lcs_space := lu_seq_range_init\<rparr>"

definition seq_client_fini :: "lu_client_seq \<Rightarrow> lu_client_seq" where
  "seq_client_fini seq = seq\<lparr>lcs_exp := False\<rparr>"

definition seq_client_init :: "lu_client_seq \<Rightarrow> bool \<Rightarrow> lu_cli_type \<Rightarrow> lu_client_seq" where
  "seq_client_init seq exp typ =
     (let seq1 = seq_client_flush (seq\<lparr>lcs_type := typ, lcs_width := max_width typ\<rparr>)
      in if exp then seq1\<lparr>lcs_exp := True\<rparr> else seq1)"

section \<open>The client as an allocator\<close>

definition fids :: "u64 set \<Rightarrow> lu_fid set" where
  "fids S = {f. f_seq f \<in> S}"

text \<open>The FIDs of the current sequence that were not handed out yet.\<close>

definition current_fids :: "lu_client_seq \<Rightarrow> lu_fid set" where
  "current_fids seq = {f. \<not> fid_is_zero (lcs_fid seq) \<and> f_seq f = f_seq (lcs_fid seq) \<and>
     f_oid (lcs_fid seq) < f_oid f \<and> ucast (f_oid f) \<le> lcs_width seq}"

definition client_free :: "lu_client_seq \<Rightarrow> lu_fid set" where
  "client_free seq = fids (seqs (lcs_space seq)) \<union> current_fids seq"

definition client_inv :: "lu_client_seq \<Rightarrow> bool" where
  "client_inv seq \<longleftrightarrow> lcs_width seq \<le> max_width (lcs_type seq) \<and>
     (\<not> fid_is_zero (lcs_fid seq) \<and> ucast (f_oid (lcs_fid seq)) < lcs_width seq \<longrightarrow>
       f_seq (lcs_fid seq) \<notin> seqs (lcs_space seq))"

text \<open>The sequences that a call brings into the space of the client.\<close>

definition received :: "(int \<times> seq_send) list \<Rightarrow> meta_env list \<Rightarrow> lu_client_seq \<Rightarrow> seq_site option \<Rightarrow> u64 set" where
  "received tries envs seq srv =
     (if lu_seq_range_is_exhausted (lcs_space seq)
      then case seq_client_alloc_meta tries envs seq srv of
        Some (Some (rc, seq', srv')) \<Rightarrow> seqs (lcs_space seq') | _ \<Rightarrow> {}
      else {})"

text \<open>What the manager answers: no positive status, and no invalid range as a success.\<close>

definition answer_ok :: "(int \<times> seq_send) list \<Rightarrow> meta_env list \<Rightarrow> lu_client_seq \<Rightarrow> seq_site option \<Rightarrow> bool" where
  "answer_ok tries envs seq srv =
     (case seq_client_alloc_meta tries envs seq srv of
        Some (Some (rc, seq', srv')) \<Rightarrow> rc \<le> 0 \<and> (rc = 0 \<longrightarrow> lu_seq_range_is_sane (lcs_space seq'))
      | _ \<Rightarrow> True)"

inductive client_step :: "lu_client_seq \<Rightarrow> lu_fid set \<Rightarrow> lu_fid set \<Rightarrow> lu_client_seq \<Rightarrow> bool" where
  client_fid: "seq_client_alloc_fid exhaust tries envs seq srv = Some (Some (rc, fid, seq', srv')) \<Longrightarrow>
     answer_ok tries envs (fail_seq_exhaust exhaust seq) srv \<Longrightarrow>
     client_step seq (fids (received tries envs (fail_seq_exhaust exhaust seq) srv)) (set_option fid) seq'"
| client_seq: "seq_client_get_seq tries envs seq srv = Some (Some (rc, seqnr, seq', srv')) \<Longrightarrow>
     answer_ok tries envs seq srv \<Longrightarrow>
     client_step seq (fids (received tries envs seq srv)) (fids (set_option seqnr)) seq'"
| client_flush: "client_step seq {} {} (seq_client_flush seq)"

lemma alloc_meta_retry_same:
  "alloc_meta_retry tries seq = Some (Some (rc, seq')) \<Longrightarrow> seq' = seq\<lparr>lcs_space := lcs_space seq'\<rparr>"
proof (induction tries arbitrary: seq)
  case (Cons t tries)
  obtain pack send where t: "t = (pack, send)" by fastforce
  obtain rc1 out where r: "seq_client_rpc pack send seq (lcs_space seq) SEQ_ALLOC_META = Some (rc1, out)"
    using Cons.prems by (auto simp: t bind_eq_Some_conv)
  show ?case
  proof (cases "rc1 = - EINPROGRESS \<or> rc1 = - EAGAIN")
    case True
    then show ?thesis using Cons.prems Cons.IH [of "seq\<lparr>lcs_space := out\<rparr>"] r by (simp add: t)
  next
    case False
    then show ?thesis using Cons.prems r by (auto simp: t)
  qed
qed simp

lemma seq_client_alloc_meta_same:
  "seq_client_alloc_meta tries envs seq srv = Some (Some (rc, seq', srv')) \<Longrightarrow> seq' = seq\<lparr>lcs_space := lcs_space seq'\<rparr>"
  using alloc_meta_retry_same [of tries seq rc seq']
  by (auto simp: seq_client_alloc_meta_def split: option.splits)

lemma take_first:
  assumes "lu_seq_range_is_sane r" and "\<not> lu_seq_range_is_exhausted r"
  shows "lsr_start r \<in> seqs r" and "seqs (r\<lparr>lsr_start := lsr_start r + 1\<rparr>) \<subseteq> seqs r - {lsr_start r}"
proof -
  have lt: "lsr_start r < lsr_end r" using assms by (simp add: lu_seq_range_is_sane_def exhausted_iff)
  then show "lsr_start r \<in> seqs r" by (simp add: in_seqs)
  have "1 + lsr_start r \<noteq> 0" using lt by (metis add_eq_0_iff word_n1_ge not_le)
  then have "lsr_start r < lsr_start r + 1" by (simp add: word_less_nat_alt unatSuc add.commute)
  then show "seqs (r\<lparr>lsr_start := lsr_start r + 1\<rparr>) \<subseteq> seqs r - {lsr_start r}" by (auto simp: in_seqs)
qed

lemma seq_client_alloc_seq_effect:
  assumes "seq_client_alloc_seq tries envs seq srv = Some (Some (rc, seqnr, seq', srv'))" and "answer_ok tries envs seq srv"
  shows "seq' = seq\<lparr>lcs_space := lcs_space seq'\<rparr>"
    and "seqnr = None \<Longrightarrow> rc < 0 \<and> seqs (lcs_space seq') \<subseteq> seqs (lcs_space seq) \<union> received tries envs seq srv"
    and "seqnr = Some n \<Longrightarrow> rc = 0 \<and> n \<in> seqs (lcs_space seq) \<union> received tries envs seq srv \<and>
      seqs (lcs_space seq') \<subseteq> seqs (lcs_space seq) \<union> received tries envs seq srv - {n}"
proof -
  obtain rc1 seq1 srv1 where m: "(if lu_seq_range_is_exhausted (lcs_space seq)
      then seq_client_alloc_meta tries envs seq srv else Some (Some (0, seq, srv))) = Some (Some (rc1, seq1, srv1))"
    and sane0: "lu_seq_range_is_sane (lcs_space seq)"
    using assms(1) by (auto simp: seq_client_alloc_seq_def bind_eq_Some_conv LASSERT_eq_Some split: option.splits)
  have "seq1 = seq\<lparr>lcs_space := lcs_space seq1\<rparr>"
    using m seq_client_alloc_meta_same [of tries envs seq srv rc1 seq1 srv1] by (auto split: if_splits)
  then obtain sp1 where s1: "seq1 = seq\<lparr>lcs_space := sp1\<rparr>" by blast
  have sp: "seqs (lcs_space seq1) \<subseteq> seqs (lcs_space seq) \<union> received tries envs seq srv"
    "rc1 \<le> 0" "rc1 = 0 \<Longrightarrow> lu_seq_range_is_sane (lcs_space seq1)"
    using m assms(2) sane0 by (auto simp: received_def answer_ok_def split: if_splits)
  consider (err) "rc1 \<noteq> 0" "rc = rc1" "seqnr = None" "seq' = seq1"
    | (ok) "rc1 = 0" "rc = 0" "seqnr = Some (lsr_start (lcs_space seq1))" "\<not> lu_seq_range_is_exhausted (lcs_space seq1)"
      "seq' = seq1\<lparr>lcs_space := (lcs_space seq1)\<lparr>lsr_start := lsr_start (lcs_space seq1) + 1\<rparr>\<rparr>"
    using assms(1) m sane0 by (auto simp: seq_client_alloc_seq_def Let_def split: if_splits)
  note cs = this
  show "seq' = seq\<lparr>lcs_space := lcs_space seq'\<rparr>" 
    using cs by cases (simp_all add: s1)
  show "seqnr = None \<Longrightarrow> rc < 0 \<and> seqs (lcs_space seq') \<subseteq> seqs (lcs_space seq) \<union> received tries envs seq srv"
    using cs sp by cases auto
  show "seqnr = Some n \<Longrightarrow> rc = 0 \<and> n \<in> seqs (lcs_space seq) \<union> received tries envs seq srv \<and>
      seqs (lcs_space seq') \<subseteq> seqs (lcs_space seq) \<union> received tries envs seq srv - {n}"
    using cs sp take_first [of "lcs_space seq1"] by cases auto
qed

lemma in_fids: "f \<in> fids S \<longleftrightarrow> f_seq f \<in> S"
  by (simp add: fids_def)

lemma fids_disjointD: "fids S \<inter> A = {} \<Longrightarrow> f \<in> A \<Longrightarrow> f_seq f \<notin> S"
  by (auto simp: in_fids)

lemma unat_ucast_oid: "unat (ucast (oid :: u32) :: u64) = unat oid"
  by (rule unat_ucast_u32)

lemma oid_bump:
  assumes "(ucast (oid :: u32) :: u64) < w" and "w \<le> max_width typ"
  shows "oid < oid + 1" and "(ucast (oid + 1) :: u64) \<le> w"
proof -
  have "unat w \<le> 0x1FFFFFF"
    using assms(2) by (auto simp: max_width_def word_le_nat_alt LUSTRE_METADATA_SEQ_MAX_WIDTH_def
        LUSTRE_DATA_SEQ_MAX_WIDTH_def split: if_splits)
  then have o': "unat oid < unat w" "unat oid < 0x1FFFFFF"
    using assms(1) by (simp_all add: word_less_nat_alt unat_ucast_oid)
  then have u: "unat (oid + 1) = unat oid + 1" by (subst unat_add_lem [THEN iffD1]) simp_all
  then show "oid < oid + 1" "(ucast (oid + 1) :: u64) \<le> w"
    using o' by (simp_all add: word_less_nat_alt word_le_nat_alt unat_ucast_oid)
qed

text \<open>There is a FID left in a sequence that is not at its width.\<close>

lemma current_fids_next:
  assumes "client_inv seq" and "\<not> fid_is_zero (lcs_fid seq)" and "ucast (f_oid (lcs_fid seq)) < lcs_width seq"
  shows "(lcs_fid seq)\<lparr>f_oid := f_oid (lcs_fid seq) + 1\<rparr> \<in> current_fids seq"
  using oid_bump [OF assms(3), of "lcs_type seq"] assms by (simp add: current_fids_def client_inv_def)

lemma fail_seq_exhaust_keeps:
  assumes "client_inv seq"
  shows "client_inv (fail_seq_exhaust exhaust seq) \<and> client_free (fail_seq_exhaust exhaust seq) \<subseteq> client_free seq"
proof -
  have w: "unat (lcs_width seq) < 2 ^ 32"
    using assms by (auto simp: client_inv_def max_width_def word_le_nat_alt LUSTRE_METADATA_SEQ_MAX_WIDTH_def
        LUSTRE_DATA_SEQ_MAX_WIDTH_def split: if_splits)
  then have v: "unat (ucast (lcs_width seq) :: u32) = unat (lcs_width seq)"
    by (simp add: unsigned_ucast_eq take_bit_nat_eq_self_iff)
  have u: "(ucast (ucast (lcs_width seq) :: u32) :: u64) = lcs_width seq"
    by (rule word_unat_eq_iff [THEN iffD2]) (simp only: unat_ucast_u32 v)
  have "current_fids (fail_seq_exhaust True seq) = {}"
    using v by (auto simp: current_fids_def fail_seq_exhaust_def word_less_nat_alt word_le_nat_alt unat_ucast_oid)
  then show ?thesis
    using assms u by (cases exhaust) (auto simp: client_inv_def client_free_def fail_seq_exhaust_def)
qed

text \<open>Taking a new sequence: the client changes over to it, or only its space changed.\<close>

lemma new_sequence:
  assumes "seq_client_alloc_seq tries envs seq srv = Some (Some (rc, seqnr, seq1, srv'))" and "answer_ok tries envs seq srv"
    and "client_inv seq" and "fids (received tries envs seq srv) \<inter> client_free seq = {}"
    and "seq' = (case seqnr of None \<Rightarrow> seq1 | Some n \<Rightarrow> seq1\<lparr>lcs_fid := fid\<rparr>)"
    and "\<And>n. seqnr = Some n \<Longrightarrow> f_seq fid = n" and "give \<subseteq> fids (set_option seqnr)"
    and "seqnr \<noteq> None \<Longrightarrow> give \<inter> current_fids seq' = {}"
  shows "client_inv seq' \<and> give \<subseteq> client_free seq \<union> fids (received tries envs seq srv) \<and>
    client_free seq' \<subseteq> client_free seq \<union> fids (received tries envs seq srv) - give"
proof -
  let ?R = "received tries envs seq srv"
  note e = seq_client_alloc_seq_effect [OF assms(1,2)]
  obtain sp where s1: "seq1 = seq\<lparr>lcs_space := sp\<rparr>" using e(1) by blast
  show ?thesis
  proof (cases seqnr)
    case None
    then have g: "seq' = seq\<lparr>lcs_space := sp\<rparr>" "give = {}" "seqs sp \<subseteq> seqs (lcs_space seq) \<union> ?R"
      using assms(5,7) e(2) s1 by (auto simp: fids_def)
    have "f_seq (lcs_fid seq) \<notin> ?R"
      if "\<not> fid_is_zero (lcs_fid seq)" "ucast (f_oid (lcs_fid seq)) < lcs_width seq"
      using fids_disjointD [OF assms(4), of "(lcs_fid seq)\<lparr>f_oid := f_oid (lcs_fid seq) + 1\<rparr>"]
        current_fids_next [OF assms(3) that] by (simp add: client_free_def)
    then have "client_inv seq'" using assms(3) g by (auto simp: client_inv_def)
    moreover have "current_fids seq' = current_fids seq" by (simp add: current_fids_def g(1))
    ultimately show ?thesis using g by (auto simp: client_free_def in_fids)
  next
    case (Some n)
    then have g: "seq' = seq\<lparr>lcs_space := sp, lcs_fid := fid\<rparr>" "f_seq fid = n" "give \<subseteq> fids {n}"
      "n \<in> seqs (lcs_space seq) \<union> ?R" "seqs sp \<subseteq> seqs (lcs_space seq) \<union> ?R - {n}"
      using assms(5-7) e(3) s1 by auto
    have "client_inv seq'" using assms(3) g by (auto simp: client_inv_def)
    moreover have "f_seq f = n" if "f \<in> current_fids seq' \<or> f \<in> give" for f
      using g(1-3) that by (auto simp: current_fids_def in_fids)
    ultimately show ?thesis using g assms(8) Some by (auto simp: client_free_def in_fids)
  qed
qed

text \<open>What the contract asks of one step.\<close>

definition allocates :: "lu_client_seq \<Rightarrow> lu_fid set \<Rightarrow> lu_fid set \<Rightarrow> lu_client_seq \<Rightarrow> bool" where
  "allocates seq gain give seq' \<longleftrightarrow> client_inv seq' \<and> give \<subseteq> client_free seq \<union> gain \<and>
     client_free seq' \<subseteq> client_free seq \<union> gain - give"

lemma bump_step:
  assumes "client_inv seq" and "\<not> fid_is_zero (lcs_fid seq)" and "ucast (f_oid (lcs_fid seq)) < lcs_width seq"
    and "fid = (lcs_fid seq)\<lparr>f_oid := f_oid (lcs_fid seq) + 1\<rparr>"
  shows "allocates seq gain {fid} (seq\<lparr>lcs_fid := fid\<rparr>)"
proof -
  let ?s = "seq\<lparr>lcs_fid := fid\<rparr>"
  have n: "fid \<in> current_fids seq" using current_fids_next [OF assms(1-3)] assms(4) by simp
  have "f_seq fid \<notin> seqs (lcs_space seq)" using assms by (simp add: client_inv_def)
  moreover have "current_fids ?s \<subseteq> current_fids seq - {fid}"
    using n assms(2,4) unfolding current_fids_def by auto
  moreover have "client_inv ?s" using assms by (auto simp: client_inv_def)
  ultimately show ?thesis using n by (auto simp: allocates_def client_free_def in_fids)
qed

lemma alloc_fid_step:
  assumes "seq_client_alloc_fid exhaust tries envs seq srv = Some (Some (rc, fid, seq', srv'))"
    and "answer_ok tries envs (fail_seq_exhaust exhaust seq) srv" and "client_inv seq"
    and "fids (received tries envs (fail_seq_exhaust exhaust seq) srv) \<inter> client_free seq = {}"
  shows "allocates seq (fids (received tries envs (fail_seq_exhaust exhaust seq) srv)) (set_option fid) seq'"
proof -
  define t where "t = fail_seq_exhaust exhaust seq"
  let ?R = "received tries envs t srv"
  have t: "client_inv t" "client_free t \<subseteq> client_free seq"
    using fail_seq_exhaust_keeps [OF assms(3)] by (simp_all add: t_def)
  have fr: "fids ?R \<inter> client_free t = {}" using assms(4) t(2) by (auto simp: t_def)
  have "allocates t (fids ?R) (set_option fid) seq'"
  proof (cases "\<not> fid_is_zero (lcs_fid t) \<and> ucast (f_oid (lcs_fid t)) < lcs_width t")
    case True
    then show ?thesis
      using assms(1) bump_step [OF t(1), of "(lcs_fid t)\<lparr>f_oid := f_oid (lcs_fid t) + 1\<rparr>"]
      by (auto simp: seq_client_alloc_fid_def Let_def t_def [symmetric])
  next
    case False
    then obtain r where r: "seq_client_alloc_seq tries envs t srv = Some r"
      using assms(1) by (auto simp: seq_client_alloc_fid_def Let_def t_def [symmetric] bind_eq_Some_conv)
    then obtain rc1 seqnr seq1 srv1 where a: "r = Some (rc1, seqnr, seq1, srv1)"
      using assms(1) False by (cases r) (auto simp: seq_client_alloc_fid_def Let_def t_def [symmetric])
    note new = new_sequence [OF r [unfolded a] assms(2) [folded t_def] t(1) fr]
    note eff = seq_client_alloc_seq_effect [OF r [unfolded a] assms(2) [folded t_def]]
    show ?thesis
    proof (cases seqnr)
      case None
      then have "seq' = seq1" "fid = None"
        using assms(1) False r a eff(2) by (auto simp: seq_client_alloc_fid_def Let_def t_def [symmetric])
      then show ?thesis using new [of seq1 fid_zero "{}"] None by (simp add: allocates_def)
    next
      case (Some n)
      define f where "f = \<lparr>f_seq = n, f_oid = LUSTRE_FID_INIT_OID, f_ver = 0\<rparr>"
      then have s: "seq' = seq1\<lparr>lcs_fid := f\<rparr>" "fid = Some f"
        using assms(1) False r a Some by (simp_all add: seq_client_alloc_fid_def Let_def t_def [symmetric])
      have "f \<notin> current_fids seq'" by (simp add: s(1) current_fids_def)
      then show ?thesis
        using new [of seq' f "{f}"] s Some by (simp add: allocates_def in_fids f_def)
    qed
  qed
  then show ?thesis using t(2) unfolding allocates_def t_def by blast
qed

lemma get_seq_step:
  assumes "seq_client_get_seq tries envs seq srv = Some (Some (rc, seqnr, seq', srv'))"
    and "answer_ok tries envs seq srv" and "client_inv seq"
    and "fids (received tries envs seq srv) \<inter> client_free seq = {}"
  shows "allocates seq (fids (received tries envs seq srv)) (fids (set_option seqnr)) seq'"
proof -
  obtain r where r: "seq_client_alloc_seq tries envs seq srv = Some r"
    using assms(1) by (auto simp: seq_client_get_seq_def bind_eq_Some_conv)
  then obtain rc1 seqnr1 seq1 srv1 where a: "r = Some (rc1, seqnr1, seq1, srv1)"
    using assms(1) by (cases r) (auto simp: seq_client_get_seq_def)
  note new = new_sequence [OF r [unfolded a] assms(2-4)]
  note eff = seq_client_alloc_seq_effect [OF r [unfolded a] assms(2)]
  show ?thesis
  proof (cases seqnr1)
    case None
    then have "seq' = seq1" "seqnr = None" using assms(1) r a by (auto simp: seq_client_get_seq_def)
    then show ?thesis using new [of seq1 fid_zero "{}"] None by (simp add: allocates_def fids_def)
  next
    case (Some n)
    define f where "f = \<lparr>f_seq = n, f_oid = ucast (max_width (lcs_type seq1)), f_ver = 0\<rparr>"
    then have s: "seq' = seq1\<lparr>lcs_fid := f\<rparr>" "seqnr = Some n" using assms(1) r a Some by (auto simp: seq_client_get_seq_def)
    obtain sp where s1: "seq1 = seq\<lparr>lcs_space := sp\<rparr>" using eff(1) by blast
    have "(ucast (f_oid f) :: u64) = max_width (lcs_type seq)"
      by (simp add: f_def s1 max_width_def LUSTRE_METADATA_SEQ_MAX_WIDTH_def LUSTRE_DATA_SEQ_MAX_WIDTH_def)
    then have "current_fids seq' = {}"
      using assms(3) by (auto simp: current_fids_def s(1) s1 client_inv_def word_less_nat_alt word_le_nat_alt
          unat_ucast_oid [symmetric])
    then show ?thesis
      using new [of seq' f "fids {n}"] s Some by (simp add: allocates_def f_def)
  qed
qed

interpretation cli: allocator client_step client_free client_inv
proof
  fix s gain give s'
  assume inv: "client_inv s" and "client_step s gain give s'" and fresh: "gain \<inter> client_free s = {}"
  from this(2) have "allocates s gain give s'"
  proof cases
    case (client_fid exhaust tries envs srv rc fid srv')
    then show ?thesis using alloc_fid_step [OF client_fid(3,4) inv] fresh by simp
  next
    case (client_seq tries envs srv rc seqnr srv')
    then show ?thesis using get_seq_step [OF client_seq(3,4) inv] fresh by simp
  next
    case client_flush
    then show ?thesis
      using inv by (auto simp: allocates_def seq_client_flush_def client_inv_def client_free_def current_fids_def
          fid_is_zero_def fid_zero_def in_fids)
  qed
  then show "client_inv s'" "give \<subseteq> client_free s \<union> gain" "client_free s' \<subseteq> client_free s \<union> gain - give"
    unfolding allocates_def by blast+
qed

end
