(* ===== verification/Seq_Properties.thy ===== *)
theory Seq_Properties
  imports Seq_Client
begin

text \<open>
  The properties of the sequence manager: super-sequences, meta-sequences and FIDs are never given out twice,
  the restart loop ends, and what goes wrong when the storage or the peer does not do its part.
\<close>

section \<open>Uniqueness\<close>

lemma run_two: "step s g1 v1 s1 \<Longrightarrow> step s1 g2 v2 s2 \<Longrightarrow> run step s [(g1, v1), (g2, v2)] s2"
  by (blast intro: run_Cons run_Nil)

lemma ctl_run_fresh: "run ctl_step st evs st' \<Longrightarrow> fresh_gains used evs"
  by (induction arbitrary: used rule: run.induct) (auto elim!: ctl_step.cases)

lemma seq_server_init_ctl_inv:
  assumes "seq_server_init res 0 (whole_record disk) LUSTRE_SEQ_CONTROLLER node batch disk = Some (0, st)"
  shows "ctl_inv st"
  using ctl_restart_step [of res "\<lparr>srv_seq = undefined, srv_disk = disk, srv_journal = []\<rparr>" node batch st] assms by simp

text \<open>
  C15: The controller never gives a sequence away twice. From its start on, in every run of allocations, reserved
  ranges, commits, crashes and restarts, the ranges that were handed out with success are pairwise disjoint. The storage layer
  may fail to create, declare, start or write a transaction, but it is not read-only, and the synchronous transactions that are stopped are
  on disk: the status of \<^verbatim>\<open>dt_trans_stop\<close> is 0.
\<close>

theorem seq_super_never_twice:
  assumes "seq_server_init res 0 (whole_record disk) LUSTRE_SEQ_CONTROLLER node batch disk = Some (0, st)"
    and "run ctl_step st evs st'"
  shows "disjoint_gives evs"
  using ctl.never_twice [OF assms(2) seq_server_init_ctl_inv [OF assms(1)] ctl_run_fresh [OF assms(2)]] .

definition res_ok :: store_results where
  "res_ok = \<lparr>sr_rdonly = False, sr_create = 0, sr_declare = 0, sr_fld_declare = 0, sr_start = 0, sr_write = 0,
     sr_fld_create = 0, sr_cb_alloc = True, sr_cb_add = 0, sr_th_sync = False, sr_stop = 0\<rparr>"

definition mgr_wit :: "lu_mgr_type \<Rightarrow> lu_seq_range \<Rightarrow> u64 \<Rightarrow> u64 \<Rightarrow> lu_server_seq" where
  "mgr_wit typ space w set_w = \<lparr>lss_space = space, lss_lowater_set = lu_seq_range_init,
     lss_hiwater_set = lu_seq_range_init, lss_type = typ, lss_width = w, lss_set_width = set_w, lss_need_sync = False\<rparr>"

definition range_wit :: "u64 \<Rightarrow> u64 \<Rightarrow> lu_seq_range" where
  "range_wit a b = \<lparr>lsr_start = a, lsr_end = b, lsr_index = 0, lsr_flags = 0\<rparr>"

lemmas seq_wit_defs = res_ok_def mgr_wit_def range_wit_def lu_seq_range_init_def

lemma ctl_init_wit:
  "seq_server_init res_ok 0 (whole_record (Some (range_wit 1000 9000000000))) LUSTRE_SEQ_CONTROLLER 0 False
     (Some (range_wit 1000 9000000000)) =
   Some (0, \<lparr>srv_seq = mgr_wit LUSTRE_SEQ_CONTROLLER (range_wit 1000 9000000000) LUSTRE_SEQ_SUPER_WIDTH 0,
     srv_disk = Some (range_wit 1000 9000000000), srv_journal = []\<rparr>)"
  by code_simp

definition ctl_wit :: "lu_seq_range \<Rightarrow> seq_server" where
  "ctl_wit space = \<lparr>srv_seq = mgr_wit LUSTRE_SEQ_CONTROLLER space LUSTRE_SEQ_SUPER_WIDTH 0,
     srv_disk = Some space, srv_journal = []\<rparr>"

lemma ctl_super_wit:
  "seq_server_alloc_super res_ok (ctl_wit (range_wit 1000 9000000000)) lu_seq_range_init =
     Some (0, range_wit 1000 1073742824, ctl_wit (range_wit 1073742824 9000000000))"
  by code_simp
lemma ctl_super_wit2:
  "seq_server_alloc_super res_ok (ctl_wit (range_wit 1073742824 9000000000)) lu_seq_range_init =
     Some (0, range_wit 1073742824 2147484648, ctl_wit (range_wit 2147484648 9000000000))"
  by code_simp

lemma ctl_restart_wit:
  "seq_server_init res_ok 0 (whole_record (srv_disk (ctl_wit (range_wit 1073742824 9000000000)))) LUSTRE_SEQ_CONTROLLER 0 False
     (srv_disk (ctl_wit (range_wit 1073742824 9000000000))) = Some (0, ctl_wit (range_wit 1073742824 9000000000))"
  by code_simp

lemma res_ok_durable: "durable res_ok"
  by (simp add: durable_def res_ok_def)

theorem seq_super_never_twice_witness:
  "disjoint_gives [({}, seqs (range_wit 1000 1073742824)), ({}, {}), ({}, seqs (range_wit 1073742824 2147484648))]"
proof (rule seq_super_never_twice [OF ctl_init_wit [folded ctl_wit_def]])
  have "ctl_step (ctl_wit (range_wit 1000 9000000000)) {} (seqs (range_wit 1000 1073742824)) (ctl_wit (range_wit 1073742824 9000000000))"
    "ctl_step (ctl_wit (range_wit 1073742824 9000000000)) {} {} (ctl_wit (range_wit 1073742824 9000000000))"
    "ctl_step (ctl_wit (range_wit 1073742824 9000000000)) {} (seqs (range_wit 1073742824 2147484648)) (ctl_wit (range_wit 2147484648 9000000000))"
    using ctl_super [OF ctl_super_wit res_ok_durable] ctl_restart [OF ctl_restart_wit] ctl_super [OF ctl_super_wit2 res_ok_durable]
    by simp_all
  then show "run ctl_step (ctl_wit (range_wit 1000 9000000000))
     [({}, seqs (range_wit 1000 1073742824)), ({}, {}), ({}, seqs (range_wit 1073742824 2147484648))]
     (ctl_wit (range_wit 2147484648 9000000000))"
    by (blast intro: run_Cons run_Nil)
qed

lemma site_init_inv:
  assumes "seq_server_init res 0 (whole_record None) LUSTRE_SEQ_SERVER node batch None = Some (0, site_srv site)"
    and "batch \<Longrightarrow> store_ok res"
    and "site_ctl site = None \<or> (\<exists>cres cdisk cbatch ctl. site_ctl site = Some ctl \<and>
      seq_server_init cres 0 (whole_record cdisk) LUSTRE_SEQ_CONTROLLER node cbatch cdisk = Some (0, ctl))"
  shows "site_inv site" and "srv_free (site_srv site) = {}"
proof -
  let ?st = "\<lparr>srv_seq = (srv_seq (site_srv site))\<lparr>lss_space := lu_seq_range_init, lss_lowater_set := lu_seq_range_init,
    lss_hiwater_set := lu_seq_range_init\<rparr>, srv_disk = None, srv_journal = []\<rparr>"
  have s: "srv_inv (site_srv site) \<and> srv_free (site_srv site) \<subseteq> srv_free ?st"
    using srv_restart_step [of res ?st node batch "site_srv site"] assms(1,2) by simp
  moreover have "srv_free ?st = {}" by (simp add: srv_free_def disk_seqs_def journal_seqs_def)
  ultimately show f: "srv_free (site_srv site) = {}" by simp
  have "pred_option ctl_inv (site_ctl site)" using assms(3) seq_server_init_ctl_inv by auto
  then show "site_inv site" using s f by (simp add: site_inv_def)
qed

text \<open>
  C3: A node never gives a sequence away twice. Its server starts with an empty file, with or without a
  controller on the same node. In every run of meta-sequence allocations, steps of the controller, commits, crashes
  and restarts, in which the super-sequences that arrive from another node are fresh, the storage layer is not read-only, stopped synchronous
  transactions are on disk, and under the water sets no call of the storage layer fails, the ranges handed out with success are pairwise disjoint.
\<close>

theorem seq_meta_never_twice:
  assumes "seq_server_init res 0 (whole_record None) LUSTRE_SEQ_SERVER node batch None = Some (0, site_srv site)"
    and "batch \<Longrightarrow> store_ok res"
    and "site_ctl site = None \<or> (\<exists>cres cdisk cbatch ctl. site_ctl site = Some ctl \<and>
      seq_server_init cres 0 (whole_record cdisk) LUSTRE_SEQ_CONTROLLER node cbatch cdisk = Some (0, ctl))"
    and "run site_step site evs site'" and "fresh_gains (site_free site) evs"
  shows "disjoint_gives evs"
  using site.never_twice [OF assms(4) site_init_inv(1) [OF assms(1-3)] assms(5)] .

definition client_wit :: lu_client_seq where
  "client_wit = \<lparr>lcs_exp = False, lcs_space = lu_seq_range_init, lcs_fid = fid_zero, lcs_type = LUSTRE_SEQ_METADATA,
     lcs_width = LUSTRE_METADATA_SEQ_MAX_WIDTH\<rparr>"

definition site_wit :: "bool \<Rightarrow> seq_site" where
  "site_wit batch = \<lparr>site_srv = snd (the (seq_server_init res_ok 0 0 LUSTRE_SEQ_SERVER 0 batch None)),
     site_cli = Some client_wit, site_ctl = Some (ctl_wit (range_wit 1000 9000000000)), ss_node_id = 0\<rparr>"

definition env_wit :: "seq_send \<Rightarrow> store_results \<Rightarrow> meta_env" where
  "env_wit send res = \<lparr>me_pack = 0, me_send = send, me_ctl = res_ok, me_fld = 0, me_init = res, me_init_set = res_ok,
     me_store = res_ok, me_fail = False, me_num_exports = 1, me_last_seq = (- 2, 0)\<rparr>"

definition no_reply :: seq_send where
  "no_reply req = (- 110, lu_seq_range_init)"

definition site_wit1 :: seq_site where
  "site_wit1 = snd (snd (the (the (seq_server_alloc_meta [env_wit no_reply res_ok] lu_seq_range_init (site_wit True)))))"

definition site_wit2 :: seq_site where
  "site_wit2 = snd (snd (the (the (seq_server_alloc_meta [env_wit no_reply res_ok] lu_seq_range_init site_wit1))))"

lemma site_meta_wit1:
  "seq_server_alloc_meta [env_wit no_reply res_ok] lu_seq_range_init (site_wit True) =
     Some (Some (0, range_wit 1000 1001, site_wit1))"
  by code_simp

lemma site_meta_wit2:
  "seq_server_alloc_meta [env_wit no_reply res_ok] lu_seq_range_init site_wit1 =
     Some (Some (0, range_wit 1001 1002, site_wit2))"
  by code_simp

lemma site_wit_ctl: "site_ctl (site_wit True) \<noteq> None" "site_ctl site_wit1 \<noteq> None"
  by code_simp+

lemma env_wit_ok: "env_ok w (env_wit no_reply res_ok) \<and> snd (me_last_seq (env_wit no_reply res_ok)) \<noteq> - 1"
  by (simp add: env_ok_def env_wit_def res_ok_def store_ok_def durable_def)

lemma site_init_wit:
  "seq_server_init res_ok 0 (whole_record None) LUSTRE_SEQ_SERVER 0 True None = Some (0, site_srv (site_wit True))"
  by code_simp

theorem seq_meta_never_twice_witness:
  "disjoint_gives [({}, seqs (range_wit 1000 1001)), ({}, seqs (range_wit 1001 1002))]"
proof (rule seq_meta_never_twice [OF site_init_wit])
  show "store_ok res_ok" by (simp add: store_ok_def res_ok_def)
  show "site_ctl (site_wit True) = None \<or> (\<exists>cres cdisk cbatch ctl. site_ctl (site_wit True) = Some ctl \<and>
      seq_server_init cres 0 (whole_record cdisk) LUSTRE_SEQ_CONTROLLER 0 cbatch cdisk = Some (0, ctl))"
    using ctl_init_wit [folded ctl_wit_def] by (auto simp: site_wit_def)
  have s: "site_step (site_wit True) {} (seqs (range_wit 1000 1001)) site_wit1"
    "site_step site_wit1 {} (seqs (range_wit 1001 1002)) site_wit2"
    using site_meta [OF site_meta_wit1] site_meta [OF site_meta_wit2] site_wit_ctl
    by (simp_all add: env_wit_ok supplied_def)
  show "run site_step (site_wit True) [({}, seqs (range_wit 1000 1001)), ({}, seqs (range_wit 1001 1002))] site_wit2"
    using s by (rule run_two)
qed simp

text \<open>
  C8: A client never hands out a FID twice. After \<^verbatim>\<open>seq_client_init\<close>, in every run of FID allocations, allocations of
  whole sequences and flushes, in which the ranges that reach the client are fresh, the FIDs handed out are
  pairwise distinct, and none of them is in a sequence that was given away as a whole.
\<close>

theorem fid_never_twice:
  assumes "seq = seq_client_init seq0 exp typ" and "run client_step seq evs seq'" and "fresh_gains {} evs"
  shows "disjoint_gives evs"
proof -
  have "client_free seq = {}" "client_inv seq"
    by (auto simp: assms(1) seq_client_init_def Let_def seq_client_flush_def client_free_def client_inv_def current_fids_def
        fid_zero_def fid_is_zero_def fids_def)
  then show ?thesis using cli.never_twice [OF assms(2)] assms(3) by simp
qed

definition client_wit1 :: "lu_client_seq" where
  "client_wit1 = fst (snd (snd (the (the (seq_client_alloc_fid False [] [env_wit no_reply res_ok]
     (seq_client_init client_wit False LUSTRE_SEQ_METADATA) (Some (site_wit True)))))))"

definition client_wit2 :: "lu_client_seq" where
  "client_wit2 = fst (snd (snd (the (the (seq_client_alloc_fid False [] [] client_wit1 (Some site_wit1))))))"

lemma client_fid_wit1:
  "seq_client_alloc_fid False [] [env_wit no_reply res_ok] (seq_client_init client_wit False LUSTRE_SEQ_METADATA)
     (Some (site_wit True)) = Some (Some (1, Some \<lparr>f_seq = 1000, f_oid = 1, f_ver = 0\<rparr>, client_wit1, Some site_wit1))"
  by code_simp

lemma client_fid_wit2:
  "seq_client_alloc_fid False [] [] client_wit1 (Some site_wit1) =
     Some (Some (0, Some \<lparr>f_seq = 1000, f_oid = 2, f_ver = 0\<rparr>, client_wit2, Some site_wit1))"
  by code_simp

lemma client_meta_wit:
  "seq_client_alloc_meta [] [env_wit no_reply res_ok] (seq_client_init client_wit False LUSTRE_SEQ_METADATA)
     (Some (site_wit True)) =
   Some (Some (0, (seq_client_init client_wit False LUSTRE_SEQ_METADATA)\<lparr>lcs_space := range_wit 1000 1001\<rparr>, Some site_wit1))"
  by code_simp

lemma client_space_wit:
  "lu_seq_range_is_exhausted (lcs_space (seq_client_init client_wit False LUSTRE_SEQ_METADATA))"
  "seq_client_alloc_meta [] [] client_wit1 (Some site_wit1) = Some None"
  by code_simp+

lemma received_wit1: "received [] [env_wit no_reply res_ok] (seq_client_init client_wit False LUSTRE_SEQ_METADATA)
     (Some (site_wit True)) = seqs (range_wit 1000 1001)"
  using client_space_wit(1) by (simp add: received_def client_meta_wit)

lemma received_wit2: "received [] [] client_wit1 (Some site_wit1) = {}"
  using client_space_wit by (simp add: received_def)

theorem fid_never_twice_witness:
  "disjoint_gives [(fids (seqs (range_wit 1000 1001)), {\<lparr>f_seq = 1000, f_oid = 1, f_ver = 0\<rparr>}),
     ({}, {\<lparr>f_seq = 1000, f_oid = 2, f_ver = 0\<rparr>})]"
proof (rule fid_never_twice [OF refl])
  have "lu_seq_range_is_sane (range_wit 1000 1001)" by (simp add: lu_seq_range_is_sane_def range_wit_def)
  then have s: "client_step (seq_client_init client_wit False LUSTRE_SEQ_METADATA) (fids (seqs (range_wit 1000 1001)))
      {\<lparr>f_seq = 1000, f_oid = 1, f_ver = 0\<rparr>} client_wit1"
    "client_step client_wit1 {} {\<lparr>f_seq = 1000, f_oid = 2, f_ver = 0\<rparr>} client_wit2"
    using client_fid [OF client_fid_wit1] client_fid [OF client_fid_wit2] client_space_wit received_wit1 received_wit2
    by (simp_all add: fail_seq_exhaust_def answer_ok_def client_meta_wit fids_def)
  show "run client_step (seq_client_init client_wit False LUSTRE_SEQ_METADATA)
     [(fids (seqs (range_wit 1000 1001)), {\<lparr>f_seq = 1000, f_oid = 1, f_ver = 0\<rparr>}),
      ({}, {\<lparr>f_seq = 1000, f_oid = 2, f_ver = 0\<rparr>})] client_wit2"
    using s by (rule run_two)
qed simp

section \<open>Progress\<close>

text \<open>
  The reply of the controller is a range that ends above the last sequence on disk.
\<close>

definition good_reply :: "meta_env \<Rightarrow> lu_client_seq \<Rightarrow> bool" where
  "good_reply env cli = (case me_send env (seq_client_request cli SEQ_ALLOC_SUPER) of
     (rc, r) \<Rightarrow> rc = 0 \<and> lu_seq_range_is_sane r \<and> \<not> lu_seq_range_is_exhausted r \<and>
       (fst (me_last_seq env) = 0 \<longrightarrow> snd (me_last_seq env) + 1 < lsr_end r) \<and> me_pack env = 0 \<and> me_fld env \<ge> 0)"

lemma check_exhausted_good:
  assumes "good_reply env cli" and "lcs_exp cli" and "site_ctl site = None" and "site_cli site = Some cli"
    and "lu_seq_range_is_exhausted (space_of (site_srv site))" and "lss_set_width (srv_seq (site_srv site)) = 0"
  shows "\<exists>r. seq_server_check_and_alloc_super env site = Some (me_fld env, site\<lparr>site_cli := Some (cli\<lparr>lcs_space := r\<rparr>),
      site_ctl := None, site_srv := set_space r (site_srv site)\<rparr>) \<and> me_fld env \<ge> 0 \<and> (fst (me_last_seq env) = 0 \<longrightarrow> snd (me_last_seq env) + 1 < lsr_end r)"
proof -
  obtain r where r: "me_send env (seq_client_request cli SEQ_ALLOC_SUPER) = (0, r)" "lu_seq_range_is_sane r"
    "\<not> lu_seq_range_is_exhausted r" "fst (me_last_seq env) = 0 \<longrightarrow> snd (me_last_seq env) + 1 < lsr_end r" "me_pack env = 0"
    "me_fld env \<ge> 0"
    using assms(1) by (auto simp: good_reply_def split: prod.splits)
  then show ?thesis
    using assms(2-6)
    by (intro exI [of _ r]) (simp add: seq_server_check_and_alloc_super_def seq_client_alloc_super_def seq_client_rpc_def
        check_set_init_def Let_def)
qed

text \<open>
  C23: The restart loop of \<^verbatim>\<open>__seq_server_alloc_meta\<close> ends after at most one restart. On a node without water sets
  and without a controller of its own, where every reply is a range that ends above the last sequence on
  disk, two attempts are enough for the allocation to return.
\<close>

theorem seq_meta_restarts_once:
  assumes "lu_seq_range_is_sane (lss_space (srv_seq (site_srv site)))" and "lss_set_width (srv_seq (site_srv site)) = 0"
    and "site_ctl site = None" and "site_cli site = Some cli" and "lcs_exp cli"
    and "good_reply env1 cli" and "\<forall>r. good_reply env2 (cli\<lparr>lcs_space := r\<rparr>)"
  shows "\<exists>rc out' site'. seq_server_alloc_meta [env1, env2] out site = Some (Some (rc, out', site'))"
proof -
  have fin: "\<exists>x. alloc_meta_restart (env # envs) out s = Some (Some x)"
    if "good_reply env c" "lcs_exp c" "site_ctl s = None" "site_cli s = Some c"
      "lu_seq_range_is_exhausted (space_of (site_srv s))" "lss_set_width (srv_seq (site_srv s)) = 0" for env envs s c
    using check_exhausted_good [OF that] that(6) by (auto simp: Let_def split: prod.splits)
  have "\<exists>x. alloc_meta_restart [env1, env2] out site = Some (Some x)"
  proof (cases "lu_seq_range_is_exhausted (space_of (site_srv site))")
    case True
    then show ?thesis using fin [OF assms(6,5,3,4) True assms(2)] by simp
  next
    case False
    have c: "seq_server_check_and_alloc_super env1 site = Some (0, site)"
      using False assms(2) by (simp add: seq_server_check_and_alloc_super_def check_set_init_def)
    define s where "s = site\<lparr>site_srv := set_space ((space_of (site_srv site))\<lparr>lsr_start := lsr_end (space_of (site_srv site))\<rparr>)
      (site_srv site)\<rparr>"
    have "good_reply env2 (cli\<lparr>lcs_space := lcs_space cli\<rparr>)" using assms(7) by blast
    then have "\<exists>x. alloc_meta_restart [env2] out s = Some (Some x)"
      using assms(2-5) by (intro fin [where c = cli]) (simp_all add: s_def exhausted_iff)
    then show ?thesis using c assms(2) by (auto simp: Let_def s_def split: prod.splits)
  qed
  then show ?thesis using assms(1) by (auto simp: seq_server_alloc_meta_def seq_server_alloc_meta_locked_def)
qed

definition site_rpc_wit :: seq_site where
  "site_rpc_wit = (site_wit False)\<lparr>site_srv := set_space (range_wit 1000 2000) (site_srv (site_wit False)),
     site_cli := Some (client_wit\<lparr>lcs_exp := True\<rparr>), site_ctl := None\<rparr>"

definition reply_wit :: seq_send where
  "reply_wit req = (0, range_wit 7000 8000)"

text \<open>The last sequence on disk is above the space, so the first attempt restarts.\<close>

definition env_restart_wit :: meta_env where
  "env_restart_wit = (env_wit reply_wit res_ok)\<lparr>me_last_seq := (0, 5000)\<rparr>"

theorem seq_meta_restarts_once_witness:
  "seq_server_alloc_meta [env_restart_wit] lu_seq_range_init site_rpc_wit = Some None \<and>
   (\<exists>rc out' site'. seq_server_alloc_meta [env_restart_wit, env_restart_wit] lu_seq_range_init site_rpc_wit =
     Some (Some (rc, out', site')))"
proof (intro conjI seq_meta_restarts_once [where cli = "client_wit\<lparr>lcs_exp := True\<rparr>"])
  show "seq_server_alloc_meta [env_restart_wit] lu_seq_range_init site_rpc_wit = Some None" by code_simp
  show "lu_seq_range_is_sane (lss_space (srv_seq (site_srv site_rpc_wit)))" "lss_set_width (srv_seq (site_srv site_rpc_wit)) = 0"
    by code_simp+
qed (simp_all add: site_rpc_wit_def good_reply_def reply_wit_def env_restart_wit_def env_wit_def lu_seq_range_is_sane_def exhausted_iff range_wit_def)

section \<open>Faults\<close>

text \<open>
  C37: A range from the server that is not sane stops the client. \<^verbatim>\<open>seq_client_rpc\<close> copies the range into the space of the
  client before it checks it and returns \<^verbatim>\<open>-EINVAL\<close>; the next allocation finds it there and fails the
  assertion at the top of \<^verbatim>\<open>seq_client_alloc_seq\<close>.
\<close>

theorem seq_client_bad_reply_lbug:
  assumes "lu_seq_range_is_exhausted (lcs_space seq)" and "lcs_exp seq"
    and "send (seq_client_request seq SEQ_ALLOC_META) = (0, r)" and "\<not> lu_seq_range_is_sane r"
  shows "\<exists>seq'. seq_client_alloc_seq [(0, send)] envs seq None = Some (Some (- EINVAL, None, seq', None)) \<and>
    seq_client_alloc_seq tries envs seq' None = None"
proof (intro exI [of _ "seq\<lparr>lcs_space := r\<rparr>"] conjI)
  have "lu_seq_range_is_sane (lcs_space seq)" using assms(1) by (simp add: exhausted_iff lu_seq_range_is_sane_def)
  then show "seq_client_alloc_seq [(0, send)] envs seq None = Some (Some (- EINVAL, None, seq\<lparr>lcs_space := r\<rparr>, None))"
    using assms by (simp add: seq_client_alloc_seq_def seq_client_alloc_meta_def seq_client_rpc_def errno_defs)
  show "seq_client_alloc_seq tries envs (seq\<lparr>lcs_space := r\<rparr>) None = None"
    using assms(4) by (simp add: seq_client_alloc_seq_def)
qed

theorem seq_client_bad_reply_lbug_witness:
  "\<exists>seq'. seq_client_alloc_seq [(0, \<lambda>_. (0, range_wit 8 7))] [] (client_wit\<lparr>lcs_exp := True\<rparr>) None =
      Some (Some (- EINVAL, None, seq', None)) \<and> seq_client_alloc_seq [] [] seq' None = None"
  by (rule seq_client_bad_reply_lbug [where r = "range_wit 8 7"])
    (simp_all add: client_wit_def exhausted_iff seq_wit_defs lu_seq_range_is_sane_def)

text \<open>
  A reserved range that reaches past the space stops the controller. \<^verbatim>\<open>seq_server_alloc_spec\<close> checks the range against
  the start of the space only and moves the start to its end; the next allocation fails the
  assertion that the space is sane.
\<close>

theorem seq_alloc_spec_lbug:
  assumes "lsr_start (lss_space (srv_seq st)) \<le> lsr_start spec" and "lsr_start spec < lsr_end spec"
    and "lsr_flags spec = LU_SEQ_RANGE_MDT" and "lsr_end (lss_space (srv_seq st)) < lsr_end spec" and "store_ok res"
  shows "\<exists>st'. seq_server_alloc_spec res st spec = (0, st') \<and> seq_server_alloc_super res' st' out = None"
proof -
  let ?sp = "(space_of st)\<lparr>lsr_start := lsr_end spec\<rparr>"
  have lt: "\<not> lsr_end spec \<le> lsr_start spec" using assms(2) by (simp add: not_le)
  obtain rc st' where u: "seq_store_update res True True (set_space ?sp st) = (rc, st')" by fastforce
  have "rc = 0" using seq_store_update_ok(1) [OF u assms(5)] .
  moreover have "space_of st' = ?sp" using same_rangesD(1) [OF seq_store_update_same [OF u]] by simp
  then have "\<not> lu_seq_range_is_sane (space_of st')" using assms(4) by (simp add: lu_seq_range_is_sane_def)
  ultimately show ?thesis
    using u assms(1-3)
    by (intro exI [of _ st']) (simp add: seq_server_alloc_spec_def seq_server_alloc_super_def
        seq_server_alloc_super_locked_def Let_def lt)
qed

theorem seq_alloc_spec_lbug_witness:
  "\<exists>st'. seq_server_alloc_spec res_ok (ctl_wit (range_wit 1000 2000)) (range_wit 1500 2500) = (0, st') \<and>
     seq_server_alloc_super res_ok st' lu_seq_range_init = None"
  by (rule seq_alloc_spec_lbug)
    (simp_all add: ctl_wit_def seq_wit_defs LU_SEQ_RANGE_MDT_def store_ok_def)

lemma range_alloc_nonempty:
  assumes "range_alloc to from w = (to', from')" and "lu_seq_range_is_sane from" and "\<not> lu_seq_range_is_exhausted from" and "w \<noteq> 0"
  shows "lsr_start to' < lsr_end to'"
proof -
  have m: "min (lu_seq_range_space from) w \<noteq> 0"
    using assms(3,4) by (simp add: lu_seq_range_is_exhausted_def min_def)
  have "lsr_start to' \<le> lsr_end to'" using range_alloc_split(3,4,6) [OF assms(1,2)] by simp
  moreover have "lsr_end to' \<noteq> lsr_start to'" using assms(1) m by (auto simp: range_alloc_def Let_def)
  ultimately show ?thesis by simp
qed

text \<open>
  C36: Under the water sets a failed write gives a sequence away twice. The server starts from a record with
  sequences left; \<^verbatim>\<open>__seq_set_init\<close> fails to write, its status is dropped, and the allocation succeeds. After a crash
  the server starts from the same record and hands out the same range again, whatever range it is.
\<close>

theorem seq_meta_failed_write_twice:
  assumes "seq_server_init res 0 (whole_record (Some r)) LUSTRE_SEQ_SERVER node True (Some r) = Some (0, site_srv site)"
    and "\<not> lu_seq_range_is_exhausted r" and "\<not> sr_rdonly (me_init env)" and "sr_create (me_init env) \<noteq> 0" and "\<not> me_fail env"
  shows "\<exists>out' site1 srv' site2. seq_server_alloc_meta [env] out site = Some (Some (0, out', site1)) \<and>
    seq_server_init res 0 (whole_record (srv_disk (site_srv site1))) LUSTRE_SEQ_SERVER node True
      (srv_disk (site_srv site1)) = Some (0, srv') \<and>
    seq_server_alloc_meta [env] out (site1\<lparr>site_srv := srv'\<rparr>) = Some (Some (0, out', site2)) \<and> seqs out' \<noteq> {}"
proof -
  let ?st = "site_srv site" and ?w = LUSTRE_SEQ_BATCH_WIDTH
  note i = seq_server_init_Some [OF assms(1)]
  have srv: "?st = \<lparr>srv_seq = mgr_wit LUSTRE_SEQ_SERVER r 1 ?w, srv_disk = Some r, srv_journal = []\<rparr>"
    and sane: "lu_seq_range_is_sane r"
    using assms(1) by (auto simp: seq_server_init_def whole_record_def seq_store_read_def Let_def ENODATA_def mgr_wit_def
        LUSTRE_SEQ_META_WIDTH_def split: if_splits)
  have w: "lss_set_width (srv_seq ?st) = ?w" "lss_width (srv_seq ?st) = 1" "?w \<noteq> 0"
    by (simp_all add: srv mgr_wit_def LUSTRE_SEQ_BATCH_WIDTH_def LUSTRE_SEQ_META_WIDTH_def)
  obtain lo sp1 hi sp2 where r: "range_alloc lu_seq_range_init r ?w = (lo, sp1)"
    "range_alloc lu_seq_range_init sp1 ?w = (hi, sp2)" by (meson surj_pair)
  define s1 where "s1 = ?st\<lparr>srv_seq := (srv_seq ?st)\<lparr>lss_space := sp2, lss_lowater_set := lo, lss_hiwater_set := hi\<rparr>\<rparr>"
  have si: "seq_set_init_locked (me_init env) ?st = (sr_create (me_init env), s1)"
    using assms(3,4) r i w(1) by (simp add: seq_set_init_locked_def Let_def s1_def seq_store_update_def)
  have lo: "lsr_start lo < lsr_end lo" using range_alloc_nonempty [OF r(1) sane assms(2) w(3)] .
  then have lo': "lu_seq_range_is_sane lo" "\<not> lu_seq_range_is_exhausted lo" "\<not> lu_seq_range_is_zero lo"
    by (auto simp: lu_seq_range_is_sane_def exhausted_iff lu_seq_range_is_zero_def)
  obtain out' lo4 where t: "range_alloc out lo 1 = (out', lo4)" by fastforce
  define site1 where "site1 = site\<lparr>site_srv := s1\<lparr>srv_seq := (srv_seq s1)\<lparr>lss_lowater_set := lo4\<rparr>\<rparr>\<rparr>"
  have c: "seq_server_check_and_alloc_super env site = Some (0, site\<lparr>site_srv := s1\<rparr>)"
    using i assms(2) w si by (simp add: seq_server_check_and_alloc_super_def check_set_init_def lu_seq_range_is_zero_def
        lu_seq_range_init_def)
  have "range_alloc_set env out s1 = Some (0, out', s1\<lparr>srv_seq := (srv_seq s1)\<lparr>lss_lowater_set := lo4\<rparr>\<rparr>)"
    using lo' assms(5) t w(2) by (simp add: range_alloc_set_def Let_def s1_def)
  then have a: "seq_server_alloc_meta [env] out site = Some (Some (0, out', site1))"
    using c sane i(1) w by (simp add: seq_server_alloc_meta_def seq_server_alloc_meta_locked_def site1_def s1_def)
  have "seqs out' \<noteq> {}" using range_alloc_nonempty [OF t lo'(1,2)] by (auto simp: seqs_def lu_seq_range_within_def)
  moreover have "srv_disk (site_srv site1) = Some r" using i by (simp add: site1_def s1_def)
  moreover have "site1\<lparr>site_srv := ?st\<rparr> = site" by (simp add: site1_def)
  ultimately show ?thesis
    using a assms(1) by (intro exI [of _ out'] exI [of _ site1] exI [of _ ?st]) simp
qed

lemma srv_init_wit:
  "seq_server_init res_ok 0 (whole_record (Some (range_wit 1000 2000))) LUSTRE_SEQ_SERVER 0 True (Some (range_wit 1000 2000)) =
     Some (0, \<lparr>srv_seq = mgr_wit LUSTRE_SEQ_SERVER (range_wit 1000 2000) 1 1000, srv_disk = Some (range_wit 1000 2000),
       srv_journal = []\<rparr>)"
  by code_simp

definition site_full_wit :: seq_site where
  "site_full_wit = (site_wit True)\<lparr>site_srv := \<lparr>srv_seq = mgr_wit LUSTRE_SEQ_SERVER (range_wit 1000 2000) 1 1000,
     srv_disk = Some (range_wit 1000 2000), srv_journal = []\<rparr>\<rparr>"

theorem seq_meta_failed_write_twice_witness:
  "\<exists>out' site1 srv' site2.
    seq_server_alloc_meta [env_wit no_reply (res_ok\<lparr>sr_create := - ENOSPC\<rparr>)] lu_seq_range_init site_full_wit =
      Some (Some (0, out', site1)) \<and>
    seq_server_init res_ok 0 (whole_record (srv_disk (site_srv site1))) LUSTRE_SEQ_SERVER 0 True
      (srv_disk (site_srv site1)) = Some (0, srv') \<and>
    seq_server_alloc_meta [env_wit no_reply (res_ok\<lparr>sr_create := - ENOSPC\<rparr>)] lu_seq_range_init (site1\<lparr>site_srv := srv'\<rparr>) =
      Some (Some (0, out', site2)) \<and> seqs out' \<noteq> {}"
proof (rule seq_meta_failed_write_twice [where r = "range_wit 1000 2000"])
  show "seq_server_init res_ok 0 (whole_record (Some (range_wit 1000 2000))) LUSTRE_SEQ_SERVER 0 True
      (Some (range_wit 1000 2000)) = Some (0, site_srv site_full_wit)" by (simp add: srv_init_wit site_full_wit_def)
qed (simp_all add: env_wit_def res_ok_def ENOSPC_def exhausted_iff range_wit_def)

text \<open>
  A defect: a failed commit gives a super-sequence away twice. \<^verbatim>\<open>seq_store_update\<close> drops the status of \<^verbatim>\<open>dt_trans_stop\<close>, so the controller
  hands a range out with success when its record is not on disk. After a crash it starts from the old record and hands out
  the same range, whatever record it starts from.
\<close>

theorem seq_super_failed_stop_twice:
  assumes "seq_server_init res0 0 (whole_record (Some r)) LUSTRE_SEQ_CONTROLLER node batch (Some r) = Some (0, st)"
    and "\<not> lu_seq_range_is_exhausted r" and "store_ok (res\<lparr>sr_stop := 0\<rparr>)" and "sr_stop res \<noteq> 0"
  shows "\<exists>out' st1 st2 st3. seq_server_alloc_super res st out = Some (0, out', st1) \<and>
    seq_server_init res0 0 (whole_record (srv_disk st1)) LUSTRE_SEQ_CONTROLLER node batch (srv_disk st1) = Some (0, st2) \<and>
    seq_server_alloc_super res st2 out = Some (0, out', st3) \<and> seqs out' \<noteq> {}"
proof -
  note i = seq_server_init_Some [OF assms(1)]
  have sane: "lu_seq_range_is_sane r" and w: "lss_width (srv_seq st) \<noteq> 0"
    using assms(1) by (auto simp: seq_server_init_def whole_record_def seq_store_read_def Let_def ENODATA_def
        LUSTRE_SEQ_SUPER_WIDTH_def LUSTRE_SEQ_META_WIDTH_def split: if_splits)
  obtain out' sp where a: "range_alloc out r (lss_width (srv_seq st)) = (out', sp)" by fastforce
  obtain rc st1 where u: "seq_store_update res True True (set_space sp st) = (rc, st1)" by fastforce
  have u': "rc = 0" "srv_disk st1 = Some r"
    using u assms(3,4) i(2) by (auto simp: seq_store_update_def store_ok_def Let_def dt_trans_stop_def set_space_def)
  then have s: "seq_server_alloc_super res st out = Some (0, out', st1)"
    using a u i(1) sane assms(2) by (simp add: seq_server_alloc_super_def seq_server_alloc_super_locked_def)
  moreover have "lsr_start out' < lsr_end out'" using range_alloc_nonempty [OF a sane assms(2) w] .
  then have "seqs out' \<noteq> {}" by (auto simp: in_seqs)
  ultimately show ?thesis using u'(2) assms(1) by (intro exI [of _ out'] exI [of _ st1] exI [of _ st]) simp
qed

theorem seq_super_failed_stop_twice_witness:
  "\<exists>out' st1 st2 st3. seq_server_alloc_super (res_ok\<lparr>sr_stop := - EIO\<rparr>) (ctl_wit (range_wit 1000 9000000000)) lu_seq_range_init =
      Some (0, out', st1) \<and>
    seq_server_init res_ok 0 (whole_record (srv_disk st1)) LUSTRE_SEQ_CONTROLLER 0 False (srv_disk st1) = Some (0, st2) \<and>
    seq_server_alloc_super (res_ok\<lparr>sr_stop := - EIO\<rparr>) st2 lu_seq_range_init = Some (0, out', st3) \<and> seqs out' \<noteq> {}"
  by (rule seq_super_failed_stop_twice [OF ctl_init_wit [folded ctl_wit_def]])
    (simp_all add: exhausted_iff range_wit_def res_ok_def store_ok_def EIO_def)

end
