(* ===== verification/Ldlm_Mode.thy ===== *)
theory Ldlm_Mode
  imports Prelude
begin

text \<open>
  Lock modes of the distributed lock manager and their compatibility: \<^verbatim>\<open>enum ldlm_mode\<close>, the
  masks of \<^verbatim>\<open>lustre_dlm.h\<close> and the array \<^verbatim>\<open>lck_compat_array\<close> of \<^verbatim>\<open>ldlm_lib.c\<close>.
\<close>

type_synonym ldlm_mode = u32

definition LCK_MODE_MIN :: ldlm_mode where "LCK_MODE_MIN = 0"
definition LCK_EX :: ldlm_mode where "LCK_EX = 1"
definition LCK_PW :: ldlm_mode where "LCK_PW = 2"
definition LCK_PR :: ldlm_mode where "LCK_PR = 4"
definition LCK_CW :: ldlm_mode where "LCK_CW = 8"
definition LCK_CR :: ldlm_mode where "LCK_CR = 16"
definition LCK_NL :: ldlm_mode where "LCK_NL = 32"
definition LCK_GROUP :: ldlm_mode where "LCK_GROUP = 64"
definition LCK_COS :: ldlm_mode where "LCK_COS = 128"
definition LCK_TXN :: ldlm_mode where "LCK_TXN = 256"
definition LCK_MODE_END :: ldlm_mode where "LCK_MODE_END = 257"

lemmas lck_defs = LCK_MODE_MIN_def LCK_EX_def LCK_PW_def LCK_PR_def LCK_CW_def LCK_CR_def LCK_NL_def
  LCK_GROUP_def LCK_COS_def LCK_TXN_def LCK_MODE_END_def

definition LCK_COMPAT_EX :: u32 where "LCK_COMPAT_EX = LCK_NL"
definition LCK_COMPAT_PW :: u32 where "LCK_COMPAT_PW = LCK_COMPAT_EX OR LCK_CR"
definition LCK_COMPAT_PR :: u32 where "LCK_COMPAT_PR = LCK_COMPAT_PW OR LCK_PR OR LCK_TXN"
definition LCK_COMPAT_CW :: u32 where "LCK_COMPAT_CW = LCK_COMPAT_PW OR LCK_CW"
definition LCK_COMPAT_CR :: u32 where "LCK_COMPAT_CR = LCK_COMPAT_CW OR LCK_PR OR LCK_PW OR LCK_TXN"
definition LCK_COMPAT_NL :: u32 where "LCK_COMPAT_NL = LCK_COMPAT_CR OR LCK_EX OR LCK_GROUP OR LCK_COS"
definition LCK_COMPAT_GROUP :: u32 where "LCK_COMPAT_GROUP = LCK_NL OR LCK_GROUP"
definition LCK_COMPAT_COS :: u32 where "LCK_COMPAT_COS = LCK_NL OR LCK_COS"
definition LCK_COMPAT_TXN :: u32 where "LCK_COMPAT_TXN = LCK_COMPAT_PR"

text \<open>The entries that the initialiser does not name are 0.\<close>

definition lck_compat_array :: "ldlm_mode \<Rightarrow> u32" where
  "lck_compat_array m =
     (if m = LCK_EX then LCK_COMPAT_EX else if m = LCK_PW then LCK_COMPAT_PW
      else if m = LCK_PR then LCK_COMPAT_PR else if m = LCK_CW then LCK_COMPAT_CW
      else if m = LCK_CR then LCK_COMPAT_CR else if m = LCK_NL then LCK_COMPAT_NL
      else if m = LCK_GROUP then LCK_COMPAT_GROUP else if m = LCK_COS then LCK_COMPAT_COS
      else if m = LCK_TXN then LCK_COMPAT_TXN else 0)"

definition lockmode_verify :: "ldlm_mode \<Rightarrow> unit option" where
  "lockmode_verify mode = LASSERT (mode > LCK_MODE_MIN \<and> mode < LCK_MODE_END)"

definition lockmode_compat :: "ldlm_mode \<Rightarrow> ldlm_mode \<Rightarrow> bool" where
  "lockmode_compat exist_mode new_mode \<longleftrightarrow> lck_compat_array exist_mode AND new_mode \<noteq> 0"

lemmas compat_defs = LCK_COMPAT_EX_def LCK_COMPAT_PW_def LCK_COMPAT_PR_def LCK_COMPAT_CW_def LCK_COMPAT_CR_def
  LCK_COMPAT_NL_def LCK_COMPAT_GROUP_def LCK_COMPAT_COS_def LCK_COMPAT_TXN_def

section \<open>The matrix\<close>

definition all_modes :: "ldlm_mode list" where
  "all_modes = [LCK_NL, LCK_CR, LCK_CW, LCK_PR, LCK_PW, LCK_EX, LCK_GROUP, LCK_COS, LCK_TXN]"

text \<open>The table in the comment of \<^verbatim>\<open>lustre_dlm.h\<close>, one row and one column per mode in the order of \<^const>\<open>all_modes\<close>.\<close>

definition compat_matrix :: "nat list list" where
  "compat_matrix =
    [[1, 1, 1, 1, 1, 1, 1, 1, 1],
     [1, 1, 1, 1, 1, 0, 0, 0, 1],
     [1, 1, 1, 0, 0, 0, 0, 0, 0],
     [1, 1, 0, 1, 0, 0, 0, 0, 1],
     [1, 1, 0, 0, 0, 0, 0, 0, 0],
     [1, 0, 0, 0, 0, 0, 0, 0, 0],
     [1, 0, 0, 0, 0, 0, 1, 0, 0],
     [1, 0, 0, 0, 0, 0, 0, 1, 0],
     [1, 1, 0, 1, 0, 0, 0, 0, 1]]"

lemma compat_table: "map (\<lambda>a. map (\<lambda>b. if lockmode_compat a b then 1 else 0) all_modes) all_modes = compat_matrix"
  by code_simp

lemma compat_matrix_transpose: "\<forall>i < 9. \<forall>j < 9. compat_matrix ! i ! j = compat_matrix ! j ! i"
  by code_simp

lemma length_all_modes: "length all_modes = 9"
  by (simp add: all_modes_def)

lemma compat_nth:
  assumes "i < 9" and "j < 9"
  shows "lockmode_compat (all_modes ! i) (all_modes ! j) \<longleftrightarrow> compat_matrix ! i ! j = 1"
proof -
  have "compat_matrix ! i ! j = (if lockmode_compat (all_modes ! i) (all_modes ! j) then 1 else 0)"
    unfolding compat_table [symmetric] using assms length_all_modes by simp
  then show ?thesis by simp
qed

lemma all_modes_conv: "m \<in> set all_modes \<Longrightarrow> \<exists>i < 9. m = all_modes ! i"
  by (metis in_set_conv_nth length_all_modes)

lemma compat_sym:
  assumes "a \<in> set all_modes" and "b \<in> set all_modes"
  shows "lockmode_compat a b \<longleftrightarrow> lockmode_compat b a"
  using all_modes_conv [OF assms(1)] all_modes_conv [OF assms(2)] compat_matrix_transpose by (auto simp: compat_nth)

lemma compat_flock [simp]:
  "lockmode_compat LCK_PR LCK_PR" "\<not> lockmode_compat LCK_PW LCK_PW" "\<not> lockmode_compat LCK_PR LCK_PW"
  "\<not> lockmode_compat LCK_PW LCK_PR"
  by code_simp+

end
