(* ===== verification/Ldlm_Flock.thy ===== *)
theory Ldlm_Flock
  imports Ldlm_Mode
begin

text \<open>
  POSIX locks on the server and the client, \<^verbatim>\<open>lustre/ldlm/ldlm_flock.c\<close>: owners, overlaps, the search for deadlocks
  and the policy function \<^verbatim>\<open>ldlm_process_flock_lock\<close>, which grants, blocks, merges, trims and splits locks.
  A lock has an address; the granted queue and the interval tree of a resource hold the same locks and
  are one list. The iteration over the interval tree of the kernel is an argument. \<^term>\<open>None\<close> is a violated \<^verbatim>\<open>LASSERT\<close>
  or a search for a deadlock that did not end. Reference counts and reader and writer counts are left out.
\<close>

section \<open>Locks and resources\<close>

definition LDLM_FL_LOCK_CHANGED :: u64 where "LDLM_FL_LOCK_CHANGED = 0x1"
definition LDLM_FL_BLOCK_GRANTED :: u64 where "LDLM_FL_BLOCK_GRANTED = 0x2"
definition LDLM_FL_AST_SENT :: u64 where "LDLM_FL_AST_SENT = 0x20"
definition LDLM_FL_FLOCK_DEADLOCK :: u64 where "LDLM_FL_FLOCK_DEADLOCK = 0x8000"
definition LDLM_FL_BLOCK_NOWAIT :: u64 where "LDLM_FL_BLOCK_NOWAIT = 0x40000"
definition LDLM_FL_TEST_LOCK :: u64 where "LDLM_FL_TEST_LOCK = 0x80000"
definition LDLM_FL_CANCEL_ON_BLOCK :: u64 where "LDLM_FL_CANCEL_ON_BLOCK = 0x800000"
definition LDLM_FL_CBPENDING :: u64 where "LDLM_FL_CBPENDING = 0x400000000"
definition LDLM_FL_WAIT_NOREPROC :: u64 where "LDLM_FL_WAIT_NOREPROC = 0x800000000"
definition LDLM_FL_CP_REQD :: u64 where "LDLM_FL_CP_REQD = 0x80000000000"
definition LDLM_FL_LOCAL_ONLY :: u64 where "LDLM_FL_LOCAL_ONLY = 0x2000000000"

text \<open>
  The fields of \<^verbatim>\<open>struct ldlm_lock\<close> that the flock code uses. The fields \<open>fl_...\<close> are those of \<^verbatim>\<open>struct ldlm_flock\<close>, the policy
  data of the lock. \<open>l_exp_flock_hash\<close> tells whether the lock is in the hash of blocked locks of its export.
\<close>

record ldlm_lock =
  l_ptr :: nat
  l_export :: "nat option"
  l_req_mode :: ldlm_mode
  l_granted_mode :: ldlm_mode
  l_flags :: u64
  l_ast_data :: bool
  l_completion_ast :: bool
  l_exp_flock_hash :: bool
  fl_start :: u64
  fl_end :: u64
  fl_owner :: u64
  fl_blocking_owner :: u64
  fl_blocking_export :: "nat option"
  fl_pid :: u32

record ldlm_resource =
  lr_granted :: "ldlm_lock list"
  lr_waiting :: "ldlm_lock list"
  lfn_needs_reprocess :: bool
  lfn_unlock_pending :: nat

datatype ldlm_iter = LDLM_ITER_CONTINUE | LDLM_ITER_STOP

datatype ldlm_process_intention = LDLM_PROCESS_RESCAN | LDLM_PROCESS_ENQUEUE | LDLM_PROCESS_RECOVERY

definition flag_set :: "u64 \<Rightarrow> u64 \<Rightarrow> bool" where
  "flag_set flags f \<longleftrightarrow> flags AND f \<noteq> 0"

definition ldlm_is_granted :: "ldlm_lock \<Rightarrow> bool" where
  "ldlm_is_granted lock \<longleftrightarrow> l_req_mode lock = l_granted_mode lock"

definition ldlm_same_flock_owner :: "ldlm_lock \<Rightarrow> ldlm_lock \<Rightarrow> bool" where
  "ldlm_same_flock_owner lock new \<longleftrightarrow> fl_owner new = fl_owner lock \<and> l_export new = l_export lock"

definition ldlm_flocks_overlap :: "ldlm_lock \<Rightarrow> ldlm_lock \<Rightarrow> bool" where
  "ldlm_flocks_overlap lock new \<longleftrightarrow> fl_start new \<le> fl_end lock \<and> fl_end new \<ge> fl_start lock"

definition ldlm_flocks_are_equal :: "ldlm_lock \<Rightarrow> ldlm_lock \<Rightarrow> bool" where
  "ldlm_flocks_are_equal l1 l2 \<longleftrightarrow>
     ldlm_same_flock_owner l1 l2 \<and> fl_start l1 = fl_start l2 \<and> fl_end l1 = fl_end l2"

text \<open>
  Adding a lock to the hash calls \<^verbatim>\<open>ldlm_export_flock_get\<close>, which asserts that the blocking export is there. Deleting it
  calls \<^verbatim>\<open>ldlm_export_flock_put\<close>, whose last reference clears the blocking owner and export.
\<close>

definition ldlm_export_flock_get :: "ldlm_lock \<Rightarrow> ldlm_lock option" where
  "ldlm_export_flock_get lock = do { LASSERT (fl_blocking_export lock \<noteq> None); Some lock }"

definition ldlm_export_flock_put :: "ldlm_lock \<Rightarrow> ldlm_lock" where
  "ldlm_export_flock_put lock = lock\<lparr>fl_blocking_owner := 0, fl_blocking_export := None\<rparr>"

definition ldlm_flock_blocking_link :: "ldlm_lock \<Rightarrow> ldlm_lock \<Rightarrow> ldlm_lock option" where
  "ldlm_flock_blocking_link req lock =
     (if l_export req = None then Some req
      else do { LASSERT (\<not> l_exp_flock_hash req);
                ldlm_export_flock_get (req\<lparr>fl_blocking_owner := fl_owner lock, fl_blocking_export := l_export lock,
                          l_exp_flock_hash := True\<rparr>) })"

definition ldlm_flock_blocking_unlink :: "ldlm_lock \<Rightarrow> ldlm_lock" where
  "ldlm_flock_blocking_unlink req = 
     (if l_export req = None then req
      else if l_exp_flock_hash req then ldlm_export_flock_put (req\<lparr>l_exp_flock_hash := False\<rparr>)
      else req)"

definition find_lock :: "nat \<Rightarrow> ldlm_lock list \<Rightarrow> ldlm_lock option" where
  "find_lock p locks = find (\<lambda>l. l_ptr l = p) locks"

definition update_lock :: "nat \<Rightarrow> (ldlm_lock \<Rightarrow> ldlm_lock) \<Rightarrow> ldlm_lock list \<Rightarrow> ldlm_lock list" where
  "update_lock p f locks = map (\<lambda>l. if l_ptr l = p then f l else l) locks"

definition remove_lock :: "nat \<Rightarrow> ldlm_lock list \<Rightarrow> ldlm_lock list" where
  "remove_lock p locks = filter (\<lambda>l. l_ptr l \<noteq> p) locks"

definition ldlm_flock_unlink_lock :: "ldlm_lock \<Rightarrow> ldlm_resource \<Rightarrow> ldlm_resource" where
  "ldlm_flock_unlink_lock lock res = res\<lparr>lr_granted := remove_lock (l_ptr lock) (lr_granted res)\<rparr>"

text \<open>\<^verbatim>\<open>ldlm_resource_unlink_lock\<close> takes a lock off the tree and off its queue.\<close>

definition ldlm_resource_unlink_lock :: "ldlm_lock \<Rightarrow> ldlm_resource \<Rightarrow> ldlm_resource" where
  "ldlm_resource_unlink_lock lock res =
     (ldlm_flock_unlink_lock lock res)\<lparr>lr_waiting := remove_lock (l_ptr lock) (lr_waiting res)\<rparr>"

definition ldlm_flock_destroy :: "ldlm_lock \<Rightarrow> u64 \<Rightarrow> ldlm_resource \<Rightarrow> (ldlm_lock \<times> ldlm_resource) option" where
  "ldlm_flock_destroy lock flags res =
     do { LASSERT (\<not> l_exp_flock_hash lock);
          let lock' = (if flags = LDLM_FL_WAIT_NOREPROC
                       then lock\<lparr>l_flags := l_flags lock OR LDLM_FL_LOCAL_ONLY OR LDLM_FL_CBPENDING\<rparr> else lock);
          Some (lock', ldlm_resource_unlink_lock lock res) }"

text \<open>A lock goes to the end of a queue and must not be on one; an unlock never waits.\<close>

definition ldlm_resource_add_waiting :: "ldlm_lock \<Rightarrow> ldlm_resource \<Rightarrow> ldlm_resource option" where
  "ldlm_resource_add_waiting lock res =
     do { LASSERT (find_lock (l_ptr lock) (lr_granted res) = None \<and> find_lock (l_ptr lock) (lr_waiting res) = None);
          LASSERT (l_req_mode lock \<noteq> LCK_NL);
          Some (res\<lparr>lr_waiting := lr_waiting res @ [lock]\<rparr>) }"

definition ldlm_resource_add_granted :: "ldlm_lock \<Rightarrow> ldlm_resource \<Rightarrow> ldlm_resource option" where
  "ldlm_resource_add_granted lock res =
     do { LASSERT (find_lock (l_ptr lock) (lr_granted res) = None \<and> find_lock (l_ptr lock) (lr_waiting res) = None);
          Some (res\<lparr>lr_granted := lr_granted res @ [lock]\<rparr>) }"

text \<open>The completion callback of a lock is queued once, at the head of the list.\<close>

definition ldlm_add_cp_work_item :: "ldlm_lock \<Rightarrow> nat list \<Rightarrow> ldlm_lock \<times> nat list" where
  "ldlm_add_cp_work_item lock work_list =
     (if flag_set (l_flags lock) LDLM_FL_CP_REQD then (lock, work_list)
      else (lock\<lparr>l_flags := l_flags lock OR LDLM_FL_CP_REQD\<rparr>, l_ptr lock # work_list))"

definition ldlm_flock_add_lock :: "ldlm_lock \<Rightarrow> ldlm_resource \<Rightarrow> ldlm_resource option" where
  "ldlm_flock_add_lock lock res =
     do { LASSERT (ldlm_is_granted lock);
          LASSERT (find_lock (l_ptr lock) (lr_granted res) = None);
          ldlm_resource_add_granted lock res }"

definition ldlm_flock_range_update :: "nat \<Rightarrow> u64 \<Rightarrow> u64 \<Rightarrow> ldlm_resource \<Rightarrow> ldlm_resource option" where
  "ldlm_flock_range_update p start end' res =
     do { LASSERT (find_lock p (lr_granted res) \<noteq> None);
          Some (res\<lparr>lr_granted := update_lock p (\<lambda>l. l\<lparr>fl_start := start, fl_end := end'\<rparr>) (lr_granted res)\<rparr>) }"

section \<open>Deadlocks\<close>

text \<open>
  The exports of the server: their network identifiers, the exports with a given identifier in the order in
  which \<^verbatim>\<open>obd_nid_export_for_each\<close> visits them, which of them failed and which have a hash of blocked locks. \<open>fw_blocked\<close>
  are the locks in the hashes, with the lock that blocks each of them.
\<close>

record flock_world =
  fw_nid :: "nat \<Rightarrow> nat"
  fw_exports :: "nat \<Rightarrow> nat list"
  fw_failed :: "nat \<Rightarrow> bool"
  fw_has_hash :: "nat \<Rightarrow> bool"
  fw_blocked :: "ldlm_lock list"

definition ldlm_flock_lookup_cb :: "flock_world \<Rightarrow> u64 \<Rightarrow> nat \<Rightarrow> ldlm_lock option" where
  "ldlm_flock_lookup_cb w bl_owner exp =
     (if fw_failed w exp then None
      else find (\<lambda>l. l_export l = Some exp \<and> fl_owner l = bl_owner) (fw_blocked w))"

fun flock_lookup_exports :: "flock_world \<Rightarrow> u64 \<Rightarrow> nat list \<Rightarrow> ldlm_lock option" where
  "flock_lookup_exports w bl_owner [] = None"
| "flock_lookup_exports w bl_owner (exp # exps) =
     (case ldlm_flock_lookup_cb w bl_owner exp of None \<Rightarrow> flock_lookup_exports w bl_owner exps | Some l \<Rightarrow> Some l)"

text \<open>One turn of the loop per unit of fuel. A blocking export that is not there stops the server.\<close>

fun flock_deadlock_loop :: "nat \<Rightarrow> flock_world \<Rightarrow> ldlm_lock \<Rightarrow> nat \<Rightarrow> nat \<Rightarrow> u64 \<Rightarrow> bool option" where
  "flock_deadlock_loop 0 w req req_exp bl_exp bl_owner = None"
| "flock_deadlock_loop (Suc fuel) w req req_exp bl_exp bl_owner =
     (let nid = fw_nid w bl_exp in
      case (if fw_has_hash w bl_exp then flock_lookup_exports w bl_owner (fw_exports w nid) else None) of
        None \<Rightarrow> Some False
      | Some lock \<Rightarrow>
          (case fl_blocking_export lock of
             None \<Rightarrow> None
           | Some bl_exp' \<Rightarrow>
               let bl_owner' = fl_blocking_owner lock in
               if l_ptr req = l_ptr lock then Some True
               else if fw_failed w bl_exp' then Some False
               else if bl_owner' = fl_owner req \<and> nid = fw_nid w req_exp then Some True
               else flock_deadlock_loop fuel w req req_exp bl_exp' bl_owner'))"

definition ldlm_flock_deadlock :: "nat \<Rightarrow> flock_world \<Rightarrow> ldlm_lock \<Rightarrow> ldlm_lock \<Rightarrow> bool option" where
  "ldlm_flock_deadlock fuel w req bl_lock =
     (case l_export req of None \<Rightarrow> Some False
      | Some req_exp \<Rightarrow>
          (case l_export bl_lock of None \<Rightarrow> None
           | Some bl_exp \<Rightarrow> flock_deadlock_loop fuel w req req_exp bl_exp (fl_owner bl_lock)))"

section \<open>The policy function\<close>

text \<open>
  \<open>fe_iter\<close> is the iteration over the tree; \<open>fe_create\<close> is the result of \<^verbatim>\<open>ldlm_lock_create\<close>, an error or the address of the new
  lock; \<open>fe_relock\<close> is what other threads do to the resource while its lock is dropped; \<open>fe_flock_dead\<close> tells whether the
  client knows \<^verbatim>\<open>OBD_CONNECT_FLOCK_DEAD\<close>; \<open>fe_world\<close> has the blocked locks of the other resources.
\<close>

record flock_env =
  fe_iter :: "ldlm_lock list \<Rightarrow> u64 \<Rightarrow> u64 \<Rightarrow> ldlm_lock list"
  fe_create :: "int + nat"
  fe_relock :: "ldlm_resource \<Rightarrow> ldlm_resource"
  fe_flock_dead :: bool
  fe_world :: flock_world
  fe_fuel :: nat

text \<open>
  The request in progress. \<open>fs_work\<close> is the list of completion callbacks to send, by address of the lock.
\<close>

record flock_state =
  fs_res :: ldlm_resource
  fs_req :: ldlm_lock
  fs_flags :: u64
  fs_err :: int
  fs_work :: "nat list"

definition flock_widen :: "u64 \<Rightarrow> ldlm_mode \<Rightarrow> u64 \<times> u64 \<Rightarrow> u64 \<times> u64" where
  "flock_widen flags mode se =
     (if \<not> flag_set flags LDLM_FL_TEST_LOCK \<and> mode \<noteq> LCK_NL
      then (if fst se > 0 then fst se - 1 else fst se, if snd se < OBD_OBJECT_EOF then snd se + 1 else snd se)
      else se)"

subsection \<open>Conflicts\<close>

fun find_waiting :: "ldlm_lock \<Rightarrow> ldlm_lock list \<Rightarrow> ldlm_lock option option" where
  "find_waiting req [] = Some None"
| "find_waiting req (lock # locks) =
     do { LASSERT (l_req_mode lock \<noteq> LCK_NL);
          if ldlm_flocks_are_equal req lock then Some (Some lock) else find_waiting req locks }"

text \<open>An unlock of exactly the range of a waiting lock of the same owner cancels that lock.\<close>

definition flock_cancel_waiting :: "flock_env \<Rightarrow> flock_state \<Rightarrow> flock_state option" where
  "flock_cancel_waiting env st =
     do { found \<leftarrow> find_waiting (fs_req st) (lr_waiting (fs_res st));
          case found of None \<Rightarrow> Some st
          | Some lock \<Rightarrow> do {
              LASSERT (l_granted_mode lock = LCK_MODE_MIN);
              Some (st\<lparr>fs_res := fe_relock env (ldlm_resource_unlink_lock lock (fs_res st)),
                       fs_work := snd (ldlm_add_cp_work_item lock []) @ fs_work st\<rparr>) } }"

text \<open>The own locks in the widened range, and the first lock of another owner that conflicts.\<close>

fun flock_scan :: "ldlm_lock \<Rightarrow> ldlm_mode \<Rightarrow> nat list \<Rightarrow> ldlm_lock list \<Rightarrow> ldlm_lock + nat list" where
  "flock_scan req mode own [] = Inr own"
| "flock_scan req mode own (lock # locks) =
     (if ldlm_same_flock_owner lock req then flock_scan req mode (own @ [l_ptr lock]) locks
      else if \<not> ldlm_flocks_overlap lock req then flock_scan req mode own locks
      else if lockmode_compat (l_granted_mode lock) mode then flock_scan req mode own locks
      else Inl lock)"

definition ldlm_flock_cancel_on_deadlock :: "bool \<Rightarrow> flock_state \<Rightarrow> flock_state option" where
  "ldlm_flock_cancel_on_deadlock flock_dead st =
     (if \<not> flock_dead then Some st
      else do {
        LASSERT (l_completion_ast (fs_req st));
        LASSERT (\<not> flag_set (l_flags (fs_req st)) LDLM_FL_AST_SENT);
        let lock = ldlm_flock_blocking_unlink ((fs_req st)\<lparr>l_flags := l_flags (fs_req st) OR LDLM_FL_AST_SENT OR
              LDLM_FL_CANCEL_ON_BLOCK OR LDLM_FL_FLOCK_DEADLOCK\<rparr>);
        let (lock', work) = ldlm_add_cp_work_item lock (fs_work st);
        Some (st\<lparr>fs_req := lock', fs_res := ldlm_resource_unlink_lock lock (fs_res st), fs_work := work\<rparr>) })"

text \<open>The blocked locks that the search sees: those of other resources, of this resource, and the request.\<close>

definition flock_world_of :: "flock_env \<Rightarrow> flock_state \<Rightarrow> flock_world" where
  "flock_world_of env st = (fe_world env)\<lparr>fw_blocked := fw_blocked (fe_world env) @
     filter (\<lambda>l. l_exp_flock_hash l \<and> l_ptr l \<noteq> l_ptr (fs_req st)) (lr_waiting (fs_res st)) @
     filter l_exp_flock_hash [fs_req st]\<rparr>"

definition put_waiting :: "ldlm_lock \<Rightarrow> ldlm_resource \<Rightarrow> ldlm_resource" where
  "put_waiting req res = res\<lparr>lr_waiting := update_lock (l_ptr req) (\<lambda>_. req) (lr_waiting res)\<rparr>"

definition flock_conflict ::
  "flock_env \<Rightarrow> ldlm_process_intention \<Rightarrow> ldlm_lock \<Rightarrow> flock_state \<Rightarrow> (ldlm_iter \<times> flock_state) option" where
  "flock_conflict env intention lock st =
     (let req = fs_req st; flags = fs_flags st in
      if intention \<noteq> LDLM_PROCESS_ENQUEUE then do {
        req1 \<leftarrow> ldlm_flock_blocking_link (ldlm_flock_blocking_unlink req) lock;
        let st1 = st\<lparr>fs_req := req1, fs_res := put_waiting req1 (fs_res st)\<rparr>;
        dead \<leftarrow> ldlm_flock_deadlock (fe_fuel env) (flock_world_of env st1) req1 lock;
        st2 \<leftarrow> (if dead then ldlm_flock_cancel_on_deadlock (fe_flock_dead env) st1 else Some st1);
        Some (LDLM_ITER_CONTINUE, st2) }
      else if flag_set flags LDLM_FL_BLOCK_NOWAIT then do {
        (req', res') \<leftarrow> ldlm_flock_destroy req flags (fs_res st);
        Some (LDLM_ITER_STOP, st\<lparr>fs_req := req', fs_res := res', fs_err := - EAGAIN\<rparr>) }
      else if flag_set flags LDLM_FL_TEST_LOCK then do {
        (req', res') \<leftarrow> ldlm_flock_destroy req flags (fs_res st);
        Some (LDLM_ITER_STOP, st\<lparr>fs_req := req'\<lparr>l_req_mode := l_granted_mode lock, fl_pid := fl_pid lock,
                fl_start := fl_start lock, fl_end := fl_end lock\<rparr>,
              fs_res := res', fs_flags := flags OR LDLM_FL_LOCK_CHANGED\<rparr>) }
      else do {
        req1 \<leftarrow> ldlm_flock_blocking_link req lock;
        dead \<leftarrow> ldlm_flock_deadlock (fe_fuel env) (flock_world_of env (st\<lparr>fs_req := req1\<rparr>)) req1 lock;
        if dead then do {
          (req', res') \<leftarrow> ldlm_flock_destroy (ldlm_flock_blocking_unlink req1) flags (fs_res st);
          Some (LDLM_ITER_STOP, st\<lparr>fs_req := req', fs_res := res', fs_err := - EDEADLK\<rparr>) }
        else do {
          res' \<leftarrow> ldlm_resource_add_waiting req1 (fs_res st);
          Some (LDLM_ITER_STOP, st\<lparr>fs_req := req1, fs_res := res',
                  fs_flags := flags OR LDLM_FL_BLOCK_GRANTED\<rparr>) } })"

subsection \<open>Own locks\<close>

text \<open>
  The variables of the loop over the locks of the same owner. \<open>os_new\<close> is the pointer \<^verbatim>\<open>new\<close>: the request, or a granted
  lock that took its place.
\<close>

record own_state =
  os_st :: flock_state
  os_new :: "nat option"
  os_added :: bool
  os_new2 :: "ldlm_lock option"
  os_splitted :: bool

definition os_res :: "own_state \<Rightarrow> ldlm_resource" where
  "os_res os = fs_res (os_st os)"

definition set_res :: "ldlm_resource \<Rightarrow> own_state \<Rightarrow> own_state" where
  "set_res res os = os\<lparr>os_st := (os_st os)\<lparr>fs_res := res\<rparr>\<rparr>"

definition get_new :: "own_state \<Rightarrow> ldlm_lock option" where
  "get_new os = (case os_new os of None \<Rightarrow> Some (fs_req (os_st os)) | Some p \<Rightarrow> find_lock p (lr_granted (os_res os)))"

text \<open>The same mode: the lock and the new lock both get the union of their ranges, and one of them stays.\<close>

definition own_merge :: "ldlm_lock \<Rightarrow> ldlm_lock \<Rightarrow> own_state \<Rightarrow> own_state option" where
  "own_merge lock new os =
     do { let s = (if fl_start new < fl_start lock then fl_start new else fl_start lock);
          let e = (if fl_end new > fl_end lock then fl_end new else fl_end lock);
          let st = (if os_new os = None
                    then (os_st os)\<lparr>fs_req := (fs_req (os_st os))\<lparr>fl_start := s, fl_end := e\<rparr>\<rparr> else os_st os);
          if os_added os then do {
            (lock', res) \<leftarrow> ldlm_flock_destroy (lock\<lparr>fl_start := s, fl_end := e\<rparr>) (fs_flags st) (fs_res st);
            p \<leftarrow> os_new os;
            res' \<leftarrow> ldlm_flock_range_update p s e res;
            Some (os\<lparr>os_st := st\<lparr>fs_res := res'\<rparr>\<rparr>) }
          else do {
            res' \<leftarrow> ldlm_flock_range_update (l_ptr lock) s e (fs_res st);
            Some (os\<lparr>os_st := st\<lparr>fs_res := res'\<rparr>, os_new := Some (l_ptr lock), os_added := True\<rparr>) } }"

text \<open>Another mode: the lock loses the range of the new lock. A split puts the left part into \<open>new2\<close>.\<close>

definition own_split :: "ldlm_lock \<Rightarrow> ldlm_lock \<Rightarrow> ldlm_lock \<Rightarrow> own_state \<Rightarrow> own_state option" where
  "own_split lock new new2 os =
     do { let n2 = new2\<lparr>l_granted_mode := l_granted_mode lock, fl_pid := fl_pid new, fl_owner := fl_owner new,
                        fl_start := fl_start lock, fl_end := fl_start new - 1, l_export := l_export lock\<rparr>;
          res \<leftarrow> ldlm_flock_range_update (l_ptr lock) (fl_end new + 1) (fl_end lock) (os_res os);
          res' \<leftarrow> ldlm_flock_add_lock n2 res;
          Some ((set_res res' os)\<lparr>os_new2 := Some n2, os_splitted := True\<rparr>) }"

definition own_trim :: "ldlm_lock \<Rightarrow> ldlm_lock \<Rightarrow> own_state \<Rightarrow> own_state option" where
  "own_trim lock new os =
     (if fl_start new \<le> fl_start lock
      then if fl_end new < fl_end lock
        then do { res \<leftarrow> ldlm_flock_range_update (l_ptr lock) (fl_end new + 1) (fl_end lock) (os_res os);
                  Some (set_res res os) }
        else do { (lock', res) \<leftarrow> ldlm_flock_destroy lock (fs_flags (os_st os)) (os_res os);
                  Some (set_res res os) }
      else do { res \<leftarrow> ldlm_flock_range_update (l_ptr lock) (fl_start lock) (fl_start new - 1) (os_res os);
                Some (set_res res os) })"

text \<open>The loop ends, or it found a lock to split while \<open>new2\<close> is not there yet and reports the mode of that lock.\<close>

datatype own_result = Own_Done own_state | Own_Restart own_state ldlm_mode

fun flock_own_loop :: "ldlm_mode \<Rightarrow> nat list \<Rightarrow> own_state \<Rightarrow> own_result option" where
  "flock_own_loop mode [] os = Some (Own_Done os)"
| "flock_own_loop mode (p # own) os =
     do { lock \<leftarrow> find_lock p (lr_granted (os_res os));
          new \<leftarrow> get_new os;
          if fs_flags (os_st os) = LDLM_FL_WAIT_NOREPROC \<and> l_ast_data lock then flock_own_loop mode own os
          else if l_granted_mode lock = mode
          then do { os' \<leftarrow> own_merge lock new os; flock_own_loop mode own os' }
          else if \<not> ldlm_flocks_overlap lock new then flock_own_loop mode own os
          else do {
            let os1 = set_res ((os_res os)\<lparr>lfn_needs_reprocess := True\<rparr>) os;
            if fl_start new \<le> fl_start lock \<or> fl_end new \<ge> fl_end lock
            then do { os' \<leftarrow> own_trim lock new os1; flock_own_loop mode own os' }
            else case os_new2 os1 of
              None \<Rightarrow> Some (Own_Restart os1 (l_granted_mode lock))
            | Some new2 \<Rightarrow> map_option Own_Done (own_split lock new new2 os1) } }"

subsection \<open>Granting\<close>

text \<open>The end of the function up to the point where an unlock reprocesses the queue.\<close>

definition flock_grant :: "ldlm_process_intention \<Rightarrow> own_state \<Rightarrow> own_state option" where
  "flock_grant intention os =
     do { let st = os_st os;
          let req = (fs_req st)\<lparr>l_granted_mode := l_req_mode (fs_req st)\<rparr>;
          let st1 = st\<lparr>fs_req := req\<rparr>;
          st2 \<leftarrow> (if \<not> os_added os
                  then do { res \<leftarrow> ldlm_flock_add_lock req
                              ((fs_res st1)\<lparr>lr_waiting := remove_lock (l_ptr req) (lr_waiting (fs_res st1))\<rparr>);
                            Some (st1\<lparr>fs_res := res\<rparr>) }
                  else Some st1);
          if fs_flags st2 \<noteq> LDLM_FL_WAIT_NOREPROC \<and> intention \<noteq> LDLM_PROCESS_ENQUEUE
          then do { LASSERT (l_completion_ast req);
                    let (req', work) = ldlm_add_cp_work_item req (fs_work st2);
                    Some (os\<lparr>os_st := st2\<lparr>fs_req := req', fs_work := work,
                      fs_res := (fs_res st2)\<lparr>lr_granted :=
                        update_lock (l_ptr req) (\<lambda>l. l\<lparr>l_flags := l_flags req'\<rparr>) (lr_granted (fs_res st2))\<rparr>\<rparr>\<rparr>) }
          else Some (os\<lparr>os_st := st2\<rparr>) }"

definition flock_finish :: "own_state \<Rightarrow> (ldlm_iter \<times> flock_state) option" where
  "flock_finish os =
     (if os_added os
      then do { (req, res) \<leftarrow> ldlm_flock_destroy (fs_req (os_st os)) (fs_flags (os_st os)) (fs_res (os_st os));
                Some (LDLM_ITER_CONTINUE, (os_st os)\<lparr>fs_req := req, fs_res := res\<rparr>) }
      else Some (LDLM_ITER_CONTINUE, os_st os))"

text \<open>The code between the label \<^verbatim>\<open>reprocess\<close> and the loop over the own locks, and that loop.\<close>

datatype pass_result = Pass_Return ldlm_iter flock_state | Pass_Own own_result

definition flock_pass ::
  "flock_env \<Rightarrow> ldlm_process_intention \<Rightarrow> ldlm_mode \<Rightarrow> u64 \<times> u64 \<Rightarrow> ldlm_lock option \<Rightarrow> bool \<Rightarrow> flock_state
     \<Rightarrow> pass_result option" where
  "flock_pass env intention mode se new2 added st0 =
     do { let flags = fs_flags st0;
          st \<leftarrow> (if flags \<noteq> LDLM_FL_WAIT_NOREPROC \<and> mode = LCK_NL then flock_cancel_waiting env st0 else Some st0);
          let locks = fe_iter env (lr_granted (fs_res st)) (fst se) (snd se);
          scan \<leftarrow> (if flags = LDLM_FL_WAIT_NOREPROC \<or> mode = LCK_NL
                   then Some (Inr (map l_ptr (filter (\<lambda>l. ldlm_same_flock_owner l (fs_req st)) locks)))
                   else do { lockmode_verify mode; Some (flock_scan (fs_req st) mode [] locks) });
          case scan of
            Inl lock \<Rightarrow> map_option (\<lambda>(it, s). Pass_Return it s) (flock_conflict env intention lock st)
          | Inr own \<Rightarrow>
              if flag_set flags LDLM_FL_TEST_LOCK then do {
                (req', res') \<leftarrow> ldlm_flock_destroy (fs_req st) flags (fs_res st);
                Some (Pass_Return LDLM_ITER_STOP (st\<lparr>fs_req := req'\<lparr>l_req_mode := LCK_NL\<rparr>, fs_res := res',
                        fs_flags := flags OR LDLM_FL_LOCK_CHANGED\<rparr>)) }
              else map_option Pass_Own (flock_own_loop mode own
                     \<lparr>os_st = st\<lparr>fs_req := ldlm_flock_blocking_unlink (fs_req st)\<rparr>, os_new = None,
                      os_added = added, os_new2 = new2, os_splitted = False\<rparr>) }"

definition fresh_lock :: "nat \<Rightarrow> ldlm_mode \<Rightarrow> ldlm_lock" where
  "fresh_lock p mode = \<lparr>l_ptr = p, l_export = None, l_req_mode = mode, l_granted_mode = LCK_MODE_MIN, l_flags = 0,
     l_ast_data = False, l_completion_ast = False, l_exp_flock_hash = False, fl_start = 0, fl_end = 0, fl_owner = 0,
     fl_blocking_owner = 0, fl_blocking_export = None, fl_pid = 0\<rparr>"

text \<open>
  The function up to the end of the loop: one pass, or two passes when a lock has to be split. The range of the second
  pass starts from that of the first one.
\<close>

definition flock_passes ::
  "flock_env \<Rightarrow> ldlm_process_intention \<Rightarrow> flock_state \<Rightarrow> pass_result option" where
  "flock_passes env intention st =
     do { let mode = l_req_mode (fs_req st);
          let st0 = st\<lparr>fs_err := 0\<rparr>;
          let se1 = flock_widen (fs_flags st) mode (fl_start (fs_req st), fl_end (fs_req st));
          r \<leftarrow> flock_pass env intention mode se1 None (mode = LCK_NL) st0;
          case r of
            Pass_Own (Own_Restart os lock_mode) \<Rightarrow> do {
              let st1 = (os_st os)\<lparr>fs_res := fe_relock env (os_res os)\<rparr>;
              case fe_create env of
                Inl e \<Rightarrow> do {
                  (req', res') \<leftarrow> ldlm_flock_destroy (fs_req st1) (fs_flags st1) (fs_res st1);
                  Some (Pass_Return LDLM_ITER_STOP (st1\<lparr>fs_req := req', fs_res := res', fs_err := e\<rparr>)) }
              | Inr p \<Rightarrow>
                  flock_pass env intention mode (flock_widen (fs_flags st1) mode se1) (Some (fresh_lock p lock_mode))
                    (os_added os) st1 }
          | _ \<Rightarrow> Some r }"

definition flock_process_once :: "flock_env \<Rightarrow> ldlm_process_intention \<Rightarrow> flock_state \<Rightarrow> (ldlm_iter \<times> flock_state) option" where
  "flock_process_once env intention st =
     do { r \<leftarrow> flock_passes env intention st;
          case r of
            Pass_Return it s \<Rightarrow> Some (it, s)
          | Pass_Own (Own_Done os) \<Rightarrow> do { os' \<leftarrow> flock_grant intention os; flock_finish os' }
          | Pass_Own (Own_Restart os m) \<Rightarrow> None }"

text \<open>
  \<^verbatim>\<open>ldlm_reprocess_queue\<close> on the waiting locks of a flock resource: each lock that waits is processed again with
  empty flags.
\<close>

fun ldlm_reprocess_queue ::
  "flock_env \<Rightarrow> ldlm_process_intention \<Rightarrow> nat list \<Rightarrow> ldlm_resource \<times> nat list \<Rightarrow> (ldlm_resource \<times> nat list) option" where
  "ldlm_reprocess_queue env intention [] rw = Some rw"
| "ldlm_reprocess_queue env intention (p # ps) rw =
     do { LASSERT (intention = LDLM_PROCESS_RESCAN \<or> intention = LDLM_PROCESS_RECOVERY);
          pending \<leftarrow> find_lock p (lr_waiting (fst rw));
          (it, st) \<leftarrow> flock_process_once env intention
             \<lparr>fs_res = fst rw, fs_req = pending, fs_flags = 0, fs_err = 0, fs_work = []\<rparr>;
          let rw' = (fs_res st, fs_work st @ snd rw);
          if it \<noteq> LDLM_ITER_CONTINUE \<and> intention = LDLM_PROCESS_RESCAN then Some rw'
          else ldlm_reprocess_queue env intention ps rw' }"

text \<open>
  The reprocessing at the end of an unlock. \<open>ast\<close> are the results of \<^verbatim>\<open>ldlm_run_ast_work\<close>: \<^const>\<open>True\<close> for
  \<^verbatim>\<open>-ERESTART\<close>, which starts again.
\<close>

fun flock_unlock_reprocess :: "flock_env \<Rightarrow> bool list \<Rightarrow> own_state \<Rightarrow> own_state option" where
  "flock_unlock_reprocess env ast os =
     (let res = os_res os in
      if l_req_mode (fs_req (os_st os)) = LCK_NL \<and> lfn_needs_reprocess res \<and> lfn_unlock_pending res = 0
      then do {
        (res', work) \<leftarrow> ldlm_reprocess_queue env LDLM_PROCESS_RESCAN (map l_ptr (lr_waiting res)) (res, []);
        let os' = os\<lparr>os_st := (os_st os)\<lparr>fs_res := fe_relock env (res'\<lparr>lfn_needs_reprocess := False\<rparr>),
                                          fs_work := work @ fs_work (os_st os)\<rparr>\<rparr>;
        case ast of
          True # rest \<Rightarrow> flock_unlock_reprocess env rest (set_res ((os_res os')\<lparr>lfn_needs_reprocess := True\<rparr>) os')
        | _ \<Rightarrow> Some os' }
      else Some os)"

definition ldlm_process_flock_lock ::
  "flock_env \<Rightarrow> bool list \<Rightarrow> ldlm_process_intention \<Rightarrow> flock_state \<Rightarrow> (ldlm_iter \<times> flock_state) option" where
  "ldlm_process_flock_lock env ast intention st =
     (if intention \<noteq> LDLM_PROCESS_ENQUEUE \<or> fs_flags st = LDLM_FL_WAIT_NOREPROC then flock_process_once env intention st
      else do {
        r \<leftarrow> flock_passes env intention st;
        case r of
          Pass_Return it s \<Rightarrow> Some (it, s)
        | Pass_Own (Own_Done os) \<Rightarrow> do {
            os1 \<leftarrow> flock_grant intention os;
            os2 \<leftarrow> flock_unlock_reprocess env ast os1;
            flock_finish os2 }
        | Pass_Own (Own_Restart os m) \<Rightarrow> None })"

end
