(* ===== verification/Ldlm_Flock_Ranges.thy ===== *)
theory Ldlm_Flock_Ranges
  imports Ldlm_Flock
begin

text \<open>
  The bytes that locks cover. A set of locks of one owner and the range of the lock that is being granted are related to
  the bytes that the owner held before (\<open>own_inv\<close>). The steps of the loop over the own locks keep this relation:
  merging a lock, skipping a lock, and replacing a lock by what is left of it.
\<close>

section \<open>Ranges\<close>

definition flock_range :: "ldlm_lock \<Rightarrow> u64 set" where
  "flock_range l = {fl_start l .. fl_end l}"

definition flock_owner_of :: "ldlm_lock \<Rightarrow> nat option \<times> u64" where
  "flock_owner_of l = (l_export l, fl_owner l)"

definition flock_holds :: "ldlm_lock list \<Rightarrow> nat option \<times> u64 \<Rightarrow> u64 \<Rightarrow> ldlm_mode \<Rightarrow> bool" where
  "flock_holds G own x m \<longleftrightarrow> (\<exists>l\<in>set G. flock_owner_of l = own \<and> x \<in> flock_range l \<and> l_granted_mode l = m)"

text \<open>Two ranges that overlap or adjoin.\<close>

definition flock_touch :: "ldlm_lock \<Rightarrow> ldlm_lock \<Rightarrow> bool" where
  "flock_touch l n \<longleftrightarrow> unat (fl_start l) \<le> unat (fl_end n) + 1 \<and> unat (fl_start n) \<le> unat (fl_end l) + 1"

lemma same_owner_iff [simp]: "ldlm_same_flock_owner l n \<longleftrightarrow> flock_owner_of l = flock_owner_of n"
  by (auto simp: ldlm_same_flock_owner_def flock_owner_of_def)

lemma overlap_iff:
  assumes "fl_start l \<le> fl_end l" and "fl_start n \<le> fl_end n"
  shows "ldlm_flocks_overlap l n \<longleftrightarrow> flock_range l \<inter> flock_range n \<noteq> {}"
proof
  assume "ldlm_flocks_overlap l n"
  then have "max (fl_start l) (fl_start n) \<in> flock_range l \<inter> flock_range n"
    using assms by (auto simp: ldlm_flocks_overlap_def flock_range_def max_def)
  then show "flock_range l \<inter> flock_range n \<noteq> {}" by blast
next
  assume "flock_range l \<inter> flock_range n \<noteq> {}"
  then show "ldlm_flocks_overlap l n"
    by (auto simp: ldlm_flocks_overlap_def flock_range_def)
qed

lemma unat_add_one: "a < (b::u64) \<Longrightarrow> unat (a + 1) = Suc (unat a)"
proof -
  assume "a < b"
  then have "1 + a \<noteq> 0"
    by (metis add_eq_0_iff leD word_n1_ge)
  then show ?thesis by (simp add: unatSuc add.commute)
qed

lemma unat_minus_one: "b < (a::u64) \<Longrightarrow> Suc (unat (a - 1)) = unat a"
  by (subst unat_sub) (auto simp: word_le_nat_alt word_less_nat_alt)

lemma atLeast_add_one: "e < (e'::u64) \<Longrightarrow> {e + 1 .. e'} = {s .. e'} - {.. e}" if "s \<le> e" for s
  using that by (auto simp: word_le_nat_alt word_less_nat_alt unat_add_one)

lemma atMost_minus_one: "s < (s'::u64) \<Longrightarrow> {s .. s' - 1} = {s ..< s'}"
  using unat_minus_one [of s s'] by (auto simp: word_le_nat_alt word_less_nat_alt)

lemma touch_union:
  assumes "flock_touch l n" and "fl_start l \<le> fl_end l" and "fl_start n \<le> fl_end n"
  shows "{(if fl_start n < fl_start l then fl_start n else fl_start l) ..
          (if fl_end n > fl_end l then fl_end n else fl_end l)} = flock_range l \<union> flock_range n"
  using assms by (auto simp: flock_range_def flock_touch_def word_le_nat_alt word_less_nat_alt)

section \<open>The owner's locks against the bytes held before\<close>

text \<open>
  \<open>R\<close> are the own locks apart from the one being granted, \<open>n\<close> is the lock being granted, \<open>T\<close> the requested range, \<open>H\<close> the bytes
  held before and \<open>own\<close> the addresses that the loop still visits.
\<close>

definition own_inv ::
  "ldlm_mode \<Rightarrow> u64 set \<Rightarrow> (u64 \<Rightarrow> ldlm_mode \<Rightarrow> bool) \<Rightarrow> nat set \<Rightarrow> ldlm_lock set \<Rightarrow> u64 set \<Rightarrow> bool" where
  "own_inv mode T H own R N \<longleftrightarrow>
     inj_on l_ptr R \<and>
     (\<forall>l\<in>R. \<forall>l'\<in>R. l \<noteq> l' \<longrightarrow> flock_range l \<inter> flock_range l' = {}) \<and>
     (\<forall>l\<in>R. l_ptr l \<notin> own \<longrightarrow> flock_range l \<inter> N = {}) \<and>
     (\<forall>x. x \<notin> N \<longrightarrow> (\<forall>m. (\<exists>l\<in>R. x \<in> flock_range l \<and> l_granted_mode l = m) \<longleftrightarrow> H x m)) \<and>
     (\<forall>x\<in>N. x \<in> T \<or> H x mode) \<and>
     T \<subseteq> N"

lemma own_inv_holds:
  "own_inv mode T H own R N \<Longrightarrow> x \<notin> N \<Longrightarrow> (\<exists>l\<in>R. x \<in> flock_range l \<and> l_granted_mode l = m) \<longleftrightarrow> H x m"
  by (simp add: own_inv_def)

lemma own_inv_disjoint:
  "own_inv mode T H own R N \<Longrightarrow> l \<in> R \<Longrightarrow> l' \<in> R \<Longrightarrow> l \<noteq> l' \<Longrightarrow> flock_range l \<inter> flock_range l' = {}"
  by (simp add: own_inv_def)

lemma own_inv_visited: "own_inv mode T H own R N \<Longrightarrow> l \<in> R \<Longrightarrow> l_ptr l \<notin> own \<Longrightarrow> flock_range l \<inter> N = {}"
  by (simp add: own_inv_def)

lemma own_inv_inj: "own_inv mode T H own R N \<Longrightarrow> l \<in> R \<Longrightarrow> l' \<in> R \<Longrightarrow> l_ptr l = l_ptr l' \<Longrightarrow> l = l'"
  by (auto simp: own_inv_def inj_on_def)

lemma own_inv_new: "own_inv mode T H own R N \<Longrightarrow> x \<in> N \<Longrightarrow> x \<in> T \<or> H x mode"
  by (simp add: own_inv_def)

lemma own_inv_request: "own_inv mode T H own R N \<Longrightarrow> T \<subseteq> N"
  by (simp add: own_inv_def)

lemma own_inv_merge:
  assumes inv: "own_inv mode T H (insert p own) R N" and l: "l \<in> R" "l_ptr l = p" "l_granted_mode l = mode"
  shows "own_inv mode T H own (R - {l}) (flock_range l \<union> N)"
proof -
  have R: "l' = l" if "l' \<in> R" "l_ptr l' = p" for l'
    using own_inv_inj [OF inv that(1) l(1)] that(2) l(2) by simp
  have H: "H x mode" if "x \<in> flock_range l" "x \<notin> N" for x
    using that own_inv_holds [OF inv, of x mode] l by blast
  show ?thesis
    unfolding own_inv_def
  proof (intro conjI)
    show "\<forall>l'\<in>R - {l}. l_ptr l' \<notin> own \<longrightarrow> flock_range l' \<inter> (flock_range l \<union> N) = {}"
      using l R own_inv_visited [OF inv] own_inv_disjoint [OF inv]
      by (metis Diff_iff Int_Un_distrib Un_empty insert_iff)
    show "\<forall>x. x \<notin> flock_range l \<union> N \<longrightarrow>
        (\<forall>m. (\<exists>l'\<in>R - {l}. x \<in> flock_range l' \<and> l_granted_mode l' = m) \<longleftrightarrow> H x m)"
      using own_inv_holds [OF inv] by blast
  qed (use inv H in \<open>auto simp: own_inv_def intro: inj_on_diff\<close>)
qed

lemma own_inv_skip:
  assumes inv: "own_inv mode T H (insert p own) R N" and l: "l \<in> R" "l_ptr l = p" "flock_range l \<inter> N = {}"
  shows "own_inv mode T H own R N"
proof -
  have "l' = l" if "l' \<in> R" "l_ptr l' = p" for l'
    using own_inv_inj [OF inv that(1) l(1)] that(2) l(2) by simp
  then have "\<forall>l'\<in>R. l_ptr l' \<notin> own \<longrightarrow> flock_range l' \<inter> N = {}"
    using own_inv_visited [OF inv] l(3) by (metis insert_iff)
  then show ?thesis using inv unfolding own_inv_def by simp
qed

text \<open>The lock \<open>l\<close> is replaced by locks \<open>L\<close> of its mode that cover what \<open>l\<close> covers outside of the lock being granted.\<close>

lemma own_inv_replace:
  assumes inv: "own_inv mode T H (insert p own) R N" and l: "l \<in> R" "l_ptr l = p"
    and L: "(\<Union>k\<in>L. flock_range k) = flock_range l - N" "\<forall>k\<in>L. l_granted_mode k = l_granted_mode l"
      "\<forall>k\<in>L. \<forall>k'\<in>L. k \<noteq> k' \<longrightarrow> flock_range k \<inter> flock_range k' = {}"
    and inj: "inj_on l_ptr (R - {l} \<union> L)"
  shows "own_inv mode T H own (R - {l} \<union> L) N"
proof -
  have R: "l' = l" if "l' \<in> R" "l_ptr l' = p" for l'
    using own_inv_inj [OF inv that(1) l(1)] that(2) l(2) by simp
  have sub: "flock_range k \<subseteq> flock_range l - N" if "k \<in> L" for k
    using that L(1) by blast
  have dis: "flock_range k \<inter> flock_range l' = {}" if "k \<in> L" "l' \<in> R - {l}" for k l'
  proof -
    have "flock_range l \<inter> flock_range l' = {}" using own_inv_disjoint [OF inv l(1)] that(2) by blast
    then show ?thesis using sub [OF that(1)] by blast
  qed
  show ?thesis
    unfolding own_inv_def
  proof (intro conjI)
    show "\<forall>a\<in>R - {l} \<union> L. \<forall>b\<in>R - {l} \<union> L. a \<noteq> b \<longrightarrow> flock_range a \<inter> flock_range b = {}"
      using own_inv_disjoint [OF inv] L(3) dis by (metis Diff_iff Int_commute Un_iff)
    show "\<forall>a\<in>R - {l} \<union> L. l_ptr a \<notin> own \<longrightarrow> flock_range a \<inter> N = {}"
    proof (intro ballI impI)
      fix a assume a: "a \<in> R - {l} \<union> L" "l_ptr a \<notin> own"
      show "flock_range a \<inter> N = {}"
      proof (cases "a \<in> L")
        case True
        then show ?thesis using sub by blast
      next
        case False
        then have "a \<in> R" "l_ptr a \<notin> insert p own" using a R by auto
        then show ?thesis using inv unfolding own_inv_def by simp
      qed
    qed
    show "\<forall>x. x \<notin> N \<longrightarrow> (\<forall>m. (\<exists>a\<in>R - {l} \<union> L. x \<in> flock_range a \<and> l_granted_mode a = m) \<longleftrightarrow> H x m)"
    proof (intro allI impI)
      fix x m assume x: "x \<notin> N"
      have "(\<exists>a\<in>L. x \<in> flock_range a \<and> l_granted_mode a = m) \<longleftrightarrow> x \<in> flock_range l \<and> l_granted_mode l = m"
        using L(2) x arg_cong [OF L(1), of "\<lambda>A. x \<in> A"] by auto
      then have "(\<exists>a\<in>R - {l} \<union> L. x \<in> flock_range a \<and> l_granted_mode a = m)
          \<longleftrightarrow> (\<exists>a\<in>R. x \<in> flock_range a \<and> l_granted_mode a = m)"
        using l(1) by blast
      then show "(\<exists>a\<in>R - {l} \<union> L. x \<in> flock_range a \<and> l_granted_mode a = m) \<longleftrightarrow> H x m"
        using own_inv_holds [OF inv x] by simp
    qed
  qed (use inv inj in \<open>auto simp: own_inv_def\<close>)
qed

text \<open>A lock that contains the one being granted is the only one that meets it.\<close>

lemma own_inv_contained:
  assumes inv: "own_inv mode T H (insert p own) R N" and l: "l \<in> R" "l_ptr l = p" "N \<subseteq> flock_range l"
  shows "own_inv mode T H {p} R N"
proof -
  have "flock_range l' \<inter> N = {}" if "l' \<in> R" "l_ptr l' \<noteq> p" for l'
    using own_inv_disjoint [OF inv that(1) l(1)] that(2) l(2,3) by blast
  then show ?thesis using inv unfolding own_inv_def by simp
qed

end
