(* ===== verification/Ldlm_Flock_Loop.thy ===== *)
theory Ldlm_Flock_Loop
  imports Ldlm_Flock_Ranges
begin

text \<open>
  The loop of \<^verbatim>\<open>ldlm_process_flock_lock\<close> over the locks of the same owner, on the list of granted locks: the invariant \<open>granted_inv\<close>
  and the steps that merge, trim, remove and split a lock.
\<close>

section \<open>Lists of locks with distinct addresses\<close>

abbreviation with_range :: "u64 \<Rightarrow> u64 \<Rightarrow> ldlm_lock \<Rightarrow> ldlm_lock" where
  "with_range s e l \<equiv> l\<lparr>fl_start := s, fl_end := e\<rparr>"

lemma find_lock_eq_Some: "distinct (map l_ptr G) \<Longrightarrow> find_lock p G = Some l \<longleftrightarrow> l \<in> set G \<and> l_ptr l = p"
  by (induction G) (auto simp: find_lock_def)

lemma same_ptr: "distinct (map l_ptr G) \<Longrightarrow> k \<in> set G \<Longrightarrow> l \<in> set G \<Longrightarrow> l_ptr k = l_ptr l \<Longrightarrow> k = l"
  by (auto simp: distinct_map dest: inj_onD)

lemma others: "distinct (map l_ptr G) \<Longrightarrow> l \<in> set G \<Longrightarrow> l_ptr l = p \<Longrightarrow> {k \<in> set G. l_ptr k \<noteq> p} = set G - {l}"
  by (auto dest: same_ptr)

lemma other_ptr: "distinct (map l_ptr G) \<Longrightarrow> l \<in> set G \<Longrightarrow> k \<in> set G \<Longrightarrow> l_ptr k = l_ptr l \<longleftrightarrow> k = l"
  by (auto dest: same_ptr)

lemma find_lock_eq_None: "find_lock p G = None \<longleftrightarrow> p \<notin> l_ptr ` set G"
  by (auto simp: find_lock_def find_None_iff)

lemma set_update_lock:
  "distinct (map l_ptr G) \<Longrightarrow> l \<in> set G \<Longrightarrow> l_ptr l = p \<Longrightarrow>
   set (update_lock p f G) = insert (f l) (set G - {l})"
proof -
  assume a: "distinct (map l_ptr G)" "l \<in> set G" "l_ptr l = p"
  have "k = l" if "k \<in> set G" "l_ptr k = p" for k
    using same_ptr [OF a(1) that(1) a(2)] that(2) a(3) by simp
  then have "(\<lambda>k. if l_ptr k = p then f k else k) ` set G = (\<lambda>k. if l_ptr k = p then f l else k) ` set G"
    by (intro image_cong) auto
  also have "\<dots> = insert (f l) {k \<in> set G. l_ptr k \<noteq> p}"
    using a(2,3) by force
  also have "{k \<in> set G. l_ptr k \<noteq> p} = set G - {l}"
    by (rule others [OF a])
  finally show ?thesis by (simp add: update_lock_def)
qed

lemma map_ptr_update_lock [simp]: "map l_ptr (update_lock p (with_range s e) G) = map l_ptr G"
  by (simp add: update_lock_def)

lemma ptrs_update_lock [simp]: "l_ptr ` set (update_lock p (with_range s e) G) = l_ptr ` set G"
  by (metis list.set_map map_ptr_update_lock)

lemma set_remove_lock [simp]: "set (remove_lock p G) = {k \<in> set G. l_ptr k \<noteq> p}"
  by (auto simp: remove_lock_def)

lemma distinct_remove_lock: "distinct (map l_ptr G) \<Longrightarrow> distinct (map l_ptr (remove_lock p G))"
  by (simp add: remove_lock_def distinct_map_filter)

lemma set_range_simps [simp]:
  "flock_owner_of (with_range s e l) = flock_owner_of l" "flock_range (with_range s e l) = {s..e}"
  by (simp_all add: flock_owner_of_def flock_range_def)

section \<open>The invariant\<close>

definition lock_ok :: "ldlm_lock \<Rightarrow> bool" where
  "lock_ok l \<longleftrightarrow> fl_start l \<le> fl_end l \<and> l_granted_mode l \<in> {LCK_PR, LCK_PW} \<and> \<not> l_exp_flock_hash l \<and> \<not> l_ast_data l"

definition own_rest :: "nat option \<times> u64 \<Rightarrow> nat option \<Rightarrow> ldlm_lock list \<Rightarrow> ldlm_lock set" where
  "own_rest own newp G = {l \<in> set G. flock_owner_of l = own \<and> Some (l_ptr l) \<noteq> newp}"

definition foreign :: "nat option \<times> u64 \<Rightarrow> ldlm_lock list \<Rightarrow> ldlm_lock set" where
  "foreign own G = {l \<in> set G. flock_owner_of l \<noteq> own}"

text \<open>
  \<open>G0\<close> are the granted locks and \<open>r\<close> is the request before the loop; \<open>G\<close> are the granted locks, \<open>newp\<close> and \<open>n\<close> are the
  address and the lock behind \<^verbatim>\<open>new\<close> at a turn of the loop, and \<open>ps\<close> are the locks to visit.
\<close>

definition granted_inv ::
  "ldlm_mode \<Rightarrow> ldlm_lock \<Rightarrow> ldlm_lock list \<Rightarrow> nat list \<Rightarrow> ldlm_lock list \<Rightarrow> nat option \<Rightarrow> ldlm_lock \<Rightarrow> bool" where
  "granted_inv mode r G0 ps G newp n \<longleftrightarrow>
     distinct (map l_ptr G) \<and> (\<forall>l\<in>set G. lock_ok l) \<and>
     flock_owner_of n = flock_owner_of r \<and> fl_start n \<le> fl_end n \<and>
     (\<forall>q. newp = Some q \<longrightarrow> n \<in> set G \<and> l_ptr n = q \<and> l_granted_mode n = mode \<and> q \<notin> set ps) \<and>
     own_inv mode (flock_range r) (flock_holds G0 (flock_owner_of r)) (set ps)
       (own_rest (flock_owner_of r) newp G) (flock_range n) \<and>
     foreign (flock_owner_of r) G = foreign (flock_owner_of r) G0 \<and>
     distinct ps \<and>
     (\<forall>p\<in>set ps. \<exists>l\<in>set G \<inter> set G0. l_ptr l = p \<and> flock_owner_of l = flock_owner_of r \<and>
        (l_granted_mode l = mode \<longrightarrow> flock_touch l r))"

lemma granted_inv_D:
  assumes "granted_inv mode r G0 ps G newp n"
  shows "distinct (map l_ptr G)" "\<And>l. l \<in> set G \<Longrightarrow> lock_ok l" "flock_owner_of n = flock_owner_of r"
    "fl_start n \<le> fl_end n" "\<And>q. newp = Some q \<Longrightarrow> n \<in> set G \<and> l_ptr n = q \<and> l_granted_mode n = mode \<and> q \<notin> set ps"
    "own_inv mode (flock_range r) (flock_holds G0 (flock_owner_of r)) (set ps)
       (own_rest (flock_owner_of r) newp G) (flock_range n)"
    "foreign (flock_owner_of r) G = foreign (flock_owner_of r) G0" "distinct ps"
    "\<And>p. p \<in> set ps \<Longrightarrow> \<exists>l\<in>set G \<inter> set G0. l_ptr l = p \<and> flock_owner_of l = flock_owner_of r \<and>
        (l_granted_mode l = mode \<longrightarrow> flock_touch l r)"
  using assms unfolding granted_inv_def by blast+

text \<open>The lock that the loop visits next.\<close>

lemma granted_inv_head:
  assumes "granted_inv mode r G0 (p # ps) G newp n" and l: "l \<in> set G" "l_ptr l = p"
  shows "flock_owner_of l = flock_owner_of r" "l \<in> set G0" "l_granted_mode l = mode \<Longrightarrow> flock_touch l r"
    "l \<in> own_rest (flock_owner_of r) newp G" "lock_ok l" "p \<notin> set ps" "newp \<noteq> Some p"
proof -
  note I = granted_inv_D [OF assms(1)]
  obtain k where k: "k \<in> set G" "k \<in> set G0" "l_ptr k = p" "flock_owner_of k = flock_owner_of r"
      "l_granted_mode k = mode \<longrightarrow> flock_touch k r"
    using I(9) [of p] by auto
  have "k = l" using same_ptr [OF I(1) k(1) l(1)] k(3) l(2) by simp
  then show "flock_owner_of l = flock_owner_of r" "l \<in> set G0" "l_granted_mode l = mode \<Longrightarrow> flock_touch l r"
    using k by auto
  show np: "newp \<noteq> Some p" using I(5) by fastforce
  show "lock_ok l" using I(2) l(1) .
  show "p \<notin> set ps" using I(8) by simp
  show "l \<in> own_rest (flock_owner_of r) newp G"
    using l np \<open>k = l\<close> k(4) by (auto simp: own_rest_def)
qed

lemma touch_mono:
  assumes "flock_touch l r" "flock_range r \<subseteq> flock_range n" "fl_start r \<le> fl_end r"
  shows "flock_touch l n"
  using assms by (auto simp: flock_touch_def flock_range_def word_le_nat_alt)

text \<open>The locks still to be visited stay as they are.\<close>

lemma unvisited_kept:
  assumes "granted_inv mode r G0 (p # ps) G newp n" and "{k \<in> set G. l_ptr k \<in> set ps} \<subseteq> set G'" and "q \<in> set ps"
  shows "\<exists>l\<in>set G' \<inter> set G0. l_ptr l = q \<and> flock_owner_of l = flock_owner_of r \<and>
      (l_granted_mode l = mode \<longrightarrow> flock_touch l r)"
  using granted_inv_D(9) [OF assms(1), of q] assms(2,3) by auto

section \<open>Steps\<close>

lemma granted_inv_skip:
  assumes inv: "granted_inv mode r G0 (p # ps) G newp n" and l: "l \<in> set G" "l_ptr l = p"
    and dis: "flock_range l \<inter> flock_range n = {}"
  shows "granted_inv mode r G0 ps G newp n"
proof -
  note I = granted_inv_D [OF inv] and L = granted_inv_head [OF inv l]
  have "own_inv mode (flock_range r) (flock_holds G0 (flock_owner_of r)) (set ps)
      (own_rest (flock_owner_of r) newp G) (flock_range n)"
    by (rule own_inv_skip [OF _ L(4) l(2) dis]) (use I(6) in simp)
  then show ?thesis
    using inv unfolding granted_inv_def by simp
qed

lemma granted_inv_merge_first:
  assumes inv: "granted_inv mode r G0 (p # ps) G None n" and l: "l \<in> set G" "l_ptr l = p"
    and mode: "l_granted_mode l = mode" and un: "{s..e} = flock_range l \<union> flock_range n" and se: "s \<le> e"
  shows "granted_inv mode r G0 ps (update_lock p (with_range s e) G) (Some p) (with_range s e l)"
proof -
  note I = granted_inv_D [OF inv] and L = granted_inv_head [OF inv l]
  note other = other_ptr [OF I(1) l(1)]
  have G': "set (update_lock p (with_range s e) G) = insert (with_range s e l) (set G - {l})"
    by (rule set_update_lock [OF I(1) l])
  have kept: "{k \<in> set G. l_ptr k \<in> set ps} \<subseteq> set (update_lock p (with_range s e) G)"
    using L(6) l(2) by (auto simp: G')
  have rest: "own_rest (flock_owner_of r) (Some p) (update_lock p (with_range s e) G) =
      own_rest (flock_owner_of r) None G - {l}"
    using l(2) by (auto simp: own_rest_def G' other)
  have "own_inv mode (flock_range r) (flock_holds G0 (flock_owner_of r)) (set ps)
      (own_rest (flock_owner_of r) None G - {l}) (flock_range l \<union> flock_range n)"
    by (rule own_inv_merge [OF _ L(4) l(2) mode]) (use I(6) in simp)
  moreover have "foreign (flock_owner_of r) (update_lock p (with_range s e) G) = foreign (flock_owner_of r) G"
    using L(1) by (auto simp: foreign_def G')
  moreover have "\<forall>k\<in>set (update_lock p (with_range s e) G). lock_ok k"
    using I(2) L(5) se by (auto simp: G' lock_ok_def)
  ultimately show ?thesis
    unfolding granted_inv_def
    using I(1,7,8) L(1,6) l(2) mode se unvisited_kept [OF inv kept] by (simp add: rest un G')
qed

lemma granted_inv_merge_more:
  assumes inv: "granted_inv mode r G0 (p # ps) G (Some q) n" and l: "l \<in> set G" "l_ptr l = p"
    and mode: "l_granted_mode l = mode" and un: "{s..e} = flock_range l \<union> flock_range n" and se: "s \<le> e"
  shows "granted_inv mode r G0 ps (update_lock q (with_range s e) (remove_lock p G)) (Some q) (with_range s e n)"
proof -
  note I = granted_inv_D [OF inv] and L = granted_inv_head [OF inv l]
  note other = other_ptr [OF I(1) l(1)]
  have n: "n \<in> set G" "l_ptr n = q" "l_granted_mode n = mode" "q \<noteq> p" "q \<notin> set ps"
    using I(5) [of q] by auto
  note new = other_ptr [OF I(1) n(1)]
  have d: "distinct (map l_ptr (remove_lock p G))" by (rule distinct_remove_lock [OF I(1)])
  have "set (update_lock q (with_range s e) (remove_lock p G)) = insert (with_range s e n) (set (remove_lock p G) - {n})"
    by (rule set_update_lock [OF d _ n(2)]) (use n in simp)
  then have G': "set (update_lock q (with_range s e) (remove_lock p G)) = insert (with_range s e n) (set G - {l} - {n})"
    by (simp add: others [OF I(1) l])
  have kept: "{k \<in> set G. l_ptr k \<in> set ps} \<subseteq> set (update_lock q (with_range s e) (remove_lock p G))"
    using L(6) l(2) n(2,5) by (auto simp: G')
  have rest: "own_rest (flock_owner_of r) (Some q) (update_lock q (with_range s e) (remove_lock p G)) =
      own_rest (flock_owner_of r) (Some q) G - {l}"
    using n(2) by (auto simp: own_rest_def G' new)
  have "own_inv mode (flock_range r) (flock_holds G0 (flock_owner_of r)) (set ps)
      (own_rest (flock_owner_of r) (Some q) G - {l}) (flock_range l \<union> flock_range n)"
    by (rule own_inv_merge [OF _ L(4) l(2) mode]) (use I(6) in simp)
  moreover have "foreign (flock_owner_of r) (update_lock q (with_range s e) (remove_lock p G)) = foreign (flock_owner_of r) G"
    using L(1) I(3) by (auto simp: foreign_def G')
  moreover have "\<forall>k\<in>set (update_lock q (with_range s e) (remove_lock p G)). lock_ok k"
    using I(2) n(1) se by (auto simp: G' lock_ok_def)
  ultimately show ?thesis
    unfolding granted_inv_def
    using d I(3,7,8) L(1,6) n se unvisited_kept [OF inv kept] by (simp add: rest un G')
qed

text \<open>The lock keeps its address and what is left of it in the list \<open>G'\<close>; \<open>L\<close> are the locks that are left.\<close>

lemma granted_inv_replace:
  assumes inv: "granted_inv mode r G0 (p # ps) G newp n" and l: "l \<in> set G" "l_ptr l = p"
    and G': "set G' = L \<union> (set G - {l})" "distinct (map l_ptr G')"
    and L: "(\<Union>k\<in>L. flock_range k) = flock_range l - flock_range n"
      "\<forall>k\<in>L. \<forall>k'\<in>L. k \<noteq> k' \<longrightarrow> flock_range k \<inter> flock_range k' = {}"
      "\<forall>k\<in>L. l_granted_mode k = l_granted_mode l \<and> flock_owner_of k = flock_owner_of l \<and> lock_ok k \<and> Some (l_ptr k) \<noteq> newp"
    and mode: "l_granted_mode l \<noteq> mode"
  shows "granted_inv mode r G0 ps G' newp n"
proof -
  note I = granted_inv_D [OF inv] and H = granted_inv_head [OF inv l]
  have kept: "{k \<in> set G. l_ptr k \<in> set ps} \<subseteq> set G'"
    using H(6) l(2) by (auto simp: G'(1))
  have rest: "own_rest (flock_owner_of r) newp G' = own_rest (flock_owner_of r) newp G - {l} \<union> L"
    using H(1) L(3) by (auto simp: own_rest_def G'(1))
  have "inj_on l_ptr (own_rest (flock_owner_of r) newp G - {l} \<union> L)"
    using G'(2) unfolding rest [symmetric] by (auto simp: distinct_map own_rest_def intro: inj_on_subset)
  then have "own_inv mode (flock_range r) (flock_holds G0 (flock_owner_of r)) (set ps)
      (own_rest (flock_owner_of r) newp G - {l} \<union> L) (flock_range n)"
    by (intro own_inv_replace [OF _ H(4) l(2) L(1) _ L(2)]) (use I(6) L(3) in simp_all)
  moreover have "foreign (flock_owner_of r) G' = foreign (flock_owner_of r) G"
    using H(1) L(3) by (auto simp: foreign_def G'(1))
  moreover have "\<forall>k\<in>set G'. lock_ok k"
    using I(2) L(3) by (auto simp: G'(1))
  moreover have "\<forall>q. newp = Some q \<longrightarrow> n \<in> set G' \<and> l_ptr n = q \<and> l_granted_mode n = mode \<and> q \<notin> set ps"
    using I(5) mode by (auto simp: G'(1))
  ultimately show ?thesis
    unfolding granted_inv_def
    using I(3,4,7,8) G'(2) unvisited_kept [OF inv kept] by (simp add: rest)
qed

lemma granted_inv_trim:
  assumes inv: "granted_inv mode r G0 (p # ps) G newp n" and l: "l \<in> set G" "l_ptr l = p"
    and r: "{s..e} = flock_range l - flock_range n" "s \<le> e" and mode: "l_granted_mode l \<noteq> mode"
  shows "granted_inv mode r G0 ps (update_lock p (with_range s e) G) newp n"
proof (rule granted_inv_replace [OF inv l _ _ _ _ _ mode, where L = "{with_range s e l}"])
  note I = granted_inv_D [OF inv] and H = granted_inv_head [OF inv l]
  show "set (update_lock p (with_range s e) G) = {with_range s e l} \<union> (set G - {l})"
    using set_update_lock [OF I(1) l] by simp
qed (use granted_inv_D(1) [OF inv] granted_inv_head [OF inv l] r l(2) in \<open>auto simp: lock_ok_def\<close>)

lemma granted_inv_destroy:
  assumes inv: "granted_inv mode r G0 (p # ps) G newp n" and l: "l \<in> set G" "l_ptr l = p"
    and r: "flock_range l \<subseteq> flock_range n" and mode: "l_granted_mode l \<noteq> mode"
  shows "granted_inv mode r G0 ps (remove_lock p G) newp n"
proof (rule granted_inv_replace [OF inv l _ _ _ _ _ mode, where L = "{}"])
  note I = granted_inv_D [OF inv]
  show "set (remove_lock p G) = {} \<union> (set G - {l})" using others [OF I(1) l] by simp
  show "distinct (map l_ptr (remove_lock p G))" by (rule distinct_remove_lock [OF I(1)])
qed (use r in auto)

text \<open>A split ends the loop: no other own lock meets the new one.\<close>

lemma granted_inv_contained:
  assumes inv: "granted_inv mode r G0 (p # ps) G newp n" and l: "l \<in> set G" "l_ptr l = p"
    and r: "flock_range n \<subseteq> flock_range l"
  shows "granted_inv mode r G0 [p] G newp n"
proof -
  note I = granted_inv_D [OF inv] and H = granted_inv_head [OF inv l]
  have "own_inv mode (flock_range r) (flock_holds G0 (flock_owner_of r)) {p}
      (own_rest (flock_owner_of r) newp G) (flock_range n)"
    by (rule own_inv_contained [OF _ H(4) l(2) r]) (use I(6) in simp)
  then show ?thesis
    using inv unfolding granted_inv_def by simp
qed

lemma granted_inv_split:
  assumes inv: "granted_inv mode r G0 (p # ps) G newp n" and l: "l \<in> set G" "l_ptr l = p"
    and st: "fl_start l < fl_start n" "fl_end n < fl_end l" and mode: "l_granted_mode l \<noteq> mode"
    and n2: "flock_range n2 = {fl_start l .. fl_start n - 1}" "l_granted_mode n2 = l_granted_mode l"
      "flock_owner_of n2 = flock_owner_of l" "lock_ok n2" "l_ptr n2 \<notin> l_ptr ` set G"
  shows "granted_inv mode r G0 [] (update_lock p (with_range (fl_end n + 1) (fl_end l)) G @ [n2]) newp n"
proof -
  note I = granted_inv_D [OF inv] and H = granted_inv_head [OF inv l]
  let ?u = "with_range (fl_end n + 1) (fl_end l) l"
  have sub: "flock_range n \<subseteq> flock_range l" using st I(4) by (auto simp: flock_range_def)
  have ru: "flock_range ?u = {fl_start n .. fl_end l} - {.. fl_end n}"
    using atLeast_add_one [OF I(4) st(2)] by (simp add: flock_range_def)
  have rn2: "flock_range n2 = {fl_start l ..< fl_start n}"
    using n2(1) atMost_minus_one [OF st(1)] by simp
  have le: "fl_end n + 1 \<le> fl_end l"
    using st(2) unat_add_one [OF st(2)] by (simp add: word_le_nat_alt word_less_nat_alt)
  have newp: "newp \<noteq> Some (l_ptr n2)" using I(5) [of "l_ptr n2"] n2(5) by (metis image_eqI)
  show ?thesis
  proof (rule granted_inv_replace [OF granted_inv_contained [OF inv l sub] l _ _ _ _ _ mode, where L = "{?u, n2}"])
    show "set (update_lock p (with_range (fl_end n + 1) (fl_end l)) G @ [n2]) = {?u, n2} \<union> (set G - {l})"
      using set_update_lock [OF I(1) l] by auto
    show "distinct (map l_ptr (update_lock p (with_range (fl_end n + 1) (fl_end l)) G @ [n2]))"
      using I(1) n2(5) by simp
    show "\<Union> (flock_range ` {?u, n2}) = flock_range l - flock_range n"
      unfolding image_insert image_empty Union_insert ru rn2 using st I(4) by (auto simp: flock_range_def)
    show "\<forall>k\<in>{?u, n2}. \<forall>k'\<in>{?u, n2}. k \<noteq> k' \<longrightarrow> flock_range k \<inter> flock_range k' = {}"
      using ru rn2 by auto
    show "\<forall>k\<in>{?u, n2}. l_granted_mode k = l_granted_mode l \<and> flock_owner_of k = flock_owner_of l \<and> lock_ok k \<and>
        Some (l_ptr k) \<noteq> newp"
      using n2 newp H(5,7) l(2) le by (auto simp: lock_ok_def flock_owner_of_def)
  qed
qed

section \<open>The loop\<close>

text \<open>What the loop leaves alone.\<close>

definition loop_frame :: "own_state \<Rightarrow> own_state \<Rightarrow> bool" where
  "loop_frame os0 os \<longleftrightarrow>
     fs_flags (os_st os) = fs_flags (os_st os0) \<and> fs_err (os_st os) = fs_err (os_st os0) \<and>
     fs_work (os_st os) = fs_work (os_st os0) \<and> lr_waiting (os_res os) = lr_waiting (os_res os0) \<and>
     lfn_unlock_pending (os_res os) = lfn_unlock_pending (os_res os0) \<and>
     l_ptr ` set (lr_granted (os_res os)) \<subseteq> l_ptr ` (set (lr_granted (os_res os0)) \<union> set_option (os_new2 os0)) \<and>
     with_range 0 0 (fs_req (os_st os)) = with_range 0 0 (fs_req (os_st os0))"

text \<open>
  The loop has not changed anything yet, or it has passed an own lock that meets the one being granted. An unlock that
  changed something has asked for the waiting locks to be processed again.
\<close>

definition loop_ok :: "ldlm_mode \<Rightarrow> own_state \<Rightarrow> nat list \<Rightarrow> own_state \<Rightarrow> bool" where
  "loop_ok mode os0 ps os \<longleftrightarrow>
     (\<exists>n. get_new os = Some n \<and>
        granted_inv mode (fs_req (os_st os0)) (lr_granted (os_res os0)) ps (lr_granted (os_res os)) (os_new os) n \<and>
        (os = os0 \<or> (\<exists>k\<in>set (lr_granted (os_res os0)). flock_owner_of k = flock_owner_of (fs_req (os_st os0)) \<and>
           l_ptr k \<notin> set ps \<and> flock_range k \<inter> flock_range n \<noteq> {}) \<and>
           (mode = LCK_NL \<longrightarrow> lfn_needs_reprocess (os_res os)))) \<and>
     (os_added os \<longleftrightarrow> os_new os \<noteq> None \<or> mode = LCK_NL) \<and>
     loop_frame os0 os"

definition own_disjoint :: "ldlm_lock list \<Rightarrow> bool" where
  "own_disjoint G \<longleftrightarrow> (\<forall>l\<in>set G. \<forall>l'\<in>set G. l \<noteq> l' \<longrightarrow> flock_owner_of l = flock_owner_of l' \<longrightarrow>
     flock_range l \<inter> flock_range l' = {})"

text \<open>What holds before the loop.\<close>

definition start_ok :: "own_state \<Rightarrow> bool" where
  "start_ok os0 \<longleftrightarrow> fl_start (fs_req (os_st os0)) \<le> fl_end (fs_req (os_st os0)) \<and>
     l_ptr ` set (lr_granted (os_res os0)) \<inter> l_ptr ` set (lr_waiting (os_res os0)) = {} \<and>
     own_disjoint (lr_granted (os_res os0))"

lemma remove_lock_id [simp]: "p \<notin> l_ptr ` set G \<Longrightarrow> remove_lock p G = G"
  by (auto simp: remove_lock_def filter_id_conv)

lemma granted_not_waiting:
  "start_ok os0 \<Longrightarrow> l \<in> set (lr_granted (os_res os0)) \<Longrightarrow> l_ptr l = p \<Longrightarrow> p \<notin> l_ptr ` set (lr_waiting (os_res os0))"
  by (auto simp: start_ok_def)

lemma modes_differ [simp]: "LCK_PR \<noteq> LCK_NL" "LCK_PW \<noteq> LCK_NL" "LCK_PR \<noteq> LCK_PW"
  by (simp_all add: LCK_PR_def LCK_PW_def LCK_NL_def)

lemma lock_ok_mode: "lock_ok l \<Longrightarrow> l_granted_mode l \<noteq> LCK_NL"
  by (auto simp: lock_ok_def)

lemma hull_range:
  assumes "granted_inv mode r G0 (p # ps) G newp n" and l: "l \<in> set G" "l_ptr l = p" and "l_granted_mode l = mode"
    and "fl_start r \<le> fl_end r"
  defines "s \<equiv> if fl_start n < fl_start l then fl_start n else fl_start l"
    and "e \<equiv> if fl_end n > fl_end l then fl_end n else fl_end l"
  shows "{s..e} = flock_range l \<union> flock_range n" "s \<le> e"
proof -
  note I = granted_inv_D [OF assms(1)] and L = granted_inv_head [OF assms(1) l]
  have "flock_touch l n" by (rule touch_mono [OF L(3) own_inv_request [OF I(6)]]) (use assms in simp_all)
  then show "{s..e} = flock_range l \<union> flock_range n"
    unfolding s_def e_def by (rule touch_union) (use L(5) I(4) in \<open>simp_all add: lock_ok_def\<close>)
  show "s \<le> e" unfolding s_def e_def using I(4) L(5) by (auto simp: lock_ok_def)
qed

lemma range_nonempty: "lock_ok l \<Longrightarrow> flock_range l \<noteq> {}"
  by (simp add: lock_ok_def flock_range_def)

lemma loop_ok_D:
  assumes "loop_ok mode os0 ps os" and "get_new os = Some n"
  shows "granted_inv mode (fs_req (os_st os0)) (lr_granted (os_res os0)) ps (lr_granted (os_res os)) (os_new os) n"
    "os_added os \<longleftrightarrow> os_new os \<noteq> None \<or> mode = LCK_NL" "loop_frame os0 os"
  using assms unfolding loop_ok_def by auto

text \<open>A turn of the loop that changes the granted locks.\<close>

lemma loop_ok_step:
  assumes inv: "granted_inv mode (fs_req (os_st os0)) (lr_granted (os_res os0)) (p # ps) G newp n"
    and l: "l \<in> set G" "l_ptr l = p"
    and g: "granted_inv mode (fs_req (os_st os0)) (lr_granted (os_res os0)) ps (lr_granted (os_res os')) (os_new os') n'"
    and new: "os_new os' = None \<Longrightarrow> n' = fs_req (os_st os')"
    and meet: "flock_range l \<inter> flock_range n' \<noteq> {}" and rep: "mode = LCK_NL \<Longrightarrow> lfn_needs_reprocess (os_res os')"
    and added: "os_added os' \<longleftrightarrow> os_new os' \<noteq> None \<or> mode = LCK_NL" and fr: "loop_frame os0 os'"
  shows "loop_ok mode os0 ps os'"
proof -
  note L = granted_inv_head [OF inv l]
  have "get_new os' = Some n'"
    using granted_inv_D(1,5) [OF g] new by (auto simp: get_new_def find_lock_eq_Some split: option.split)
  then show ?thesis
    using g meet rep added fr L(1,2,6) l(2) unfolding loop_ok_def by auto
qed

lemma own_merge_first:
  assumes "os_new os = None" and "\<not> os_added os" and "l \<in> set (lr_granted (os_res os))"
    and "s = (if fl_start n < fl_start l then fl_start n else fl_start l)"
    and "e = (if fl_end n > fl_end l then fl_end n else fl_end l)"
  shows "own_merge l n os = Some (os\<lparr>os_st := (os_st os)\<lparr>fs_req := with_range s e (fs_req (os_st os)),
      fs_res := (os_res os)\<lparr>lr_granted := update_lock (l_ptr l) (with_range s e) (lr_granted (os_res os))\<rparr>\<rparr>,
      os_new := Some (l_ptr l), os_added := True\<rparr>)"
  using assms by (auto simp: own_merge_def Let_def ldlm_flock_range_update_def LASSERT_def find_lock_eq_None os_res_def)

lemma own_merge_more:
  assumes "os_new os = Some q" and "os_added os" and "lock_ok l" and "l_ptr l \<notin> l_ptr ` set (lr_waiting (os_res os))"
    and "find_lock q (remove_lock (l_ptr l) (lr_granted (os_res os))) \<noteq> None"
    and "s = (if fl_start n < fl_start l then fl_start n else fl_start l)"
    and "e = (if fl_end n > fl_end l then fl_end n else fl_end l)"
  shows "own_merge l n os = Some (os\<lparr>os_st := (os_st os)\<lparr>fs_res := (os_res os)\<lparr>lr_granted :=
      update_lock q (with_range s e) (remove_lock (l_ptr l) (lr_granted (os_res os)))\<rparr>\<rparr>\<rparr>)"
  using assms by (auto simp: own_merge_def Let_def ldlm_flock_range_update_def LASSERT_def ldlm_flock_destroy_def
    ldlm_resource_unlink_lock_def ldlm_flock_unlink_lock_def lock_ok_def os_res_def)

lemma loop_ok_merge:
  assumes ok: "loop_ok mode os0 (p # ps) os" and st: "start_ok os0" and n: "get_new os = Some n"
    and l: "l \<in> set (lr_granted (os_res os))" "l_ptr l = p" and mode: "l_granted_mode l = mode"
  shows "\<exists>os'. own_merge l n os = Some os' \<and> loop_ok mode os0 ps os' \<and> os_new2 os' = os_new2 os"
proof -
  note inv = loop_ok_D(1) [OF ok n] and added = loop_ok_D(2) [OF ok n] and fr = loop_ok_D(3) [OF ok n]
  note I = granted_inv_D [OF inv] and L = granted_inv_head [OF inv l]
  let ?s = "if fl_start n < fl_start l then fl_start n else fl_start l"
  let ?e = "if fl_end n > fl_end l then fl_end n else fl_end l"
  have se: "{?s..?e} = flock_range l \<union> flock_range n" "?s \<le> ?e"
    using hull_range [OF inv l mode] st unfolding start_ok_def by simp_all
  have nl: "mode \<noteq> LCK_NL" using lock_ok_mode [OF L(5)] mode by simp
  have pw: "p \<notin> l_ptr ` set (lr_waiting (os_res os))"
    using granted_not_waiting [OF st L(2) l(2)] fr by (simp add: loop_frame_def)
  have meet: "flock_range l \<inter> flock_range (with_range ?s ?e k) \<noteq> {}" for k
    using se(1) range_nonempty [OF L(5)] by auto
  show ?thesis
  proof (cases "os_new os")
    case None
    then have "\<not> os_added os" using added nl by simp
    note m = own_merge_first [OF None this l(1) refl refl, of n, unfolded l(2)]
    show ?thesis
      by (rule exI, intro conjI, rule m, rule loop_ok_step [OF inv l _ _ meet [of l]])
        (use granted_inv_merge_first [OF inv [unfolded None] l mode se] fr nl in
          \<open>simp_all add: os_res_def loop_frame_def split del: if_split\<close>)
  next
    case (Some q)
    then have q: "os_added os" "n \<in> set (lr_granted (os_res os))" "l_ptr n = q" "q \<noteq> p"
      using I(5) [OF Some] added by auto
    then have "find_lock q (remove_lock (l_ptr l) (lr_granted (os_res os))) \<noteq> None"
      using l(2) by (auto simp: find_lock_eq_None)
    note m = own_merge_more [OF Some q(1) L(5) _ this refl refl, of n, unfolded l(2), OF pw]
    show ?thesis
      by (rule exI, intro conjI, rule m, rule loop_ok_step [OF inv l _ _ meet [of n]])
        (use granted_inv_merge_more [OF inv [unfolded Some] l mode se] fr added Some nl in
          \<open>auto simp: os_res_def loop_frame_def image_subset_iff split del: if_split\<close>)
  qed
qed

lemma loop_ok_skip:
  assumes ok: "loop_ok mode os0 (p # ps) os" and n: "get_new os = Some n"
    and l: "l \<in> set (lr_granted (os_res os))" "l_ptr l = p" and dis: "flock_range l \<inter> flock_range n = {}"
  shows "loop_ok mode os0 ps os"
  using ok n granted_inv_skip [OF loop_ok_D(1) [OF ok n] l dis] unfolding loop_ok_def by auto

abbreviation reprocess_set :: "own_state \<Rightarrow> own_state" where
  "reprocess_set os \<equiv> set_res ((os_res os)\<lparr>lfn_needs_reprocess := True\<rparr>) os"

lemma own_trim_eq:
  assumes l: "l \<in> set (lr_granted (os_res os))" "lock_ok l" "l_ptr l \<notin> l_ptr ` set (lr_waiting (os_res os))"
  shows "own_trim l n (reprocess_set os) = Some (set_res ((os_res os)\<lparr>lfn_needs_reprocess := True,
      lr_granted := (if fl_start n \<le> fl_start l
        then if fl_end n < fl_end l then update_lock (l_ptr l) (with_range (fl_end n + 1) (fl_end l)) (lr_granted (os_res os))
             else remove_lock (l_ptr l) (lr_granted (os_res os))
        else update_lock (l_ptr l) (with_range (fl_start l) (fl_start n - 1)) (lr_granted (os_res os)))\<rparr>) os)"
  using assms by (auto simp: own_trim_def ldlm_flock_range_update_def LASSERT_def ldlm_flock_destroy_def set_res_def
    ldlm_resource_unlink_lock_def ldlm_flock_unlink_lock_def lock_ok_def os_res_def find_lock_eq_None)

text \<open>What trimming leaves is the range outside of the lock being granted.\<close>

lemma granted_inv_trimmed:
  assumes inv: "granted_inv mode r G0 (p # ps) G newp n" and l: "l \<in> set G" "l_ptr l = p"
    and mode: "l_granted_mode l \<noteq> mode" and ov: "ldlm_flocks_overlap l n"
    and out: "fl_start n \<le> fl_start l \<or> fl_end n \<ge> fl_end l"
  shows "granted_inv mode r G0 ps (if fl_start n \<le> fl_start l
        then if fl_end n < fl_end l then update_lock p (with_range (fl_end n + 1) (fl_end l)) G else remove_lock p G
        else update_lock p (with_range (fl_start l) (fl_start n - 1)) G) newp n"
proof -
  note I = granted_inv_D [OF inv] and L = granted_inv_head [OF inv l]
  consider (right) "fl_start n \<le> fl_start l" "fl_end n < fl_end l" | (all) "fl_start n \<le> fl_start l" "fl_end l \<le> fl_end n"
    | (left) "fl_start l < fl_start n" "fl_end l \<le> fl_end n"
    using out by fastforce
  then show ?thesis
  proof cases
    case right
    have "{fl_end n + 1 .. fl_end l} = {fl_start l .. fl_end l} - {.. fl_end n}"
      by (rule atLeast_add_one [OF _ right(2)]) (use ov in \<open>simp add: ldlm_flocks_overlap_def\<close>)
    also have "\<dots> = flock_range l - flock_range n" using right by (auto simp: flock_range_def)
    finally have "granted_inv mode r G0 ps (update_lock p (with_range (fl_end n + 1) (fl_end l)) G) newp n"
      by (rule granted_inv_trim [OF inv l _ _ mode])
        (use unat_add_one [OF right(2)] right(2) in \<open>simp add: word_le_nat_alt word_less_nat_alt\<close>)
    then show ?thesis using right by simp
  next
    case all
    then have "granted_inv mode r G0 ps (remove_lock p G) newp n"
      by (intro granted_inv_destroy [OF inv l _ mode]) (auto simp: flock_range_def)
    then show ?thesis using all by (simp add: leD)
  next
    case left
    have "{fl_start l .. fl_start n - 1} = {fl_start l ..< fl_start n}" by (rule atMost_minus_one [OF left(1)])
    also have "\<dots> = flock_range l - flock_range n"
      using left ov by (auto simp: flock_range_def ldlm_flocks_overlap_def)
    finally have "granted_inv mode r G0 ps (update_lock p (with_range (fl_start l) (fl_start n - 1)) G) newp n"
      by (rule granted_inv_trim [OF inv l _ _ mode])
        (use unat_minus_one [OF left(1)] left(1) in \<open>simp add: word_le_nat_alt word_less_nat_alt\<close>)
    then show ?thesis using left(1) by (simp add: not_le [symmetric])
  qed
qed

lemma loop_ok_trim:
  assumes ok: "loop_ok mode os0 (p # ps) os" and st: "start_ok os0" and n: "get_new os = Some n"
    and l: "l \<in> set (lr_granted (os_res os))" "l_ptr l = p" and mode: "l_granted_mode l \<noteq> mode"
    and ov: "ldlm_flocks_overlap l n" and out: "fl_start n \<le> fl_start l \<or> fl_end n \<ge> fl_end l"
  shows "\<exists>os'. own_trim l n (reprocess_set os) = Some os' \<and> loop_ok mode os0 ps os' \<and> os_new2 os' = os_new2 os"
proof -
  note inv = loop_ok_D(1) [OF ok n] and added = loop_ok_D(2) [OF ok n] and fr = loop_ok_D(3) [OF ok n]
  note L = granted_inv_head [OF inv l]
  have pw: "p \<notin> l_ptr ` set (lr_waiting (os_res os))"
    using granted_not_waiting [OF st L(2) l(2)] fr by (simp add: loop_frame_def)
  have meet: "flock_range l \<inter> flock_range n \<noteq> {}"
    using ov overlap_iff [of l n] L(5) granted_inv_D(4) [OF inv] by (simp add: lock_ok_def)
  have new: "os_new os = None \<Longrightarrow> n = fs_req (os_st os)" using n by (simp add: get_new_def)
  note t = own_trim_eq [OF l(1) L(5), of n, unfolded l(2), OF pw]
  show ?thesis
    by (rule exI, intro conjI, rule t, rule loop_ok_step [OF inv l _ _ meet])
      (use granted_inv_trimmed [OF inv l mode ov out] new added fr in
        \<open>auto simp: set_res_def os_res_def loop_frame_def split: if_split_asm\<close>)
qed

text \<open>When a lock contains the one being granted, the loop has not changed anything yet.\<close>

lemma contained_unchanged:
  assumes ok: "loop_ok mode os0 (p # ps) os" and st: "start_ok os0" and n: "get_new os = Some n"
    and l: "l \<in> set (lr_granted (os_res os))" "l_ptr l = p" and sub: "flock_range n \<subseteq> flock_range l"
  shows "os = os0"
proof (rule ccontr)
  note inv = loop_ok_D(1) [OF ok n]
  note L = granted_inv_head [OF inv l]
  assume "os \<noteq> os0"
  then obtain k where k: "k \<in> set (lr_granted (os_res os0))" "flock_owner_of k = flock_owner_of (fs_req (os_st os0))"
      "l_ptr k \<notin> set (p # ps)" "flock_range k \<inter> flock_range n \<noteq> {}"
    using ok n unfolding loop_ok_def by auto
  have "k \<noteq> l" using k(3) l(2) by auto
  then have "flock_range k \<inter> flock_range l = {}"
    using st k(1,2) L(1,2) unfolding start_ok_def own_disjoint_def by metis
  then show False using k(4) sub by blast
qed

lemma own_split_eq:
  assumes "l \<in> set (lr_granted (os_res os))" "l_req_mode n2 = l_granted_mode l"
    "l_ptr n2 \<notin> l_ptr ` set (lr_granted (os_res os))" "l_ptr n2 \<notin> l_ptr ` set (lr_waiting (os_res os))"
    "n2' = n2\<lparr>l_granted_mode := l_granted_mode l, fl_pid := fl_pid n, fl_owner := fl_owner n,
                     fl_start := fl_start l, fl_end := fl_start n - 1, l_export := l_export l\<rparr>"
  shows "own_split l n n2 (reprocess_set os) = Some ((set_res ((os_res os)\<lparr>lfn_needs_reprocess := True,
      lr_granted := update_lock (l_ptr l) (with_range (fl_end n + 1) (fl_end l)) (lr_granted (os_res os)) @ [n2']\<rparr>) os)
      \<lparr>os_new2 := Some n2', os_splitted := True\<rparr>)"
  using assms by (auto simp: own_split_def Let_def ldlm_flock_range_update_def LASSERT_def ldlm_flock_add_lock_def
    ldlm_resource_add_granted_def ldlm_is_granted_def os_res_def set_res_def find_lock_eq_None)

lemma loop_ok_split:
  assumes ok: "loop_ok mode os0 (p # ps) os" and st: "start_ok os0" and n: "get_new os = Some n"
    and l: "l \<in> set (lr_granted (os_res os))" "l_ptr l = p" and mode: "l_granted_mode l \<noteq> mode"
    and inside: "fl_start l < fl_start n" "fl_end n < fl_end l"
    and n2: "l_req_mode n2 = l_granted_mode l" "l_ptr n2 \<notin> l_ptr ` set (lr_granted (os_res os))"
      "l_ptr n2 \<notin> l_ptr ` set (lr_waiting (os_res os))" "\<not> l_exp_flock_hash n2" "\<not> l_ast_data n2"
      "os_new2 os0 = Some n2"
  shows "\<exists>os'. own_split l n n2 (reprocess_set os) = Some os' \<and> loop_ok mode os0 [] os'"
proof -
  note inv = loop_ok_D(1) [OF ok n] and added = loop_ok_D(2) [OF ok n] and fr = loop_ok_D(3) [OF ok n]
  note L = granted_inv_head [OF inv l] and I = granted_inv_D [OF inv]
  have meet: "flock_range l \<inter> flock_range n \<noteq> {}"
    using inside I(4) by (auto simp: flock_range_def)
  have new: "os_new os = None \<Longrightarrow> n = fs_req (os_st os)" using n by (simp add: get_new_def)
  have "flock_range n \<subseteq> flock_range l" using inside by (auto simp: flock_range_def)
  note c = granted_inv_contained [OF inv l this]
  let ?n2 = "n2\<lparr>l_granted_mode := l_granted_mode l, fl_pid := fl_pid n, fl_owner := fl_owner n,
                 fl_start := fl_start l, fl_end := fl_start n - 1, l_export := l_export l\<rparr>"
  have "fl_start l \<le> fl_start n - 1"
    using unat_minus_one [OF inside(1)] inside(1) by (simp add: word_le_nat_alt word_less_nat_alt)
  then have "granted_inv mode (fs_req (os_st os0)) (lr_granted (os_res os0)) []
      (update_lock p (with_range (fl_end n + 1) (fl_end l)) (lr_granted (os_res os)) @ [?n2]) (os_new os) n"
    by (intro granted_inv_split [OF inv l inside mode])
      (use n2 L(1,5) I(3) in \<open>auto simp: flock_range_def lock_ok_def flock_owner_of_def\<close>)
  note g = this
  note t = own_split_eq [OF l(1) n2(1-3) refl, of n, unfolded l(2)]
  show ?thesis
    by (rule exI, intro conjI, rule t, rule loop_ok_step [OF c l _ _ meet])
      (use g new added fr n2(6) in \<open>auto simp: set_res_def os_res_def loop_frame_def\<close>)
qed

text \<open>
  A lock that is there to be split is usable: it is of the mode of the own lock that contains the request, and it is new.
\<close>

definition new2_ok :: "own_state \<Rightarrow> ldlm_lock \<Rightarrow> bool" where
  "new2_ok os n2 \<longleftrightarrow> l_ptr n2 \<notin> l_ptr ` set (lr_granted (os_res os)) \<and> l_ptr n2 \<notin> l_ptr ` set (lr_waiting (os_res os)) \<and>
     \<not> l_exp_flock_hash n2 \<and> \<not> l_ast_data n2 \<and>
     (\<forall>l\<in>set (lr_granted (os_res os)). flock_owner_of l = flock_owner_of (fs_req (os_st os)) \<longrightarrow>
        flock_range (fs_req (os_st os)) \<subseteq> flock_range l \<longrightarrow> l_req_mode n2 = l_granted_mode l)"

lemma own_loop_split:
  assumes ok: "loop_ok mode os0 (p # ps) os" and "os_new2 os = os_new2 os0" and st: "start_ok os0"
    and n2: "\<And>n2. os_new2 os0 = Some n2 \<Longrightarrow> new2_ok os0 n2" and n: "get_new os = Some n"
    and l: "l \<in> set (lr_granted (os_res os))" "l_ptr l = p" and mode: "l_granted_mode l \<noteq> mode"
    and ov: "ldlm_flocks_overlap l n" and inside: "fl_start l < fl_start n" "fl_end n < fl_end l"
  shows "(\<exists>os'. flock_own_loop mode (p # ps) os = Some (Own_Done os') \<and> loop_ok mode os0 [] os') \<or>
    (os_new2 os0 = None \<and> (\<exists>l\<in>set (lr_granted (os_res os0)). flock_owner_of l = flock_owner_of (fs_req (os_st os0)) \<and>
       fl_start l < fl_start (fs_req (os_st os0)) \<and> fl_end (fs_req (os_st os0)) < fl_end l \<and> l_granted_mode l \<noteq> mode \<and>
       flock_own_loop mode (p # ps) os = Some (Own_Restart (reprocess_set os0) (l_granted_mode l))))"
proof -
  note inv = loop_ok_D(1) [OF ok n]
  note I = granted_inv_D [OF inv] and L = granted_inv_head [OF inv l]
  have sub: "flock_range n \<subseteq> flock_range l" using inside by (auto simp: flock_range_def)
  have os: "os = os0" by (rule contained_unchanged [OF ok st n l sub])
  have rsub: "flock_range (fs_req (os_st os0)) \<subseteq> flock_range l" using own_inv_request [OF I(6)] sub by blast
  have strict: "fl_start l < fl_start (fs_req (os_st os0))" "fl_end (fs_req (os_st os0)) < fl_end l"
    using own_inv_request [OF I(6)] inside st unfolding start_ok_def flock_range_def by auto
  have f: "find_lock p (lr_granted (os_res os)) = Some l" using l I(1) by (simp add: find_lock_eq_Some)
  have c: "\<not> l_ast_data l" "\<not> (fl_start n \<le> fl_start l \<or> fl_end l \<le> fl_end n)" "os_new2 (reprocess_set os) = os_new2 os"
    using L(5) inside by (auto simp: lock_ok_def set_res_def)
  show ?thesis
  proof (cases "os_new2 os0")
    case None
    then show ?thesis
      using os strict L(1) l(1) f n mode ov c by (auto simp: Let_def simp del: de_Morgan_disj)
  next
    case (Some n2)
    have k: "new2_ok os0 n2" by (rule n2 [OF Some])
    have "\<exists>os'. own_split l n n2 (reprocess_set os) = Some os' \<and> loop_ok mode os0 [] os'"
      by (rule loop_ok_split [OF ok st n l mode inside]) (use k os rsub L(1) l(1) Some in \<open>auto simp: new2_ok_def\<close>)
    then show ?thesis
      using os Some f n mode ov c by (auto simp: Let_def simp del: de_Morgan_disj)
  qed
qed

text \<open>The loop ends without a violated assertion, or it asks for a lock to split with before it has changed anything.\<close>

lemma flock_own_loop_ok:
  assumes "loop_ok mode os0 ps os" and st: "start_ok os0" and "os_new2 os = os_new2 os0"
    and n2: "\<And>n2. os_new2 os0 = Some n2 \<Longrightarrow> new2_ok os0 n2"
  shows "(\<exists>os'. flock_own_loop mode ps os = Some (Own_Done os') \<and> loop_ok mode os0 [] os') \<or>
    (os_new2 os0 = None \<and> (\<exists>l\<in>set (lr_granted (os_res os0)). flock_owner_of l = flock_owner_of (fs_req (os_st os0)) \<and>
       fl_start l < fl_start (fs_req (os_st os0)) \<and> fl_end (fs_req (os_st os0)) < fl_end l \<and> l_granted_mode l \<noteq> mode \<and>
       flock_own_loop mode ps os = Some (Own_Restart (reprocess_set os0) (l_granted_mode l))))"
  using assms(1,3)
proof (induction ps arbitrary: os)
  case Nil
  then show ?case by simp
next
  case (Cons p ps)
  obtain n where n: "get_new os = Some n" using Cons.prems(1) unfolding loop_ok_def by auto
  note inv = loop_ok_D(1) [OF Cons.prems(1) n]
  note I = granted_inv_D [OF inv]
  obtain l where l: "l \<in> set (lr_granted (os_res os))" "l_ptr l = p" using I(9) [of p] by auto
  note L = granted_inv_head [OF inv l]
  have f: "find_lock p (lr_granted (os_res os)) = Some l" using l I(1) by (simp add: find_lock_eq_Some)
  have na: "\<not> l_ast_data l" using L(5) by (simp add: lock_ok_def)
  show ?case
  proof (cases "l_granted_mode l = mode")
    case True
    obtain os' where "own_merge l n os = Some os'" "loop_ok mode os0 ps os'" "os_new2 os' = os_new2 os"
      using loop_ok_merge [OF Cons.prems(1) st n l True] by auto
    then show ?thesis using Cons.IH [of os'] Cons.prems(2) True by (simp add: f n na)
  next
    case mode: False
    consider (skip) "\<not> ldlm_flocks_overlap l n"
      | (trim) "ldlm_flocks_overlap l n" "fl_start n \<le> fl_start l \<or> fl_end n \<ge> fl_end l"
      | (split) "ldlm_flocks_overlap l n" "fl_start l < fl_start n" "fl_end n < fl_end l"
      by fastforce
    then show ?thesis
    proof cases
      case skip
      then have "loop_ok mode os0 ps os"
        by (intro loop_ok_skip [OF Cons.prems(1) n l]) (use overlap_iff [of l n] L(5) I(4) in \<open>simp add: lock_ok_def\<close>)
      then show ?thesis using Cons.IH [of os] Cons.prems(2) skip mode by (simp add: f n na)
    next
      case trim
      obtain os' where "own_trim l n (reprocess_set os) = Some os'" "loop_ok mode os0 ps os'" "os_new2 os' = os_new2 os"
        using loop_ok_trim [OF Cons.prems(1) st n l mode trim] by auto
      then show ?thesis using Cons.IH [of os'] Cons.prems(2) trim mode by (simp add: f n na Let_def)
    next
      case split
      show ?thesis
        using own_loop_split [OF Cons.prems st n2 n l mode split] .
    qed
  qed
qed

end
