(* ===== verification/Ldlm_Flock_Correct.thy ===== *)
theory Ldlm_Flock_Correct
  imports Ldlm_Flock_Loop
begin

text \<open>
  The whole policy function on a resource that satisfies \<open>flock_ok\<close>: the pass over the granted locks, the second pass of a split,
  and the bytes that every owner holds after a grant.
\<close>

section \<open>What a grant does to the bytes\<close>

text \<open>The bytes of POSIX: the owner holds the requested bytes in the requested mode, and nothing else changes.\<close>

definition posix_grant ::
  "ldlm_lock \<Rightarrow> (nat option \<times> u64 \<Rightarrow> u64 \<Rightarrow> ldlm_mode \<Rightarrow> bool) \<Rightarrow> nat option \<times> u64 \<Rightarrow> u64 \<Rightarrow> ldlm_mode \<Rightarrow> bool" where
  "posix_grant req H own x m \<longleftrightarrow>
     (if own = flock_owner_of req \<and> x \<in> flock_range req then m = l_req_mode req \<and> m \<noteq> LCK_NL else H own x m)"

lemma holds_foreign:
  "own \<noteq> own' \<Longrightarrow> foreign own' G = foreign own' G0 \<Longrightarrow> flock_holds G own x m \<longleftrightarrow> flock_holds G0 own x m"
proof -
  assume a: "own \<noteq> own'" "foreign own' G = foreign own' G0"
  have "l \<in> set G \<longleftrightarrow> l \<in> set G0" if "flock_owner_of l = own" for l
    using a that unfolding foreign_def by blast
  then show ?thesis unfolding flock_holds_def by metis
qed

lemma holds_no_NL: "\<forall>l\<in>set G. lock_ok l \<Longrightarrow> \<not> flock_holds G own x LCK_NL"
  using lock_ok_mode by (auto simp: flock_holds_def)

lemma holds_append [simp]:
  "flock_holds (G @ [k]) own x m \<longleftrightarrow>
     flock_holds G own x m \<or> flock_owner_of k = own \<and> x \<in> flock_range k \<and> l_granted_mode k = m"
  by (auto simp: flock_holds_def)

lemma holds_own_rest:
  "flock_holds G own x m \<longleftrightarrow>
     (\<exists>l\<in>own_rest own newp G. x \<in> flock_range l \<and> l_granted_mode l = m) \<or>
     (\<exists>l\<in>set G. newp = Some (l_ptr l) \<and> flock_owner_of l = own \<and> x \<in> flock_range l \<and> l_granted_mode l = m)"
  by (auto simp: flock_holds_def own_rest_def)

text \<open>The end of the loop: the lock \<open>n\<close> that is being granted, in the list or added to it, makes the owner hold the right bytes.\<close>

lemma own_inv_end:
  assumes inv: "own_inv mode T H {} R N" and single: "\<And>m m'. H x m \<Longrightarrow> H x m' \<Longrightarrow> m = m'"
  shows "(\<exists>l\<in>R. x \<in> flock_range l \<and> l_granted_mode l = m) \<or> x \<in> N \<and> mode = m
    \<longleftrightarrow> (if x \<in> T then mode = m else H x m)"
proof (cases "x \<in> N")
  case True
  then have "\<not> (\<exists>l\<in>R. x \<in> flock_range l)" using own_inv_visited [OF inv] by fastforce
  moreover have "x \<in> T \<or> H x mode" by (rule own_inv_new [OF inv True])
  ultimately show ?thesis using True single by auto
next
  case False
  then show ?thesis using own_inv_holds [OF inv False] own_inv_request [OF inv] by auto
qed

lemma holds_function:
  assumes "own_disjoint G" and "flock_holds G own x m" and "flock_holds G own x m'"
  shows "m = m'"
  using assms unfolding flock_holds_def own_disjoint_def by (metis IntI empty_iff)

lemma own_inv_end_holds:
  assumes inv: "own_inv mode T (flock_holds G own) {} R N" and d: "own_disjoint G"
  shows "(\<exists>l\<in>R. x \<in> flock_range l \<and> l_granted_mode l = m) \<or> x \<in> N \<and> mode = m
    \<longleftrightarrow> (if x \<in> T then mode = m else flock_holds G own x m)"
  by (rule own_inv_end [OF inv]) (rule holds_function [OF d])

lemma holds_end_new:
  assumes inv: "granted_inv mode r G0 [] G newp n" and d: "own_disjoint G0" and mode: "mode \<noteq> LCK_NL" "l_req_mode r = mode"
    and new: "newp = Some q \<and> G' = G \<or> newp = None \<and> G' = G @ [n'] \<and> flock_owner_of n' = flock_owner_of n \<and>
      flock_range n' = flock_range n \<and> l_granted_mode n' = mode"
  shows "flock_holds G' own x m \<longleftrightarrow> posix_grant r (flock_holds G0) own x m"
proof -
  note I = granted_inv_D [OF inv]
  have n: "(\<exists>l\<in>set G. newp = Some (l_ptr l) \<and> flock_owner_of l = flock_owner_of r \<and> x \<in> flock_range l \<and> l_granted_mode l = m) \<longleftrightarrow>
      newp \<noteq> None \<and> x \<in> flock_range n \<and> mode = m" (is "?L \<longleftrightarrow> _")
  proof (cases newp)
    case (Some p)
    have nn: "n \<in> set G" "l_ptr n = p" "l_granted_mode n = mode" using I(5) [OF Some] by simp_all
    have "l = n" if "l \<in> set G" "l_ptr l = p" for l
      by (rule same_ptr [OF I(1) that(1) nn(1)]) (simp add: that nn)
    then have "?L \<longleftrightarrow> flock_owner_of n = flock_owner_of r \<and> x \<in> flock_range n \<and> l_granted_mode n = m"
      unfolding Some option.inject using nn(1,2) by blast
    then show ?thesis unfolding Some nn(3) using I(3) by simp
  qed simp
  have own: "flock_holds G' (flock_owner_of r) x m \<longleftrightarrow>
      (\<exists>l\<in>own_rest (flock_owner_of r) newp G. x \<in> flock_range l \<and> l_granted_mode l = m) \<or> x \<in> flock_range n \<and> mode = m"
    using new n I(3) holds_own_rest [of G "flock_owner_of r" x m newp] by auto
  have other: "flock_holds G' own x m \<longleftrightarrow> flock_holds G0 own x m" if "own \<noteq> flock_owner_of r"
    using new holds_foreign [OF that I(7)] that I(3) by auto
  have "own_inv mode (flock_range r) (flock_holds G0 (flock_owner_of r)) {}
      (own_rest (flock_owner_of r) newp G) (flock_range n)"
    using I(6) by simp
  note e = own_inv_end_holds [OF this d, of x m]
  show ?thesis
  proof (cases "own = flock_owner_of r")
    case True
    then show ?thesis unfolding True own e using mode by (auto simp: posix_grant_def)
  next
    case False
    then show ?thesis using other by (simp add: posix_grant_def)
  qed
qed

lemma holds_end_NL:
  assumes inv: "granted_inv LCK_NL r G0 [] G newp n" and d: "own_disjoint G0" and ok: "\<forall>l\<in>set G0. lock_ok l"
    and mode: "l_req_mode r = LCK_NL"
  shows "flock_holds G own x m \<longleftrightarrow> posix_grant r (flock_holds G0) own x m"
proof -
  note I = granted_inv_D [OF inv]
  have none: "newp = None" using I(2,5) lock_ok_mode by (cases newp) blast+
  have other: "flock_holds G own x m \<longleftrightarrow> flock_holds G0 own x m" if "own \<noteq> flock_owner_of r"
    by (rule holds_foreign [OF that I(7)])
  have "own_inv LCK_NL (flock_range r) (flock_holds G0 (flock_owner_of r)) {}
      (own_rest (flock_owner_of r) newp G) (flock_range n)"
    using I(6) by simp
  note e = own_inv_end_holds [OF this d, of x m]
  have no: "\<not> flock_holds G (flock_owner_of r) x LCK_NL" "\<not> flock_holds G0 (flock_owner_of r) x LCK_NL"
    using I(2) ok by (intro holds_no_NL; blast)+
  have own: "flock_holds G (flock_owner_of r) x m \<longleftrightarrow>
      (\<exists>l\<in>own_rest (flock_owner_of r) newp G. x \<in> flock_range l \<and> l_granted_mode l = m)"
    using holds_own_rest [of G "flock_owner_of r" x m newp] none by simp
  show ?thesis
  proof (cases "own = flock_owner_of r")
    case True
    show ?thesis
      unfolding True using own e no mode by (cases "m = LCK_NL") (auto simp: posix_grant_def split: if_splits)
  next
    case False
    then show ?thesis using other by (simp add: posix_grant_def)
  qed
qed

section \<open>Resources stay well-formed\<close>

definition flock_ok :: "ldlm_resource \<Rightarrow> bool" where
  "flock_ok res \<longleftrightarrow>
     distinct (map l_ptr (lr_granted res @ lr_waiting res)) \<and>
     (\<forall>l\<in>set (lr_granted res). lock_ok l) \<and> own_disjoint (lr_granted res) \<and>
     (\<forall>l\<in>set (lr_waiting res). l_req_mode l \<in> {LCK_PR, LCK_PW} \<and> l_granted_mode l = LCK_MODE_MIN)"

lemma own_inv_end_disjoint:
  assumes inv: "granted_inv mode r G0 [] G newp n" and "l \<in> set G" "l' \<in> set G" "l \<noteq> l'"
    "flock_owner_of l = flock_owner_of r" "flock_owner_of l' = flock_owner_of r"
  shows "flock_range l \<inter> flock_range l' = {}"
proof -
  note I = granted_inv_D [OF inv]
  have new: "k = n" if "k \<in> set G" "newp = Some (l_ptr k)" for k
    using I(5) [OF that(2)] same_ptr [OF I(1) that(1), of n] by simp
  have vis: "flock_range k \<inter> flock_range n = {}" if "k \<in> own_rest (flock_owner_of r) newp G" for k
    by (rule own_inv_visited [OF I(6) that]) simp
  have rest: "k \<in> own_rest (flock_owner_of r) newp G" if "k \<in> {l, l'}" "newp \<noteq> Some (l_ptr k)" for k
    using that assms by (auto simp: own_rest_def)
  consider "newp = Some (l_ptr l)" | "newp = Some (l_ptr l')" | "newp \<noteq> Some (l_ptr l)" "newp \<noteq> Some (l_ptr l')" by blast
  then show ?thesis
  proof cases
    case 1
    then have "l = n" "newp \<noteq> Some (l_ptr l')" using new assms(2,3,4) by blast+
    then show ?thesis using vis [OF rest, of l'] by auto
  next
    case 2
    then have "l' = n" "newp \<noteq> Some (l_ptr l)" using new assms(2,3,4) by blast+
    then show ?thesis using vis [OF rest, of l] by auto
  next
    case 3
    show ?thesis by (rule own_inv_disjoint [OF I(6) rest rest assms(4)]) (use 3 in auto)
  qed
qed

lemma own_disjoint_end:
  assumes inv: "granted_inv mode r G0 [] G newp n" and d: "own_disjoint G0"
  shows "own_disjoint G"
  unfolding own_disjoint_def
proof (intro ballI impI)
  fix l l' assume l: "l \<in> set G" "l' \<in> set G" "l \<noteq> l'" "flock_owner_of l = flock_owner_of l'"
  show "flock_range l \<inter> flock_range l' = {}"
  proof (cases "flock_owner_of l = flock_owner_of r")
    case True
    then show ?thesis using own_inv_end_disjoint [OF inv l(1-3)] l(4) by simp
  next
    case False
    then have "l \<in> foreign (flock_owner_of r) G" "l' \<in> foreign (flock_owner_of r) G"
      using l by (auto simp: foreign_def)
    then have "l \<in> set G0" "l' \<in> set G0" unfolding granted_inv_D(7) [OF inv] by (auto simp: foreign_def)
    then show ?thesis using d l(3,4) unfolding own_disjoint_def by blast
  qed
qed

lemma own_disjoint_append:
  assumes inv: "granted_inv mode r G0 [] G None n" and d: "own_disjoint G0"
    and n': "flock_owner_of n' = flock_owner_of n" "flock_range n' = flock_range n"
  shows "own_disjoint (G @ [n'])"
proof -
  note I = granted_inv_D [OF inv]
  have dis: "flock_range l \<inter> flock_range n' = {}" if "l \<in> set G" "flock_owner_of l = flock_owner_of n'" for l
    unfolding n'(2) by (rule own_inv_visited [OF I(6)]) (use that n'(1) I(3) in \<open>auto simp: own_rest_def\<close>)
  have "own_disjoint G" by (rule own_disjoint_end [OF inv d])
  then show ?thesis
    using dis unfolding own_disjoint_def set_append list.set by (metis Int_commute Un_iff empty_iff insert_iff)
qed

section \<open>The scan\<close>

text \<open>The interval tree of the kernel visits each lock of the range once.\<close>

definition iter_ok :: "(ldlm_lock list \<Rightarrow> u64 \<Rightarrow> u64 \<Rightarrow> ldlm_lock list) \<Rightarrow> bool" where
  "iter_ok iter \<longleftrightarrow> (\<forall>G s e. distinct (map l_ptr G) \<longrightarrow>
     distinct (map l_ptr (iter G s e)) \<and> set (iter G s e) = {l \<in> set G. fl_start l \<le> e \<and> s \<le> fl_end l})"

text \<open>No lock of another owner conflicts with the request.\<close>

definition flock_compat :: "ldlm_lock \<Rightarrow> ldlm_lock list \<Rightarrow> bool" where
  "flock_compat req G \<longleftrightarrow> (\<forall>l\<in>set G. flock_owner_of l \<noteq> flock_owner_of req \<longrightarrow> ldlm_flocks_overlap l req \<longrightarrow>
     lockmode_compat (l_granted_mode l) (l_req_mode req))"

lemma flock_scan_compat:
  "flock_compat req locks \<Longrightarrow> flock_scan req (l_req_mode req) own locks =
     Inr (own @ map l_ptr (filter (\<lambda>l. flock_owner_of l = flock_owner_of req) locks))"
  by (induction locks arbitrary: own) (auto simp: flock_compat_def)

lemma flock_scan_conflict:
  "\<not> flock_compat req locks \<Longrightarrow> \<exists>l\<in>set locks. flock_scan req (l_req_mode req) own locks = Inl l \<and>
     flock_owner_of l \<noteq> flock_owner_of req \<and> ldlm_flocks_overlap l req \<and>
     \<not> lockmode_compat (l_granted_mode l) (l_req_mode req)"
proof (induction locks arbitrary: own)
  case (Cons l locks)
  then show ?case
    by (cases "flock_compat req locks") (auto simp: flock_compat_def)
qed (simp add: flock_compat_def)

text \<open>A range that covers the request.\<close>

definition covers :: "u64 \<times> u64 \<Rightarrow> ldlm_lock \<Rightarrow> bool" where
  "covers se req \<longleftrightarrow> fst se \<le> fl_start req \<and> fl_end req \<le> snd se"

lemma iter_compat:
  assumes "iter_ok iter" and "distinct (map l_ptr G)" and "covers se req"
  shows "flock_compat req (iter G (fst se) (snd se)) \<longleftrightarrow> flock_compat req G"
  using assms by (fastforce simp: iter_ok_def flock_compat_def covers_def ldlm_flocks_overlap_def)

text \<open>The own locks of the request's mode in the range overlap or adjoin the request.\<close>

definition near :: "u64 \<times> u64 \<Rightarrow> ldlm_lock \<Rightarrow> ldlm_lock list \<Rightarrow> bool" where
  "near se req G \<longleftrightarrow> (\<forall>l\<in>set G. flock_owner_of l = flock_owner_of req \<longrightarrow> l_granted_mode l = l_req_mode req \<longrightarrow>
     fl_start l \<le> snd se \<longrightarrow> fst se \<le> fl_end l \<longrightarrow> flock_touch l req)"

lemma granted_inv_start:
  assumes it: "iter_ok iter" and G: "distinct (map l_ptr G)" "\<forall>l\<in>set G. lock_ok l" "own_disjoint G"
    and r: "fl_start r \<le> fl_end r" "covers se r" "near se r G"
    and ps: "ps = map l_ptr (filter (\<lambda>l. flock_owner_of l = flock_owner_of r) (iter G (fst se) (snd se)))"
  shows "granted_inv (l_req_mode r) r G ps G None r"
proof -
  have I: "distinct (map l_ptr (iter G (fst se) (snd se)))"
    "set (iter G (fst se) (snd se)) = {l \<in> set G. fl_start l \<le> snd se \<and> fst se \<le> fl_end l}"
    using it G(1) unfolding iter_ok_def by blast+
  have vis: "flock_range l \<inter> flock_range r = {}" if "l \<in> set G" "flock_owner_of l = flock_owner_of r" "l_ptr l \<notin> set ps" for l
  proof -
    have "l \<notin> set (iter G (fst se) (snd se))" using that(2,3) unfolding ps by auto
    then show ?thesis using that(1) r(2) unfolding I(2) covers_def flock_range_def by fastforce
  qed
  have "own_inv (l_req_mode r) (flock_range r) (flock_holds G (flock_owner_of r)) (set ps)
      (own_rest (flock_owner_of r) None G) (flock_range r)"
    unfolding own_inv_def
  proof (intro conjI)
    show "inj_on l_ptr (own_rest (flock_owner_of r) None G)"
      using G(1) by (auto simp: distinct_map own_rest_def intro: inj_on_subset)
    show "\<forall>l\<in>own_rest (flock_owner_of r) None G. \<forall>l'\<in>own_rest (flock_owner_of r) None G.
        l \<noteq> l' \<longrightarrow> flock_range l \<inter> flock_range l' = {}"
      using G(3) unfolding own_disjoint_def own_rest_def by simp
  qed (use vis in \<open>auto simp: own_rest_def flock_holds_def\<close>)
  moreover have "\<forall>p\<in>set ps. \<exists>l\<in>set G \<inter> set G. l_ptr l = p \<and> flock_owner_of l = flock_owner_of r \<and>
      (l_granted_mode l = l_req_mode r \<longrightarrow> flock_touch l r)"
    using r(3) unfolding ps near_def by (auto simp: I(2))
  moreover have "distinct ps" using I(1) unfolding ps by (simp add: distinct_map_filter)
  ultimately show ?thesis
    unfolding granted_inv_def using G(1,2) r(1) by simp
qed

end
