(* ===== verification/Ldlm_Flock_Process.thy ===== *)
theory Ldlm_Flock_Process
  imports Ldlm_Flock_Correct
begin

text \<open>
  \<^verbatim>\<open>ldlm_process_flock_lock\<close> from its first line to its last one: what a request that meets no conflict is granted, that no assertion
  is violated on the way, and what happens to a request that conflicts.
\<close>

section \<open>Widening\<close>

lemma widen_bounds:
  "unat (fst se) \<le> unat (fst (flock_widen flags mode se)) + 1" "fst (flock_widen flags mode se) \<le> fst se"
  "unat (snd (flock_widen flags mode se)) \<le> unat (snd se) + 1" "snd se \<le> snd (flock_widen flags mode se)"
proof -
  have "snd se < OBD_OBJECT_EOF \<Longrightarrow> unat (snd se + 1) = Suc (unat (snd se))" by (rule unat_add_one)
  moreover have "0 < fst se \<Longrightarrow> Suc (unat (fst se - 1)) = unat (fst se)" by (rule unat_minus_one)
  ultimately show
    "unat (fst se) \<le> unat (fst (flock_widen flags mode se)) + 1" "fst (flock_widen flags mode se) \<le> fst se"
    "unat (snd (flock_widen flags mode se)) \<le> unat (snd se) + 1" "snd se \<le> snd (flock_widen flags mode se)"
    by (auto simp: flock_widen_def word_le_nat_alt)
qed

lemma widen_covers: "covers se req \<Longrightarrow> covers (flock_widen flags mode se) req"
  using widen_bounds(2,4) [where se = se and flags = flags and mode = mode] by (auto simp: covers_def intro: order.trans)

lemma widen_near: "near (flock_widen flags mode (fl_start req, fl_end req)) req G"
  using widen_bounds(1,3) [where se = "(fl_start req, fl_end req)" and flags = flags and mode = mode]
  by (auto simp: near_def flock_touch_def word_le_nat_alt)

text \<open>
  A split looks at the granted locks twice, the second time in a range that is two bytes wider than the request on each side.
  An own lock of the requested mode that is exactly one byte away from the request is in that range.
\<close>

definition flock_gap_free :: "ldlm_lock \<Rightarrow> ldlm_lock list \<Rightarrow> bool" where
  "flock_gap_free req G \<longleftrightarrow> (\<forall>l\<in>set G. flock_owner_of l = flock_owner_of req \<longrightarrow> l_granted_mode l = l_req_mode req \<longrightarrow>
     unat (fl_end l) + 2 \<noteq> unat (fl_start req) \<and> unat (fl_end req) + 2 \<noteq> unat (fl_start l))"

definition flock_splits :: "ldlm_lock \<Rightarrow> ldlm_lock list \<Rightarrow> bool" where
  "flock_splits req G \<longleftrightarrow> (\<exists>l\<in>set G. flock_owner_of l = flock_owner_of req \<and> l_granted_mode l \<noteq> l_req_mode req \<and>
     fl_start l < fl_start req \<and> fl_end req < fl_end l)"

lemma widen_twice_near:
  assumes "flock_gap_free req G" and "se = flock_widen flags mode (fl_start req, fl_end req)"
  shows "near (flock_widen flags mode se) req G"
  unfolding near_def
proof (intro ballI impI)
  fix l assume l: "l \<in> set G" "flock_owner_of l = flock_owner_of req" "l_granted_mode l = l_req_mode req"
    "fl_start l \<le> snd (flock_widen flags mode se)" "fst (flock_widen flags mode se) \<le> fl_end l"
  have "unat (fl_start l) \<le> unat (fl_end req) + 2" "unat (fl_start req) \<le> unat (fl_end l) + 2"
    using l(4,5) widen_bounds(1,3) [where se = se and flags = flags and mode = mode] widen_bounds(1,3) [where se = "(fl_start req, fl_end req)" and flags = flags and mode = mode]
    unfolding assms(2) by (simp_all add: word_le_nat_alt)
  moreover have "unat (fl_end l) + 2 \<noteq> unat (fl_start req)" "unat (fl_end req) + 2 \<noteq> unat (fl_start l)"
    using assms(1) l(1-3) unfolding flock_gap_free_def by blast+
  ultimately show "flock_touch l req" unfolding flock_touch_def by linarith
qed

section \<open>Passes\<close>

lemma unlink_simps [simp]:
  "fl_start (ldlm_flock_blocking_unlink req) = fl_start req" "fl_end (ldlm_flock_blocking_unlink req) = fl_end req"
  "fl_owner (ldlm_flock_blocking_unlink req) = fl_owner req" "l_export (ldlm_flock_blocking_unlink req) = l_export req"
  "l_req_mode (ldlm_flock_blocking_unlink req) = l_req_mode req" "l_ptr (ldlm_flock_blocking_unlink req) = l_ptr req"
  "l_granted_mode (ldlm_flock_blocking_unlink req) = l_granted_mode req" "l_flags (ldlm_flock_blocking_unlink req) = l_flags req"
  "l_ast_data (ldlm_flock_blocking_unlink req) = l_ast_data req"
  "l_completion_ast (ldlm_flock_blocking_unlink req) = l_completion_ast req"
  "flock_owner_of (ldlm_flock_blocking_unlink req) = flock_owner_of req"
  "flock_range (ldlm_flock_blocking_unlink req) = flock_range req"
  "ldlm_flock_blocking_unlink (ldlm_flock_blocking_unlink req) = ldlm_flock_blocking_unlink req"
  by (auto simp: ldlm_flock_blocking_unlink_def ldlm_export_flock_put_def flock_owner_of_def flock_range_def)

lemma predicates_unlink [simp]:
  "flock_compat (ldlm_flock_blocking_unlink req) G = flock_compat req G"
  "near se (ldlm_flock_blocking_unlink req) G = near se req G" "covers se (ldlm_flock_blocking_unlink req) = covers se req"
  "flock_gap_free (ldlm_flock_blocking_unlink req) G = flock_gap_free req G"
  by (simp_all add: flock_compat_def near_def covers_def flock_gap_free_def ldlm_flocks_overlap_def flock_touch_def)

text \<open>A request in one of the three modes of POSIX.\<close>

definition req_ok :: "ldlm_lock \<Rightarrow> bool" where
  "req_ok req \<longleftrightarrow> fl_start req \<le> fl_end req \<and> l_req_mode req \<in> {LCK_PR, LCK_PW, LCK_NL} \<and> \<not> l_ast_data req \<and>
     (l_export req = None \<longrightarrow> \<not> l_exp_flock_hash req)"

lemma req_ok_unlink [simp]: "req_ok req \<Longrightarrow> req_ok (ldlm_flock_blocking_unlink req)"
  "req_ok req \<Longrightarrow> \<not> l_exp_flock_hash (ldlm_flock_blocking_unlink req)"
  by (auto simp: req_ok_def ldlm_flock_blocking_unlink_def ldlm_export_flock_put_def)

text \<open>
  While the lock of the resource is dropped, other threads leave its queues alone.
\<close>

definition relock_quiet :: "(ldlm_resource \<Rightarrow> ldlm_resource) \<Rightarrow> bool" where
  "relock_quiet relock \<longleftrightarrow> (\<forall>res. lr_granted (relock res) = lr_granted res \<and> lr_waiting (relock res) = lr_waiting res \<and>
     lfn_unlock_pending (relock res) = lfn_unlock_pending res)"

lemma relock_quiet_ok: "relock_quiet relock \<Longrightarrow> flock_ok res \<Longrightarrow> flock_ok (relock res)"
  by (simp add: relock_quiet_def flock_ok_def)

lemma find_waiting_total:
  assumes "\<forall>l\<in>set W. l_req_mode l \<noteq> LCK_NL"
  shows "\<exists>f. find_waiting req W = Some f \<and> (\<forall>l. f = Some l \<longrightarrow> l \<in> set W)"
  using assms by (induction W) (auto simp: LASSERT_def)

lemma flock_ok_D:
  assumes "flock_ok res"
  shows "distinct (map l_ptr (lr_granted res))" "distinct (map l_ptr (lr_waiting res))"
    "l_ptr ` set (lr_granted res) \<inter> l_ptr ` set (lr_waiting res) = {}"
    "\<forall>l\<in>set (lr_granted res). lock_ok l" "own_disjoint (lr_granted res)"
    "\<forall>l\<in>set (lr_waiting res). l_req_mode l \<noteq> LCK_NL \<and> l_granted_mode l = LCK_MODE_MIN"
  using assms by (auto simp: flock_ok_def)

lemma flock_ok_reprocess [simp]: "flock_ok (res\<lparr>lfn_needs_reprocess := b\<rparr>) = flock_ok res"
  by (simp add: flock_ok_def)

lemma unlink_waiting_ok:
  assumes ok: "flock_ok res" and l: "l \<in> set (lr_waiting res)"
  shows "ldlm_resource_unlink_lock l res = res\<lparr>lr_waiting := remove_lock (l_ptr l) (lr_waiting res)\<rparr>"
    "flock_ok (ldlm_resource_unlink_lock l res)"
proof -
  have "l_ptr l \<notin> l_ptr ` set (lr_granted res)" using flock_ok_D(3) [OF ok] l by blast
  then show e: "ldlm_resource_unlink_lock l res = res\<lparr>lr_waiting := remove_lock (l_ptr l) (lr_waiting res)\<rparr>"
    by (simp add: ldlm_resource_unlink_lock_def ldlm_flock_unlink_lock_def)
  show "flock_ok (ldlm_resource_unlink_lock l res)"
    unfolding e using ok distinct_remove_lock [OF flock_ok_D(2) [OF ok]] by (auto simp: flock_ok_def)
qed

text \<open>What the steps before the scan may change.\<close>

definition same_request :: "flock_state \<Rightarrow> flock_state \<Rightarrow> bool" where
  "same_request st st' \<longleftrightarrow> fs_flags st' = fs_flags st \<and> fs_err st' = fs_err st \<and> flock_ok (fs_res st') \<and>
     lr_granted (fs_res st') = lr_granted (fs_res st) \<and>
     lfn_unlock_pending (fs_res st') = lfn_unlock_pending (fs_res st) \<and> set (lr_waiting (fs_res st')) \<subseteq> set (lr_waiting (fs_res st)) \<and>
     (l_req_mode (fs_req st) \<noteq> LCK_NL \<longrightarrow> lr_waiting (fs_res st') = lr_waiting (fs_res st)) \<and>
     ldlm_flock_blocking_unlink (fs_req st') = ldlm_flock_blocking_unlink (fs_req st)"

lemma flock_cancel_waiting_ok:
  assumes nl: "l_req_mode (fs_req st) = LCK_NL" and ok: "flock_ok (fs_res st)" and re: "relock_quiet (fe_relock env)"
  shows "\<exists>st'. flock_cancel_waiting env st = Some st' \<and> same_request st st' \<and> fs_req st' = fs_req st"
proof -
  obtain f where f: "find_waiting (fs_req st) (lr_waiting (fs_res st)) = Some f"
      "\<And>l. f = Some l \<Longrightarrow> l \<in> set (lr_waiting (fs_res st))"
    using find_waiting_total [of "lr_waiting (fs_res st)" "fs_req st"] flock_ok_D(6) [OF ok] by auto
  show ?thesis
  proof (cases f)
    case None
    then show ?thesis using f ok by (simp add: flock_cancel_waiting_def same_request_def)
  next
    case (Some l)
    have l: "l \<in> set (lr_waiting (fs_res st))" by (rule f(2) [OF Some])
    note u = unlink_waiting_ok [OF ok l]
    have g: "l_granted_mode l = LCK_MODE_MIN" using flock_ok_D(6) [OF ok] l by simp
    let ?r = "fe_relock env (ldlm_resource_unlink_lock l (fs_res st))"
    have "flock_ok ?r" "lr_granted ?r = lr_granted (fs_res st)" "set (lr_waiting ?r) \<subseteq> set (lr_waiting (fs_res st))"
        "lfn_unlock_pending ?r = lfn_unlock_pending (fs_res st)"
      using re u relock_quiet_ok [OF re u(2)] unfolding relock_quiet_def by (auto simp: u(1))
    then show ?thesis using f Some g nl by (simp add: flock_cancel_waiting_def same_request_def LASSERT_def)
  qed
qed

abbreviation pass_start :: "flock_state \<Rightarrow> ldlm_lock option \<Rightarrow> own_state" where
  "pass_start st new2 \<equiv> \<lparr>os_st = st\<lparr>fs_req := ldlm_flock_blocking_unlink (fs_req st)\<rparr>, os_new = None,
     os_added = (l_req_mode (fs_req st) = LCK_NL), os_new2 = new2, os_splitted = False\<rparr>"

lemma pass_start_ok:
  assumes "iter_ok iter" and ok: "flock_ok (fs_res st)" and r: "req_ok (fs_req st)" "covers se (fs_req st)"
      "near se (fs_req st) (lr_granted (fs_res st))"
    and ps: "ps = map l_ptr (filter (\<lambda>l. flock_owner_of l = flock_owner_of (fs_req st)) (iter (lr_granted (fs_res st)) (fst se) (snd se)))"
  shows "loop_ok (l_req_mode (fs_req st)) (pass_start st new2) ps (pass_start st new2)" "start_ok (pass_start st new2)"
proof -
  note F = flock_ok_D [OF ok]
  have "granted_inv (l_req_mode (ldlm_flock_blocking_unlink (fs_req st))) (ldlm_flock_blocking_unlink (fs_req st))
      (lr_granted (fs_res st)) ps (lr_granted (fs_res st)) None (ldlm_flock_blocking_unlink (fs_req st))"
    by (rule granted_inv_start [OF assms(1) F(1,4,5), where se = se]) (use r ps in \<open>simp_all add: req_ok_def\<close>)
  then show "loop_ok (l_req_mode (fs_req st)) (pass_start st new2) ps (pass_start st new2)"
    by (auto simp: loop_ok_def get_new_def os_res_def loop_frame_def)
  show "start_ok (pass_start st new2)"
    using r(1) F(3,5) by (simp add: start_ok_def os_res_def req_ok_def)
qed

text \<open>A request that nothing stands against: on the client, to unlock, or with compatible locks only.\<close>

definition no_conflict :: "flock_state \<Rightarrow> bool" where
  "no_conflict st \<longleftrightarrow> fs_flags st = LDLM_FL_WAIT_NOREPROC \<or> l_req_mode (fs_req st) = LCK_NL \<or>
     flock_compat (fs_req st) (lr_granted (fs_res st))"

lemma posix_mode_verify: "mode \<in> {LCK_PR, LCK_PW, LCK_NL} \<Longrightarrow> lockmode_verify mode = Some ()"
  by (auto simp: lockmode_verify_def LASSERT_def LCK_PR_def LCK_PW_def LCK_NL_def LCK_MODE_MIN_def LCK_MODE_END_def)

lemma before_scan:
  assumes ok: "flock_ok (fs_res st)" and re: "relock_quiet (fe_relock env)"
  shows "\<exists>st'. (if c \<and> l_req_mode (fs_req st) = LCK_NL then flock_cancel_waiting env st else Some st) = Some st' \<and>
    same_request st st' \<and> fs_req st' = fs_req st"
proof (cases "c \<and> l_req_mode (fs_req st) = LCK_NL")
  case False
  then show ?thesis using ok by (auto simp: same_request_def)
qed (use flock_cancel_waiting_ok [OF _ ok re] in simp)

lemma flock_pass_own:
  assumes it: "iter_ok (fe_iter env)" and re: "relock_quiet (fe_relock env)" and ok: "flock_ok (fs_res st)"
    and r: "req_ok (fs_req st)" "covers se (fs_req st)" "near se (fs_req st) (lr_granted (fs_res st))"
    and nc: "no_conflict st" and nt: "\<not> flag_set (fs_flags st) LDLM_FL_TEST_LOCK"
  shows "\<exists>st' ps. same_request st st' \<and> fs_req st' = fs_req st \<and>
    flock_pass env intention (l_req_mode (fs_req st)) se new2 (l_req_mode (fs_req st) = LCK_NL) st =
      map_option Pass_Own (flock_own_loop (l_req_mode (fs_req st)) ps (pass_start st' new2)) \<and>
    loop_ok (l_req_mode (fs_req st)) (pass_start st' new2) ps (pass_start st' new2) \<and> start_ok (pass_start st' new2)"
proof -
  let ?mode = "l_req_mode (fs_req st)"
  obtain st' where st': "(if fs_flags st \<noteq> LDLM_FL_WAIT_NOREPROC \<and> ?mode = LCK_NL then flock_cancel_waiting env st else Some st)
      = Some st'" "same_request st st'" "fs_req st' = fs_req st"
    using before_scan [OF ok re] by blast
  have s: "lr_granted (fs_res st') = lr_granted (fs_res st)" "fs_flags st' = fs_flags st" "flock_ok (fs_res st')"
    using st'(2) by (simp_all add: same_request_def)
  define locks where "locks = fe_iter env (lr_granted (fs_res st)) (fst se) (snd se)"
  define ps where "ps = map l_ptr (filter (\<lambda>l. flock_owner_of l = flock_owner_of (fs_req st)) locks)"
  have scan: "flock_scan (fs_req st) ?mode [] locks = Inr ps"
    if "\<not> (fs_flags st = LDLM_FL_WAIT_NOREPROC \<or> ?mode = LCK_NL)"
    using flock_scan_compat [of "fs_req st" locks "[]"] iter_compat [OF it flock_ok_D(1) [OF ok] r(2)] nc that
    unfolding no_conflict_def ps_def locks_def by simp
  have "flock_pass env intention ?mode se new2 (?mode = LCK_NL) st =
      map_option Pass_Own (flock_own_loop ?mode ps (pass_start st' new2))"
    using r(1) unfolding flock_pass_def Let_def st'(1) s(1) st'(3) bind.bind_lunit locks_def [symmetric]
    by (auto simp: scan nt posix_mode_verify req_ok_def st'(3) ps_def)
  moreover have "loop_ok (l_req_mode (fs_req st')) (pass_start st' new2) ps (pass_start st' new2)"
    "start_ok (pass_start st' new2)"
    by (rule pass_start_ok [OF it s(3), where se = se]; use r in \<open>simp add: st'(3) s(1) ps_def locks_def\<close>)+
  ultimately show ?thesis
    using st'(2,3) by (intro exI [of _ st'] exI [of _ ps] conjI) simp_all
qed

lemma same_request_mode: "same_request st st' \<Longrightarrow> l_req_mode (fs_req st') = l_req_mode (fs_req st)"
  unfolding same_request_def by (metis unlink_simps(5))

lemma same_request_trans: "same_request st st' \<Longrightarrow> same_request st' st'' \<Longrightarrow> same_request st st''"
  using same_request_mode [of st st'] by (auto simp: same_request_def)

text \<open>The address of the lock for a split is not in use.\<close>

definition fresh_ptr :: "nat \<Rightarrow> flock_state \<Rightarrow> bool" where
  "fresh_ptr p st \<longleftrightarrow> p \<notin> l_ptr ` (set (lr_granted (fs_res st)) \<union> set (lr_waiting (fs_res st)) \<union> {fs_req st})"

lemma fresh_new2_ok:
  assumes "own_disjoint G" and "l \<in> set G" "flock_owner_of l = flock_owner_of req"
    "fl_start l < fl_start req" "fl_end req < fl_end l" and r: "fl_start req \<le> fl_end req"
    and st: "same_request st st'" "lr_granted (fs_res st) = G" "fs_req st' = req" and p: "fresh_ptr p st"
  shows "new2_ok (pass_start st' new2) (fresh_lock p (l_granted_mode l))"
proof -
  have "l' = l" if "l' \<in> set G" "flock_owner_of l' = flock_owner_of req" "flock_range req \<subseteq> flock_range l'" for l'
  proof (rule ccontr)
    assume "l' \<noteq> l"
    then have "flock_range l' \<inter> flock_range l = {}" using assms(1-3) that unfolding own_disjoint_def by metis
    moreover have "fl_start req \<in> flock_range l' \<inter> flock_range l"
      using that(3) assms(4,5) r by (auto simp: flock_range_def)
    ultimately show False by blast
  qed
  moreover have "flock_owner_of (fs_req st) = flock_owner_of req" "flock_range (fs_req st) = flock_range req"
    using st(1,3) unfolding same_request_def by (metis unlink_simps(11,12))+
  ultimately show ?thesis
    using st p by (auto simp: new2_ok_def os_res_def same_request_def fresh_ptr_def fresh_lock_def)
qed

text \<open>What the own loop of a granted request starts from and where it ends.\<close>

definition passes_done :: "flock_state \<Rightarrow> own_state \<Rightarrow> own_state \<Rightarrow> bool" where
  "passes_done st os0 os \<longleftrightarrow> loop_ok (l_req_mode (fs_req st)) os0 [] os \<and> start_ok os0 \<and>
     same_request (st\<lparr>fs_err := 0\<rparr>) (os_st os0) \<and> fs_req (os_st os0) = ldlm_flock_blocking_unlink (fs_req st) \<and>
     (\<forall>n2. os_new2 os0 = Some n2 \<longrightarrow> fresh_ptr (l_ptr n2) st \<and> flock_splits (fs_req st) (lr_granted (fs_res st)))"

lemma second_pass:
  assumes it: "iter_ok (fe_iter env)" and re: "relock_quiet (fe_relock env)" and ok: "flock_ok (fs_res st)"
    and r: "req_ok (fs_req st)" "covers se (fs_req st)" "near se (fs_req st) (lr_granted (fs_res st))"
    and nc: "no_conflict st" and nt: "\<not> flag_set (fs_flags st) LDLM_FL_TEST_LOCK"
    and un: "fs_req st = ldlm_flock_blocking_unlink (fs_req st0)" and st0: "same_request (st0\<lparr>fs_err := 0\<rparr>) st"
    and l: "l \<in> set (lr_granted (fs_res st))" "flock_owner_of l = flock_owner_of (fs_req st)"
      "fl_start l < fl_start (fs_req st)" "fl_end (fs_req st) < fl_end l" and p: "fresh_ptr p st0"
    and sp: "flock_splits (fs_req st0) (lr_granted (fs_res st0))"
  shows "\<exists>os0 os. flock_pass env intention (l_req_mode (fs_req st)) se (Some (fresh_lock p (l_granted_mode l)))
      (l_req_mode (fs_req st) = LCK_NL) st = Some (Pass_Own (Own_Done os)) \<and> passes_done st0 os0 os"
proof -
  let ?n2 = "fresh_lock p (l_granted_mode l)"
  obtain st' ps where st': "same_request st st'" "fs_req st' = fs_req st"
    "flock_pass env intention (l_req_mode (fs_req st)) se (Some ?n2) (l_req_mode (fs_req st) = LCK_NL) st =
      map_option Pass_Own (flock_own_loop (l_req_mode (fs_req st)) ps (pass_start st' (Some ?n2)))"
    "loop_ok (l_req_mode (fs_req st)) (pass_start st' (Some ?n2)) ps (pass_start st' (Some ?n2))"
    "start_ok (pass_start st' (Some ?n2))"
    using flock_pass_own [OF it re ok r nc nt, of intention "Some ?n2"] by blast
  have p': "fresh_ptr p st" using p st0 un by (auto simp: fresh_ptr_def same_request_def)
  have "new2_ok (pass_start st' (Some ?n2)) ?n2"
    by (rule fresh_new2_ok [OF flock_ok_D(5) [OF ok] l _ st'(1) refl st'(2) p']) (use r(1) in \<open>simp add: req_ok_def\<close>)
  then obtain os where "flock_own_loop (l_req_mode (fs_req st)) ps (pass_start st' (Some ?n2)) = Some (Own_Done os)"
      "loop_ok (l_req_mode (fs_req st)) (pass_start st' (Some ?n2)) [] os"
    using flock_own_loop_ok [OF st'(4,5) refl] by auto
  moreover have "same_request (st0\<lparr>fs_err := 0\<rparr>) (os_st (pass_start st' (Some ?n2)))"
    using same_request_trans [OF st0 st'(1)] st'(2) by (simp add: same_request_def)
  ultimately show ?thesis
    using st' un p sp by (intro exI [of _ "pass_start st' (Some ?n2)"] exI [of _ os])
      (simp add: passes_done_def fresh_lock_def)
qed

text \<open>The passes of a request that meets no conflict end without a violated assertion.\<close>

definition split_ok :: "flock_env \<Rightarrow> flock_state \<Rightarrow> bool" where
  "split_ok env st \<longleftrightarrow> (flock_splits (fs_req st) (lr_granted (fs_res st)) \<longrightarrow>
     flock_gap_free (fs_req st) (lr_granted (fs_res st)) \<and> (\<exists>p. fe_create env = Inr p \<and> fresh_ptr p st))"

lemma passes_restart:
  assumes it: "iter_ok (fe_iter env)" and re: "relock_quiet (fe_relock env)" and ok: "flock_ok (fs_res st)"
    and r: "req_ok (fs_req st)" and nc: "no_conflict st" and nt: "\<not> flag_set (fs_flags st) LDLM_FL_TEST_LOCK"
    and sp: "split_ok env st" and st': "same_request (st\<lparr>fs_err := 0\<rparr>) st'" "fs_req st' = fs_req st"
    and se: "se = flock_widen (fs_flags st) (l_req_mode (fs_req st)) (fl_start (fs_req st), fl_end (fs_req st))"
    and cov: "covers se (fs_req st)"
    and pass: "flock_pass env intention (l_req_mode (fs_req st)) se None (l_req_mode (fs_req st) = LCK_NL) (st\<lparr>fs_err := 0\<rparr>) =
      map_option Pass_Own (flock_own_loop (l_req_mode (fs_req st)) ps (pass_start st' None))"
    and l: "l \<in> set (lr_granted (fs_res st))" "flock_owner_of l = flock_owner_of (fs_req st)"
      "fl_start l < fl_start (fs_req st)" "fl_end (fs_req st) < fl_end l" "l_granted_mode l \<noteq> l_req_mode (fs_req st)"
      "flock_own_loop (l_req_mode (fs_req st)) ps (pass_start st' None) =
        Some (Own_Restart (reprocess_set (pass_start st' None)) (l_granted_mode l))"
  shows "\<exists>os0 os. flock_passes env intention st = Some (Pass_Own (Own_Done os)) \<and> passes_done st os0 os"
proof -
  have spl: "flock_splits (fs_req st) (lr_granted (fs_res st))" using l unfolding flock_splits_def by blast
  then obtain p where gap: "flock_gap_free (fs_req st) (lr_granted (fs_res st))" and p: "fe_create env = Inr p" "fresh_ptr p st"
    using sp unfolding split_ok_def by blast
  define res1 where "res1 = fe_relock env ((fs_res st')\<lparr>lfn_needs_reprocess := True\<rparr>)"
  define st1 where "st1 = st'\<lparr>fs_req := ldlm_flock_blocking_unlink (fs_req st), fs_res := res1\<rparr>"
  have "flock_ok ((fs_res st')\<lparr>lfn_needs_reprocess := True\<rparr>)" using st'(1) by (simp add: same_request_def)
  then have s1: "flock_ok res1" "lr_granted res1 = lr_granted (fs_res st)" "set (lr_waiting res1) \<subseteq> set (lr_waiting (fs_res st))"
      "l_req_mode (fs_req st) \<noteq> LCK_NL \<longrightarrow> lr_waiting res1 = lr_waiting (fs_res st)"
      "lfn_unlock_pending res1 = lfn_unlock_pending (fs_res st)"
    using re st'(1) relock_quiet_ok [OF re] unfolding res1_def relock_quiet_def same_request_def by simp_all
  have same: "same_request (st\<lparr>fs_err := 0\<rparr>) st1"
    using s1 st' unfolding st1_def same_request_def by simp
  let ?se = "flock_widen (fs_flags st) (l_req_mode (fs_req st)) se"
  have f: "fs_flags st1 = fs_flags st" "fs_res st1 = res1" "fs_req st1 = ldlm_flock_blocking_unlink (fs_req st)"
    using same by (simp_all add: same_request_def st1_def)
  have "no_conflict st1" using nc f s1(2) by (simp add: no_conflict_def)
  then obtain os0 os where os: "flock_pass env intention (l_req_mode (fs_req st1)) ?se (Some (fresh_lock p (l_granted_mode l)))
      (l_req_mode (fs_req st1) = LCK_NL) st1 = Some (Pass_Own (Own_Done os))" "passes_done st os0 os"
    using second_pass [OF it re _ _ _ _ _ _ f(3) same _ _ _ _ p(2) spl, of ?se l intention] f s1 r nt l(1-4)
      widen_covers [OF cov] widen_twice_near [OF gap se] by auto
  have "flock_passes env intention st = flock_pass env intention (l_req_mode (fs_req st)) ?se
      (Some (fresh_lock p (l_granted_mode l))) (l_req_mode (fs_req st) = LCK_NL) st1"
    unfolding flock_passes_def Let_def se [symmetric] pass l(6)
    using p(1) f(1) by (simp add: set_res_def os_res_def st1_def res1_def st'(2))
  then show ?thesis using os f(3) by auto
qed

lemma flock_passes_grant:
  assumes it: "iter_ok (fe_iter env)" and re: "relock_quiet (fe_relock env)" and ok: "flock_ok (fs_res st)"
    and r: "req_ok (fs_req st)" and nc: "no_conflict st" and nt: "\<not> flag_set (fs_flags st) LDLM_FL_TEST_LOCK"
    and sp: "split_ok env st"
  shows "\<exists>os0 os. flock_passes env intention st = Some (Pass_Own (Own_Done os)) \<and> passes_done st os0 os"
proof -
  let ?mode = "l_req_mode (fs_req st)" and ?st = "st\<lparr>fs_err := 0\<rparr>"
  define se where "se = flock_widen (fs_flags st) ?mode (fl_start (fs_req st), fl_end (fs_req st))"
  have cov: "covers se (fs_req st)" unfolding se_def by (rule widen_covers) (simp add: covers_def)
  have nc': "no_conflict ?st" using nc by (simp add: no_conflict_def)
  obtain st' ps where st': "same_request ?st st'" "fs_req st' = fs_req st"
    "flock_pass env intention ?mode se None (?mode = LCK_NL) ?st = map_option Pass_Own (flock_own_loop ?mode ps (pass_start st' None))"
    "loop_ok ?mode (pass_start st' None) ps (pass_start st' None)" "start_ok (pass_start st' None)"
    using flock_pass_own [OF it re _ _ _ _ nc', of se intention None] ok r cov nt
      widen_near [of "fs_flags st" ?mode "fs_req st" "lr_granted (fs_res st)", folded se_def] by auto
  from flock_own_loop_ok [OF st'(4,5) refl]
  consider (finished) os where "flock_own_loop ?mode ps (pass_start st' None) = Some (Own_Done os)" "loop_ok ?mode (pass_start st' None) [] os"
    | (restart) l where "l \<in> set (lr_granted (fs_res st))" "flock_owner_of l = flock_owner_of (fs_req st)"
        "fl_start l < fl_start (fs_req st)" "fl_end (fs_req st) < fl_end l" "l_granted_mode l \<noteq> ?mode"
        "flock_own_loop ?mode ps (pass_start st' None) = Some (Own_Restart (reprocess_set (pass_start st' None)) (l_granted_mode l))"
    using st'(1,2) by (auto simp: os_res_def same_request_def)
  then show ?thesis
  proof cases
    case finished
    have "passes_done st (pass_start st' None) os"
      using finished st' by (auto simp: passes_done_def same_request_def)
    then show ?thesis
      using finished(1) st'(3) by (auto simp: flock_passes_def Let_def se_def)
  next
    case restart
    show ?thesis
      by (rule passes_restart [OF it re ok r nc nt sp st'(1,2) se_def cov st'(3) restart])
  qed
qed

section \<open>Granting\<close>

abbreviation flag_lock :: "nat \<Rightarrow> u64 \<Rightarrow> ldlm_lock list \<Rightarrow> ldlm_lock list" where
  "flag_lock p f G \<equiv> update_lock p (\<lambda>l. l\<lparr>l_flags := f\<rparr>) G"

lemma flag_lock_simps [simp]:
  "map l_ptr (flag_lock p f G) = map l_ptr G" "flock_holds (flag_lock p f G) = flock_holds G"
  "(\<forall>l\<in>set (flag_lock p f G). lock_ok l) \<longleftrightarrow> (\<forall>l\<in>set G. lock_ok l)"
  "l_ptr ` set (flag_lock p f G) = l_ptr ` set G"
  by (induction G) (auto simp: update_lock_def flock_holds_def fun_eq_iff lock_ok_def flock_owner_of_def flock_range_def)

lemma flag_lock_id [simp]: "p \<notin> l_ptr ` set G \<Longrightarrow> flag_lock p f G = G"
  by (induction G) (auto simp: update_lock_def)

lemma flag_lock_disjoint:
  assumes "own_disjoint G"
  shows "own_disjoint (flag_lock p f G)"
proof -
  define h where "h = (\<lambda>l::ldlm_lock. if l_ptr l = p then l\<lparr>l_flags := f\<rparr> else l)"
  have h: "flock_owner_of (h l) = flock_owner_of l" "flock_range (h l) = flock_range l" for l
    by (simp_all add: h_def flock_owner_of_def flock_range_def)
  have "flock_range (h l) \<inter> flock_range (h l') = {}"
    if "l \<in> set G" "l' \<in> set G" "h l \<noteq> h l'" "flock_owner_of (h l) = flock_owner_of (h l')" for l l'
    using assms that unfolding own_disjoint_def h by (metis h_def)
  then show ?thesis unfolding own_disjoint_def update_lock_def set_map h_def [symmetric] by blast
qed

lemma disjoint_queues:
  "A \<subseteq> A0 \<union> N \<union> {q} \<Longrightarrow> N \<inter> W0 = {} \<Longrightarrow> W \<subseteq> W0 - {q} \<Longrightarrow> A0 \<inter> W0 = {} \<Longrightarrow> A \<inter> W = {}"
  by blast

lemma granted_holds_cases:
  assumes inv: "granted_inv (l_req_mode r) r G0 [] G newp n" and d: "own_disjoint G0" and ok: "\<forall>l\<in>set G0. lock_ok l"
  shows "newp \<noteq> None \<or> l_req_mode r = LCK_NL \<Longrightarrow> flock_holds G own x m \<longleftrightarrow> posix_grant r (flock_holds G0) own x m"
    "newp = None \<Longrightarrow> l_req_mode r \<noteq> LCK_NL \<Longrightarrow> flock_owner_of n' = flock_owner_of n \<Longrightarrow> flock_range n' = flock_range n \<Longrightarrow>
     l_granted_mode n' = l_req_mode r \<Longrightarrow> flock_holds (G @ [n']) own x m \<longleftrightarrow> posix_grant r (flock_holds G0) own x m"
  using holds_end_NL [OF _ d ok, of r G newp n] holds_end_new [OF inv d _ refl] inv
  by (metis option.exhaust_sel)+

text \<open>The granted locks at the end of the function, and the queues.\<close>

text \<open>What the passes leave of the request and of the queues.\<close>

lemma passes_done_D:
  assumes pd: "passes_done st os0 os"
  shows "with_range 0 0 (fs_req (os_st os)) = with_range 0 0 (ldlm_flock_blocking_unlink (fs_req st))"
    and "loop_ok (l_req_mode (fs_req st)) os0 [] os" and "fs_req (os_st os0) = ldlm_flock_blocking_unlink (fs_req st)"
    and "lr_granted (os_res os0) = lr_granted (fs_res st)"
    and "l_ptr ` set (lr_granted (os_res os)) \<subseteq> l_ptr ` (set (lr_granted (fs_res st)) \<union> set_option (os_new2 os0))"
    and "lr_waiting (os_res os) = lr_waiting (os_res os0)" and "set (lr_waiting (os_res os0)) \<subseteq> set (lr_waiting (fs_res st))"
    and "fs_flags (os_st os) = fs_flags st" and "fs_err (os_st os) = 0" and "flock_ok (os_res os0)"
    and "l_req_mode (fs_req st) \<noteq> LCK_NL \<longrightarrow> lr_waiting (os_res os0) = lr_waiting (fs_res st)"
    and "lfn_unlock_pending (os_res os) = lfn_unlock_pending (fs_res st)"
    and "os_new2 os0 = Some n2 \<Longrightarrow> fresh_ptr (l_ptr n2) st"
    and "os_new2 os0 = Some n2 \<Longrightarrow> flock_splits (fs_req st) (lr_granted (fs_res st))"
proof -
  have fr: "loop_frame os0 os" and same: "same_request (st\<lparr>fs_err := 0\<rparr>) (os_st os0)"
    and req: "fs_req (os_st os0) = ldlm_flock_blocking_unlink (fs_req st)"
    using pd by (auto simp: passes_done_def loop_ok_def)
  show "with_range 0 0 (fs_req (os_st os)) = with_range 0 0 (ldlm_flock_blocking_unlink (fs_req st))"
    using fr by (simp add: loop_frame_def req)
  show g0: "lr_granted (os_res os0) = lr_granted (fs_res st)" using same by (simp add: same_request_def os_res_def)
  show "l_ptr ` set (lr_granted (os_res os)) \<subseteq> l_ptr ` (set (lr_granted (fs_res st)) \<union> set_option (os_new2 os0))"
    using fr by (simp add: loop_frame_def g0)
  show "fs_flags (os_st os) = fs_flags st" "fs_err (os_st os) = 0" "lr_waiting (os_res os) = lr_waiting (os_res os0)"
      "set (lr_waiting (os_res os0)) \<subseteq> set (lr_waiting (fs_res st))" "flock_ok (os_res os0)"
      "l_req_mode (fs_req st) \<noteq> LCK_NL \<longrightarrow> lr_waiting (os_res os0) = lr_waiting (fs_res st)"
      "lfn_unlock_pending (os_res os) = lfn_unlock_pending (fs_res st)"
    using fr same by (simp_all add: loop_frame_def same_request_def os_res_def)
qed (use pd in \<open>auto simp: passes_done_def\<close>)

lemma granted_ptrs:
  assumes pd: "passes_done st os0 os" and ok: "flock_ok (fs_res st)"
    and p: "l_ptr (fs_req st) \<notin> l_ptr ` set (lr_granted (fs_res st))" and n: "l_ptr n = l_ptr (fs_req st)"
    and G: "G = (if os_added os then lr_granted (os_res os) else lr_granted (os_res os) @ [n])"
  shows "l_ptr (fs_req st) \<notin> l_ptr ` set (lr_granted (os_res os))"
    and "l_ptr ` set G \<subseteq> l_ptr ` set (lr_granted (fs_res st)) \<union> {l_ptr (fs_req st)} \<or> flock_splits (fs_req st) (lr_granted (fs_res st))"
    and "l_ptr ` set G \<inter> l_ptr ` set (remove_lock (l_ptr (fs_req st)) (lr_waiting (os_res os))) = {}"
proof -
  note D = passes_done_D [OF pd]
  show "l_ptr (fs_req st) \<notin> l_ptr ` set (lr_granted (os_res os))"
    using D(5,13) p by (fastforce simp: fresh_ptr_def)
  have sub: "l_ptr ` set G \<subseteq> l_ptr ` set (lr_granted (fs_res st)) \<union> l_ptr ` set_option (os_new2 os0) \<union> {l_ptr (fs_req st)}"
    using D(5) n unfolding G by (cases "os_added os") (simp_all add: image_Un subset_insertI2)
  then show "l_ptr ` set G \<subseteq> l_ptr ` set (lr_granted (fs_res st)) \<union> {l_ptr (fs_req st)} \<or>
      flock_splits (fs_req st) (lr_granted (fs_res st))"
    using D(14) by (cases "os_new2 os0") auto
  note sub
  moreover have "l_ptr ` set_option (os_new2 os0) \<inter> l_ptr ` set (lr_waiting (fs_res st)) = {}"
    using D(13) unfolding fresh_ptr_def by (cases "os_new2 os0") (simp_all add: image_Un)
  moreover have "l_ptr ` set (remove_lock (l_ptr (fs_req st)) (lr_waiting (os_res os))) \<subseteq>
      l_ptr ` set (lr_waiting (fs_res st)) - {l_ptr (fs_req st)}"
    using D(6,7) by auto
  ultimately show "l_ptr ` set G \<inter> l_ptr ` set (remove_lock (l_ptr (fs_req st)) (lr_waiting (os_res os))) = {}"
    using flock_ok_D(3) [OF ok] by (rule disjoint_queues)
qed

lemma granted_end:
  assumes pd: "passes_done st os0 os" and r: "req_ok (fs_req st)" and ok: "flock_ok (fs_res st)"
    and p: "l_ptr (fs_req st) \<notin> l_ptr ` set (lr_granted (fs_res st))"
    and n: "n = (fs_req (os_st os))\<lparr>l_granted_mode := l_req_mode (fs_req (os_st os))\<rparr>"
    and G: "G = (if os_added os then lr_granted (os_res os) else lr_granted (os_res os) @ [n])"
  shows "flock_holds G own x m \<longleftrightarrow> posix_grant (fs_req st) (flock_holds (lr_granted (fs_res st))) own x m"
    "own_disjoint G" "\<forall>l\<in>set G. lock_ok l" "distinct (map l_ptr G)"
    "l_ptr ` set G \<inter> l_ptr ` set (remove_lock (l_ptr (fs_req st)) (lr_waiting (os_res os))) = {}"
    "l_ptr (fs_req st) \<notin> l_ptr ` set (lr_granted (os_res os))"
    "l_ptr ` set G \<subseteq> l_ptr ` set (lr_granted (fs_res st)) \<union> {l_ptr (fs_req st)} \<or> flock_splits (fs_req st) (lr_granted (fs_res st))"
proof -
  let ?mode = "l_req_mode (fs_req st)" and ?r = "ldlm_flock_blocking_unlink (fs_req st)"
  note D = passes_done_D [OF pd]
  note l = D(2) and req = D(3) and g0 = D(4)
  obtain k where k: "get_new os = Some k" using l unfolding loop_ok_def by auto
  note inv = loop_ok_D(1) [OF l k, unfolded req g0] and added = loop_ok_D(2) [OF l k]
  note I = granted_inv_D [OF inv] and F = flock_ok_D [OF ok]
  note c = arg_cong [OF D(1), of l_req_mode] arg_cong [OF D(1), of l_ptr] arg_cong [OF D(1), of l_ast_data]
    arg_cong [OF D(1), of l_exp_flock_hash] arg_cong [OF D(1), of flock_owner_of]
  have new: "\<not> os_added os \<Longrightarrow> os_new os = None \<and> k = fs_req (os_st os)" "\<not> os_added os \<Longrightarrow> ?mode \<noteq> LCK_NL"
    using added k by (auto simp: get_new_def)
  have nn: "flock_owner_of n = flock_owner_of ?r" "flock_range n = flock_range (fs_req (os_st os))" "l_granted_mode n = ?mode"
      "l_ptr n = l_ptr (fs_req st)" "\<not> l_exp_flock_hash n" "\<not> l_ast_data n"
    using c r by (simp_all add: n flock_owner_of_def flock_range_def req_ok_def)
  show np: "l_ptr (fs_req st) \<notin> l_ptr ` set (lr_granted (os_res os))"
    "l_ptr ` set G \<subseteq> l_ptr ` set (lr_granted (fs_res st)) \<union> {l_ptr (fs_req st)} \<or> flock_splits (fs_req st) (lr_granted (fs_res st))"
    "l_ptr ` set G \<inter> l_ptr ` set (remove_lock (l_ptr (fs_req st)) (lr_waiting (os_res os))) = {}"
    by (rule granted_ptrs [OF pd ok p nn(4) G])+
  have pg: "posix_grant ?r = posix_grant (fs_req st)" by (intro ext) (simp add: posix_grant_def)
  have inv': "granted_inv (l_req_mode ?r) ?r (lr_granted (fs_res st)) [] (lr_granted (os_res os)) (os_new os) k"
    using inv by simp
  show "flock_holds G own x m \<longleftrightarrow> posix_grant (fs_req st) (flock_holds (lr_granted (fs_res st))) own x m"
  proof (cases "os_added os")
    case True
    then show ?thesis using granted_holds_cases(1) [OF inv' F(5,4), of own x m] added unfolding pg by (simp add: G)
  next
    case False
    then show ?thesis
      using granted_holds_cases(2) [OF inv' F(5,4), of n own x m] new nn I(3) unfolding pg by (simp add: G)
  qed
  show "own_disjoint G"
    using own_disjoint_end [OF inv F(5)] own_disjoint_append [OF _ F(5), of ?mode ?r _ k n] inv new nn I(3) by (auto simp: G)
  show "\<forall>l\<in>set G. lock_ok l"
    using I(2,4) new nn r by (auto simp: G lock_ok_def req_ok_def n)
  show "distinct (map l_ptr G)" using I(1) np(1) nn(4) by (auto simp: G)
qed

text \<open>What a request that is granted leaves behind.\<close>

definition granted_post :: "flock_state \<Rightarrow> flock_state \<Rightarrow> bool" where
  "granted_post st st' \<longleftrightarrow>
     (\<forall>own x m. flock_holds (lr_granted (fs_res st')) own x m \<longleftrightarrow>
        posix_grant (fs_req st) (flock_holds (lr_granted (fs_res st))) own x m) \<and>
     flock_ok (fs_res st') \<and> l_ptr (fs_req st) \<notin> l_ptr ` set (lr_waiting (fs_res st')) \<and>
     set (lr_waiting (fs_res st')) \<subseteq> set (lr_waiting (fs_res st)) \<and>
     (l_req_mode (fs_req st) \<noteq> LCK_NL \<longrightarrow>
        lr_waiting (fs_res st') = remove_lock (l_ptr (fs_req st)) (lr_waiting (fs_res st))) \<and>
     (l_ptr ` set (lr_granted (fs_res st')) \<subseteq> l_ptr ` set (lr_granted (fs_res st)) \<union> {l_ptr (fs_req st)} \<or>
        flock_splits (fs_req st) (lr_granted (fs_res st))) \<and>
     fs_flags st' = fs_flags st \<and> fs_err st' = 0"

text \<open>The lock is in the granted queue, or the request is still to be destroyed.\<close>

lemma flock_grant_total:
  assumes c: "l_completion_ast (fs_req (os_st os)) \<or> intention = LDLM_PROCESS_ENQUEUE \<or> fs_flags (os_st os) = LDLM_FL_WAIT_NOREPROC"
    and p: "l_ptr (fs_req (os_st os)) \<notin> l_ptr ` set (lr_granted (os_res os))"
    and n: "n = (fs_req (os_st os))\<lparr>l_granted_mode := l_req_mode (fs_req (os_st os))\<rparr>"
    and G: "G = (if os_added os then lr_granted (os_res os) else lr_granted (os_res os) @ [n])"
    and W: "W = (if os_added os then lr_waiting (os_res os) else remove_lock (l_ptr n) (lr_waiting (os_res os)))"
  shows "\<exists>os' f. flock_grant intention os = Some os' \<and> os_added os' = os_added os \<and>
    (lr_granted (os_res os') = G \<or> lr_granted (os_res os') = flag_lock (l_ptr n) f G) \<and> lr_waiting (os_res os') = W \<and>
    lfn_needs_reprocess (os_res os') = lfn_needs_reprocess (os_res os) \<and>
    lfn_unlock_pending (os_res os') = lfn_unlock_pending (os_res os) \<and>
    fs_flags (os_st os') = fs_flags (os_st os) \<and> fs_err (os_st os') = fs_err (os_st os) \<and>
    l_ptr (fs_req (os_st os')) = l_ptr n \<and> l_exp_flock_hash (fs_req (os_st os')) = l_exp_flock_hash n \<and>
    l_req_mode (fs_req (os_st os')) = l_req_mode n"
proof -
  let ?res = "(os_res os)\<lparr>lr_granted := G, lr_waiting := W\<rparr>"
  have add: "ldlm_flock_add_lock n ((os_res os)\<lparr>lr_waiting := W\<rparr>) = Some ?res" if "\<not> os_added os"
    using that p by (auto simp: ldlm_flock_add_lock_def ldlm_is_granted_def ldlm_resource_add_granted_def LASSERT_def
      find_lock_eq_None n G W)
  show ?thesis
  proof (cases "os_added os")
    case True
    then show ?thesis
      using c by (auto simp: flock_grant_def Let_def LASSERT_def ldlm_add_cp_work_item_def os_res_def G W n)
  next
    case False
    have "ldlm_flock_add_lock n ((fs_res (os_st os))\<lparr>lr_waiting := remove_lock (l_ptr n) (lr_waiting (fs_res (os_st os)))\<rparr>) = Some ?res"
      using add [OF False] False by (simp add: W os_res_def)
    then show ?thesis
      using c False unfolding flock_grant_def Let_def
      by (simp add: LASSERT_def ldlm_add_cp_work_item_def os_res_def n [symmetric]) (auto simp: n)
  qed
qed

text \<open>After the grant and before the request is destroyed.\<close>

definition grant_done :: "flock_state \<Rightarrow> own_state \<Rightarrow> bool" where
  "grant_done st os \<longleftrightarrow>
     (\<forall>own x m. flock_holds (lr_granted (os_res os)) own x m \<longleftrightarrow>
        posix_grant (fs_req st) (flock_holds (lr_granted (fs_res st))) own x m) \<and>
     flock_ok ((os_res os)\<lparr>lr_waiting := remove_lock (l_ptr (fs_req st)) (lr_waiting (os_res os))\<rparr>) \<and>
     (os_added os \<longrightarrow> l_ptr (fs_req st) \<notin> l_ptr ` set (lr_granted (os_res os))) \<and>
     (l_req_mode (fs_req st) = LCK_NL \<longrightarrow> os_added os) \<and>
     (\<not> os_added os \<longrightarrow> l_ptr (fs_req st) \<notin> l_ptr ` set (lr_waiting (os_res os))) \<and>
     set (lr_waiting (os_res os)) \<subseteq> set (lr_waiting (fs_res st)) \<and>
     (l_req_mode (fs_req st) \<noteq> LCK_NL \<longrightarrow> remove_lock (l_ptr (fs_req st)) (lr_waiting (os_res os)) =
        remove_lock (l_ptr (fs_req st)) (lr_waiting (fs_res st))) \<and>
     lfn_unlock_pending (os_res os) = lfn_unlock_pending (fs_res st) \<and>
     (l_ptr ` set (lr_granted (os_res os)) \<subseteq> l_ptr ` set (lr_granted (fs_res st)) \<union> {l_ptr (fs_req st)} \<or>
        flock_splits (fs_req st) (lr_granted (fs_res st))) \<and>
     fs_flags (os_st os) = fs_flags st \<and> fs_err (os_st os) = 0 \<and>
     l_ptr (fs_req (os_st os)) = l_ptr (fs_req st) \<and> \<not> l_exp_flock_hash (fs_req (os_st os)) \<and>
     l_req_mode (fs_req (os_st os)) = l_req_mode (fs_req st)"

text \<open>An unlock that gave up bytes asks for the waiting locks.\<close>

definition grant_ok :: "flock_state \<Rightarrow> own_state \<Rightarrow> bool" where
  "grant_ok st os \<longleftrightarrow> grant_done st os \<and>
     (l_req_mode (fs_req st) = LCK_NL \<longrightarrow> lr_granted (os_res os) = lr_granted (fs_res st) \<or> lfn_needs_reprocess (os_res os))"

lemma grant_done_cong:
  assumes "lr_granted (os_res os') = lr_granted (os_res os)" and "lr_waiting (os_res os') = lr_waiting (os_res os)"
    and "lfn_unlock_pending (os_res os') = lfn_unlock_pending (os_res os)" and "os_added os' = os_added os"
    and "fs_req (os_st os') = fs_req (os_st os)" and "fs_flags (os_st os') = fs_flags (os_st os)" and "fs_err (os_st os') = fs_err (os_st os)"
  shows "grant_done st os' = grant_done st os"
  unfolding grant_done_def flock_ok_def using assms by simp

lemma flock_finish_ok:
  assumes "grant_done st os"
  shows "\<exists>st'. flock_finish os = Some (LDLM_ITER_CONTINUE, st') \<and> granted_post st st'"
proof (cases "os_added os")
  case True
  have "lr_granted (os_res os) = remove_lock (l_ptr (fs_req st)) (lr_granted (os_res os))"
    using assms True by (simp add: grant_done_def)
  then show ?thesis
    using assms True
    by (auto simp: flock_finish_def ldlm_flock_destroy_def LASSERT_def grant_done_def granted_post_def os_res_def
      ldlm_resource_unlink_lock_def ldlm_flock_unlink_lock_def)
next
  case False
  have w: "remove_lock (l_ptr (fs_req st)) (lr_waiting (os_res os)) = lr_waiting (os_res os)"
    using assms False by (simp add: grant_done_def)
  have "granted_post st (os_st os)"
    using assms False unfolding grant_done_def granted_post_def w by (auto simp: os_res_def)
  then show ?thesis using False by (simp add: flock_finish_def)
qed

text \<open>An unlock leaves the granted locks alone or asks for the waiting locks to be processed.\<close>

lemma unlock_needs_reprocess:
  assumes pd: "passes_done st os0 os" and nl: "l_req_mode (fs_req st) = LCK_NL"
    and G: "G = (if os_added os then lr_granted (os_res os) else lr_granted (os_res os) @ [n])"
    and g: "lr_granted (os_res os') = G \<or> lr_granted (os_res os') = flag_lock (l_ptr (fs_req st)) f G"
    and p: "l_ptr (fs_req st) \<notin> l_ptr ` set (lr_granted (os_res os))"
    and re: "lfn_needs_reprocess (os_res os') = lfn_needs_reprocess (os_res os)"
  shows "lr_granted (os_res os') = lr_granted (fs_res st) \<or> lfn_needs_reprocess (os_res os')"
proof -
  have "G = lr_granted (os_res os)" using pd nl by (simp add: passes_done_def loop_ok_def G)
  then have "lr_granted (os_res os') = lr_granted (os_res os)" using g p by auto
  moreover have "os = os0 \<or> lfn_needs_reprocess (os_res os)" using pd nl by (auto simp: passes_done_def loop_ok_def)
  ultimately show ?thesis using passes_done_D(4) [OF pd] re by auto
qed

lemma flock_grant_ok:
  assumes pd: "passes_done st os0 os" and r: "req_ok (fs_req st)" and ok: "flock_ok (fs_res st)"
    and p: "l_ptr (fs_req st) \<notin> l_ptr ` set (lr_granted (fs_res st))"
    and c: "l_completion_ast (fs_req st) \<or> intention = LDLM_PROCESS_ENQUEUE \<or> fs_flags st = LDLM_FL_WAIT_NOREPROC"
  shows "\<exists>os'. flock_grant intention os = Some os' \<and> grant_ok st os'"
proof -
  define n where "n = (fs_req (os_st os))\<lparr>l_granted_mode := l_req_mode (fs_req (os_st os))\<rparr>"
  define G where "G = (if os_added os then lr_granted (os_res os) else lr_granted (os_res os) @ [n])"
  define W where "W = (if os_added os then lr_waiting (os_res os) else remove_lock (l_ptr n) (lr_waiting (os_res os)))"
  note E = granted_end [OF pd r ok p n_def G_def]
  note D = passes_done_D [OF pd]
  have q: "l_ptr (fs_req (os_st os)) = l_ptr (fs_req st)" "l_completion_ast (fs_req (os_st os)) = l_completion_ast (fs_req st)"
      "\<not> l_exp_flock_hash (fs_req (os_st os))" "l_req_mode (fs_req (os_st os)) = l_req_mode (fs_req st)"
    using arg_cong [OF D(1), of l_ptr] arg_cong [OF D(1), of l_completion_ast] arg_cong [OF D(1), of l_exp_flock_hash]
      arg_cong [OF D(1), of l_req_mode] r by simp_all
  note fl = D(8,9,6,7,10,11,12)
  obtain os' f where os': "flock_grant intention os = Some os'" "os_added os' = os_added os"
    "lr_granted (os_res os') = G \<or> lr_granted (os_res os') = flag_lock (l_ptr n) f G" "lr_waiting (os_res os') = W"
    "fs_flags (os_st os') = fs_flags (os_st os)" "fs_err (os_st os') = fs_err (os_st os)"
    "l_ptr (fs_req (os_st os')) = l_ptr n" "l_exp_flock_hash (fs_req (os_st os')) = l_exp_flock_hash n"
    "l_req_mode (fs_req (os_st os')) = l_req_mode n" "lfn_needs_reprocess (os_res os') = lfn_needs_reprocess (os_res os)"
    "lfn_unlock_pending (os_res os') = lfn_unlock_pending (os_res os)"
    using flock_grant_total [OF _ _ n_def G_def W_def, of intention] c q E(6) fl(1) by auto
  let ?W = "remove_lock (l_ptr (fs_req st)) (lr_waiting (os_res os))"
  have W': "remove_lock (l_ptr (fs_req st)) W = ?W" by (simp add: W_def n_def q(1) remove_lock_def)
  have g: "map l_ptr (lr_granted (os_res os')) = map l_ptr G" "\<forall>l\<in>set (lr_granted (os_res os')). lock_ok l"
      "own_disjoint (lr_granted (os_res os'))" "flock_holds (lr_granted (os_res os')) = flock_holds G"
    using os'(3) E(2,3) flag_lock_disjoint [OF E(2)] by (metis flag_lock_simps(1,2,3))+
  have ptrs: "l_ptr ` set (lr_granted (os_res os')) = l_ptr ` set G"
    using g(1) by (metis list.set_map)
  have "flock_ok ((os_res os')\<lparr>lr_waiting := ?W\<rparr>)"
    using g(1-3) ptrs E(4,5) distinct_remove_lock [OF flock_ok_D(2) [OF fl(5)]] fl(3,5)
    unfolding flock_ok_def by (simp add: image_Un [symmetric])
  moreover have "l_req_mode (fs_req st) = LCK_NL \<longrightarrow>
      lr_granted (os_res os') = lr_granted (fs_res st) \<or> lfn_needs_reprocess (os_res os')"
    using unlock_needs_reprocess [OF pd _ G_def, of os' f] os'(3,10) E(6) by (simp add: n_def q(1))
  moreover have "l_req_mode (fs_req st) = LCK_NL \<longrightarrow> os_added os'"
    using pd os'(2) by (simp add: passes_done_def loop_ok_def)
  moreover have "os_added os' \<longrightarrow> l_ptr (fs_req st) \<notin> l_ptr ` set (lr_granted (os_res os'))"
    using ptrs os'(2) E(6) by (simp add: G_def)
  moreover have "\<not> os_added os' \<longrightarrow> l_ptr (fs_req st) \<notin> l_ptr ` set (lr_waiting (os_res os'))"
    using os'(2,4) by (auto simp: W_def n_def q(1))
  moreover have "set W \<subseteq> set (lr_waiting (fs_res st))" using fl(3,4) by (auto simp: W_def)
  ultimately have "grant_ok st os'"
    unfolding grant_ok_def grant_done_def g(4) os'(4) W' using E(1,7) os'(5-9,11) q fl ptrs by (simp add: n_def)
  then show ?thesis using os'(1) by blast
qed

text \<open>A request that meets no conflict is granted.\<close>

lemma flock_process_once_grant:
  assumes "iter_ok (fe_iter env)" and "relock_quiet (fe_relock env)" and ok: "flock_ok (fs_res st)"
    and r: "req_ok (fs_req st)" and "no_conflict st" and "\<not> flag_set (fs_flags st) LDLM_FL_TEST_LOCK" and "split_ok env st"
    and p: "l_ptr (fs_req st) \<notin> l_ptr ` set (lr_granted (fs_res st))"
    and c: "l_completion_ast (fs_req st) \<or> intention = LDLM_PROCESS_ENQUEUE \<or> fs_flags st = LDLM_FL_WAIT_NOREPROC"
  shows "\<exists>st'. flock_process_once env intention st = Some (LDLM_ITER_CONTINUE, st') \<and> granted_post st st'"
proof -
  obtain os0 os where os: "flock_passes env intention st = Some (Pass_Own (Own_Done os))" "passes_done st os0 os"
    using flock_passes_grant [OF assms(1-7)] by blast
  obtain os' where os': "flock_grant intention os = Some os'" "grant_ok st os'"
    using flock_grant_ok [OF os(2) r ok p c] by blast
  show ?thesis using flock_finish_ok [of st os'] os'(2) os(1) os'(1) by (simp add: flock_process_once_def grant_ok_def)
qed

end
