(* ===== verification/Ldlm_Flock_Wake.thy ===== *)
theory Ldlm_Flock_Wake
  imports Ldlm_Flock_Process
begin

text \<open>
  Conflicting requests, mutual exclusion of owners byte by byte, and the reprocessing of the waiting locks at the end of an unlock.
\<close>

section \<open>Conflicts, byte by byte\<close>

definition flock_exclusive :: "ldlm_lock list \<Rightarrow> bool" where
  "flock_exclusive G \<longleftrightarrow> (\<forall>l\<in>set G. \<forall>l'\<in>set G. flock_owner_of l \<noteq> flock_owner_of l' \<longrightarrow>
     flock_range l \<inter> flock_range l' \<noteq> {} \<longrightarrow> lockmode_compat (l_granted_mode l) (l_granted_mode l'))"

lemma flock_exclusive_bytes:
  "flock_exclusive G \<longleftrightarrow> (\<forall>own own' x m m'. own \<noteq> own' \<longrightarrow> flock_holds G own x m \<longrightarrow> flock_holds G own' x m' \<longrightarrow>
     lockmode_compat m m')"
proof
  assume "flock_exclusive G"
  then show "\<forall>own own' x m m'. own \<noteq> own' \<longrightarrow> flock_holds G own x m \<longrightarrow> flock_holds G own' x m' \<longrightarrow> lockmode_compat m m'"
    unfolding flock_exclusive_def flock_holds_def by blast
next
  assume b: "\<forall>own own' x m m'. own \<noteq> own' \<longrightarrow> flock_holds G own x m \<longrightarrow> flock_holds G own' x m' \<longrightarrow> lockmode_compat m m'"
  show "flock_exclusive G"
    unfolding flock_exclusive_def
  proof (intro ballI impI)
    fix l l' assume l: "l \<in> set G" "l' \<in> set G" "flock_owner_of l \<noteq> flock_owner_of l'" "flock_range l \<inter> flock_range l' \<noteq> {}"
    then obtain x where "x \<in> flock_range l" "x \<in> flock_range l'" by blast
    then have "flock_holds G (flock_owner_of l) x (l_granted_mode l)" "flock_holds G (flock_owner_of l') x (l_granted_mode l')"
      using l(1,2) unfolding flock_holds_def by blast+
    then show "lockmode_compat (l_granted_mode l) (l_granted_mode l')" using b l(3) by blast
  qed
qed

lemma flock_compat_bytes:
  assumes "\<forall>l\<in>set G. lock_ok l" and "fl_start req \<le> fl_end req"
  shows "flock_compat req G \<longleftrightarrow> (\<forall>own x m. own \<noteq> flock_owner_of req \<longrightarrow> x \<in> flock_range req \<longrightarrow> flock_holds G own x m \<longrightarrow>
     lockmode_compat m (l_req_mode req))"
proof -
  have "ldlm_flocks_overlap l req \<longleftrightarrow> (\<exists>x. x \<in> flock_range l \<and> x \<in> flock_range req)" if "l \<in> set G" for l
    using overlap_iff [of l req] assms that by (auto simp: lock_ok_def)
  then show ?thesis unfolding flock_compat_def flock_holds_def by blast
qed

lemma posix_compat:
  "m \<in> {LCK_PR, LCK_PW} \<Longrightarrow> m' \<in> {LCK_PR, LCK_PW} \<Longrightarrow> lockmode_compat m m' \<longleftrightarrow> m = LCK_PR \<and> m' = LCK_PR"
  by auto

lemma holds_mode: "\<forall>l\<in>set G. lock_ok l \<Longrightarrow> flock_holds G own x m \<Longrightarrow> m \<in> {LCK_PR, LCK_PW}"
  by (auto simp: flock_holds_def lock_ok_def)

text \<open>A grant without a conflict keeps owners apart.\<close>

lemma flock_exclusive_grant:
  assumes ex: "flock_exclusive G" and ok: "\<forall>l\<in>set G. lock_ok l" and r: "req_ok req"
    and c: "flock_compat req G \<or> l_req_mode req = LCK_NL"
    and G': "\<And>own x m. flock_holds G' own x m \<longleftrightarrow> posix_grant req (flock_holds G) own x m"
  shows "flock_exclusive G'"
  unfolding flock_exclusive_bytes
proof (intro allI impI)
  fix own own' x m m' assume a: "own \<noteq> own'" "flock_holds G' own x m" "flock_holds G' own' x m'"
  let ?in = "\<lambda>w. w = flock_owner_of req \<and> x \<in> flock_range req"
  have new: "lockmode_compat k (l_req_mode req)"
    if "flock_holds G w x k" "w \<noteq> flock_owner_of req" "x \<in> flock_range req" "l_req_mode req \<noteq> LCK_NL" for w k
    using c flock_compat_bytes [OF ok] r that unfolding req_ok_def by blast
  have modes: "k \<in> {LCK_PR, LCK_PW}" if "flock_holds G w x k" for w k using holds_mode [OF ok that] .
  have rm: "l_req_mode req \<in> {LCK_PR, LCK_PW}" if "l_req_mode req \<noteq> LCK_NL" using r that by (auto simp: req_ok_def)
  consider "\<not> ?in own" "\<not> ?in own'" | "?in own" "\<not> ?in own'" | "\<not> ?in own" "?in own'" using a(1) by blast
  then show "lockmode_compat m m'"
  proof cases
    case 1
    then have "flock_holds G own x m" "flock_holds G own' x m'"
      using a(2,3) unfolding G' posix_grant_def by (auto split: if_splits)
    then show ?thesis using ex a(1) unfolding flock_exclusive_bytes by blast
  next
    case 2
    then have "m = l_req_mode req" "m \<noteq> LCK_NL" and h: "flock_holds G own' x m'"
      using a(2,3) unfolding G' posix_grant_def by (auto split: if_splits)
    then show ?thesis using new [OF h] modes [OF h] rm 2 a(1) by (metis posix_compat)
  next
    case 3
    then have "m' = l_req_mode req" "m' \<noteq> LCK_NL" and h: "flock_holds G own x m"
      using a(2,3) unfolding G' posix_grant_def by (auto split: if_splits)
    then show ?thesis using new [OF h] 3 a(1) by metis
  qed
qed

section \<open>A conflicting request\<close>

lemma flock_passes_conflict:
  assumes it: "iter_ok (fe_iter env)" and d: "distinct (map l_ptr (lr_granted (fs_res st)))"
    and m: "l_req_mode (fs_req st) \<in> {LCK_PR, LCK_PW}" and nr: "fs_flags st \<noteq> LDLM_FL_WAIT_NOREPROC"
    and nc: "\<not> flock_compat (fs_req st) (lr_granted (fs_res st))"
  shows "\<exists>l\<in>set (lr_granted (fs_res st)). flock_owner_of l \<noteq> flock_owner_of (fs_req st) \<and>
    ldlm_flocks_overlap l (fs_req st) \<and> \<not> lockmode_compat (l_granted_mode l) (l_req_mode (fs_req st)) \<and>
    flock_passes env intention st = map_option (\<lambda>(it, s). Pass_Return it s) (flock_conflict env intention l (st\<lparr>fs_err := 0\<rparr>))"
proof -
  let ?mode = "l_req_mode (fs_req st)"
  define se where "se = flock_widen (fs_flags st) ?mode (fl_start (fs_req st), fl_end (fs_req st))"
  have cov: "covers se (fs_req st)" unfolding se_def by (rule widen_covers) (simp add: covers_def)
  define locks where "locks = fe_iter env (lr_granted (fs_res st)) (fst se) (snd se)"
  have "\<not> flock_compat (fs_req st) locks" using nc iter_compat [OF it d cov] by (simp add: locks_def)
  from flock_scan_conflict [OF this, of "[]"]
  obtain l where l: "l \<in> set locks" "flock_scan (fs_req st) ?mode [] locks = Inl l"
    "flock_owner_of l \<noteq> flock_owner_of (fs_req st)" "ldlm_flocks_overlap l (fs_req st)"
    "\<not> lockmode_compat (l_granted_mode l) ?mode" by blast
  have "l \<in> set (lr_granted (fs_res st))" using l(1) it d unfolding locks_def iter_ok_def by blast
  moreover have nl: "?mode \<noteq> LCK_NL" using m by auto
  have "flock_pass env intention ?mode se None False (st\<lparr>fs_err := 0\<rparr>) =
      map_option (\<lambda>(it, s). Pass_Return it s) (flock_conflict env intention l (st\<lparr>fs_err := 0\<rparr>))"
    using nl nr m l(2) posix_mode_verify [of ?mode] by (auto simp: flock_pass_def Let_def locks_def)
  then have "flock_passes env intention st =
      map_option (\<lambda>(it, s). Pass_Return it s) (flock_conflict env intention l (st\<lparr>fs_err := 0\<rparr>))"
    using nl by (cases "flock_conflict env intention l (st\<lparr>fs_err := 0\<rparr>)") (auto simp: flock_passes_def Let_def se_def)
  ultimately show ?thesis using l(3-5) by blast
qed

section \<open>The search for a deadlock when no holder waits\<close>

lemma flock_lookup_cb_none:
  "\<forall>b\<in>set (fw_blocked w). fl_owner b \<noteq> own \<Longrightarrow> ldlm_flock_lookup_cb w own exp = None"
  by (auto simp: ldlm_flock_lookup_cb_def find_None_iff)

lemma flock_lookup_none:
  "\<forall>b\<in>set (fw_blocked w). fl_owner b \<noteq> own \<Longrightarrow> flock_lookup_exports w own exps = None"
  by (induction exps) (simp_all add: flock_lookup_cb_none)

lemma ldlm_flock_deadlock_none:
  assumes "\<forall>b\<in>set (fw_blocked w). fl_owner b \<noteq> fl_owner l" and "fuel > 0" and "l_export l \<noteq> None"
  shows "ldlm_flock_deadlock fuel w req l = Some False"
  using assms flock_lookup_none [OF assms(1)]
  by (cases fuel) (auto simp: ldlm_flock_deadlock_def Let_def split: option.split)

section \<open>Reprocessing\<close>

text \<open>
  The waiting locks of a server: each of a different owner, none of which holds a lock of the resource, and no owner of the
  resource waits for another resource.
\<close>

definition waiters_ok :: "flock_env \<Rightarrow> ldlm_resource \<Rightarrow> bool" where
  "waiters_ok env res \<longleftrightarrow>
     (\<forall>w\<in>set (lr_waiting res). l_export w \<noteq> None \<and> l_completion_ast w \<and> req_ok w) \<and>
     (\<forall>l\<in>set (lr_granted res). l_export l \<noteq> None) \<and>
     inj_on fl_owner (set (lr_waiting res)) \<and>
     (\<forall>w\<in>set (lr_waiting res). \<forall>l\<in>set (lr_granted res). fl_owner w \<noteq> fl_owner l) \<and>
     (\<forall>b\<in>set (fw_blocked (fe_world env)). fl_owner b \<notin> fl_owner ` (set (lr_waiting res) \<union> set (lr_granted res)))"

text \<open>Every waiting lock waits for a granted one.\<close>

definition flock_settled :: "ldlm_resource \<Rightarrow> bool" where
  "flock_settled res \<longleftrightarrow> (\<forall>w\<in>set (lr_waiting res). \<not> flock_compat w (lr_granted res))"

definition blocked_on :: "ldlm_lock \<Rightarrow> ldlm_lock \<Rightarrow> ldlm_lock" where
  "blocked_on l w = (ldlm_flock_blocking_unlink w)\<lparr>fl_blocking_owner := fl_owner l, fl_blocking_export := l_export l,
     l_exp_flock_hash := True\<rparr>"

lemma blocked_on_simps [simp]:
  "l_ptr (blocked_on l w) = l_ptr w" "l_export (blocked_on l w) = l_export w" "fl_owner (blocked_on l w) = fl_owner w"
  "l_req_mode (blocked_on l w) = l_req_mode w" "l_granted_mode (blocked_on l w) = l_granted_mode w"
  "l_completion_ast (blocked_on l w) = l_completion_ast w" "flock_owner_of (blocked_on l w) = flock_owner_of w"
  "flock_compat (blocked_on l w) G = flock_compat w G"
  by (simp_all add: blocked_on_def flock_owner_of_def flock_compat_def ldlm_flocks_overlap_def)

lemma req_ok_blocked_on [simp]: "l_export w \<noteq> None \<Longrightarrow> req_ok (blocked_on l w) = req_ok w"
  by (auto simp: req_ok_def blocked_on_def)

lemma flock_conflict_rescan:
  assumes "l_export (fs_req st) \<noteq> None" and "l_export l \<noteq> None"
    and "ldlm_flock_deadlock (fe_fuel env) (flock_world_of env (st\<lparr>fs_req := blocked_on l (fs_req st),
        fs_res := put_waiting (blocked_on l (fs_req st)) (fs_res st)\<rparr>)) (blocked_on l (fs_req st)) l = Some False"
  shows "flock_conflict env LDLM_PROCESS_RESCAN l st = Some (LDLM_ITER_CONTINUE, st\<lparr>fs_req := blocked_on l (fs_req st),
      fs_res := put_waiting (blocked_on l (fs_req st)) (fs_res st)\<rparr>)"
proof -
  have u: "\<not> l_exp_flock_hash (ldlm_flock_blocking_unlink (fs_req st))"
    using assms(1) by (auto simp: ldlm_flock_blocking_unlink_def ldlm_export_flock_put_def)
  have "ldlm_flock_blocking_link (ldlm_flock_blocking_unlink (fs_req st)) l = Some (blocked_on l (fs_req st))"
    using assms(1,2) u by (auto simp: ldlm_flock_blocking_link_def ldlm_export_flock_get_def LASSERT_def blocked_on_def)
  then show ?thesis using assms(3) by (simp add: flock_conflict_def Let_def)
qed

text \<open>A waiting lock that still conflicts stays in the queue.\<close>

lemma rescan_blocked:
  assumes it: "iter_ok (fe_iter env)" and fuel: "fe_fuel env > 0" and ok: "flock_ok res" and w: "waiters_ok env res"
    and p: "p \<in> set (lr_waiting res)" and nc: "\<not> flock_compat p (lr_granted res)"
  shows "\<exists>l st. flock_process_once env LDLM_PROCESS_RESCAN \<lparr>fs_res = res, fs_req = p, fs_flags = 0, fs_err = 0, fs_work = []\<rparr> =
      Some (LDLM_ITER_CONTINUE, st) \<and> fs_res st = put_waiting (blocked_on l p) res"
proof -
  let ?st = "\<lparr>fs_res = res, fs_req = p, fs_flags = 0, fs_err = 0, fs_work = []\<rparr>"
  have m: "l_req_mode p \<in> {LCK_PR, LCK_PW}" using ok p by (auto simp: flock_ok_def)
  obtain l where l: "l \<in> set (lr_granted res)" "flock_passes env LDLM_PROCESS_RESCAN ?st =
      map_option (\<lambda>(it, s). Pass_Return it s) (flock_conflict env LDLM_PROCESS_RESCAN l ?st)"
    using flock_passes_conflict [OF it, of ?st LDLM_PROCESS_RESCAN] flock_ok_D(1) [OF ok] m nc
    by (auto simp: LDLM_FL_WAIT_NOREPROC_def)
  have ex: "l_export p \<noteq> None" "l_export l \<noteq> None" using w p l(1) by (auto simp: waiters_ok_def)
  have free: "fl_owner b \<noteq> fl_owner l" if "b \<in> set (fw_blocked (fe_world env)) \<union> set (lr_waiting res)" for b
    using that w l(1) by (auto simp: waiters_ok_def)
  have "ldlm_flock_deadlock (fe_fuel env) (flock_world_of env (?st\<lparr>fs_req := blocked_on l p,
      fs_res := put_waiting (blocked_on l p) res\<rparr>)) (blocked_on l p) l = Some False"
    by (rule ldlm_flock_deadlock_none [OF _ fuel ex(2)])
      (use free p in \<open>auto simp: flock_world_of_def put_waiting_def update_lock_def\<close>)
  then have "flock_conflict env LDLM_PROCESS_RESCAN l ?st = Some (LDLM_ITER_CONTINUE, ?st\<lparr>fs_req := blocked_on l p,
      fs_res := put_waiting (blocked_on l p) res\<rparr>)"
    using flock_conflict_rescan [of ?st l env] ex by simp
  then show ?thesis using l(2) by (auto simp: flock_process_once_def)
qed

lemma put_waiting_ok:
  assumes ok: "flock_ok res" and w: "waiters_ok env res" and p: "p \<in> set (lr_waiting res)"
  shows "flock_ok (put_waiting (blocked_on l p) res)" "waiters_ok env (put_waiting (blocked_on l p) res)"
    "set (lr_waiting (put_waiting (blocked_on l p) res)) = insert (blocked_on l p) (set (lr_waiting res) - {p})"
    "map l_ptr (lr_waiting (put_waiting (blocked_on l p) res)) = map l_ptr (lr_waiting res)"
proof -
  note F = flock_ok_D [OF ok]
  show W: "set (lr_waiting (put_waiting (blocked_on l p) res)) = insert (blocked_on l p) (set (lr_waiting res) - {p})"
    using set_update_lock [OF F(2) p refl] by (simp add: put_waiting_def)
  show m: "map l_ptr (lr_waiting (put_waiting (blocked_on l p) res)) = map l_ptr (lr_waiting res)"
    by (auto simp: put_waiting_def update_lock_def)
  then have im: "l_ptr ` set (lr_waiting (put_waiting (blocked_on l p) res)) = l_ptr ` set (lr_waiting res)"
    by (metis list.set_map)
  have g: "lr_granted (put_waiting (blocked_on l p) res) = lr_granted res" by (simp add: put_waiting_def)
  show "flock_ok (put_waiting (blocked_on l p) res)"
    using ok p unfolding flock_ok_def map_append distinct_append m g W by auto
  have "inj_on fl_owner (insert (blocked_on l p) (set (lr_waiting res) - {p}))"
    using w p by (auto simp: waiters_ok_def inj_on_def)
  then show "waiters_ok env (put_waiting (blocked_on l p) res)"
    using w p unfolding waiters_ok_def g W by auto
qed

text \<open>A waiting lock without a conflict is granted.\<close>

abbreviation rescan_state :: "ldlm_resource \<Rightarrow> ldlm_lock \<Rightarrow> flock_state" where
  "rescan_state res p \<equiv> \<lparr>fs_res = res, fs_req = p, fs_flags = 0, fs_err = 0, fs_work = []\<rparr>"

lemma rescan_granted:
  assumes it: "iter_ok (fe_iter env)" and re: "relock_quiet (fe_relock env)" and ok: "flock_ok res" and w: "waiters_ok env res"
    and p: "p \<in> set (lr_waiting res)" and c: "flock_compat p (lr_granted res)"
  shows "\<exists>st. flock_process_once env LDLM_PROCESS_RESCAN (rescan_state res p) = Some (LDLM_ITER_CONTINUE, st) \<and>
    granted_post (rescan_state res p) st"
proof (rule flock_process_once_grant [OF it re])
  have "\<not> flock_splits p (lr_granted res)"
    using w p unfolding flock_splits_def waiters_ok_def flock_owner_of_def by (metis prod.inject)
  then show "split_ok env (rescan_state res p)" by (simp add: split_ok_def)
  show "\<not> flag_set (fs_flags (rescan_state res p)) LDLM_FL_TEST_LOCK" by (simp add: flag_set_def)
qed (use ok w p c flock_ok_D(3) [OF ok] in \<open>auto simp: waiters_ok_def no_conflict_def\<close>)

lemma holds_owner: "flock_holds G own x m \<Longrightarrow> own \<in> flock_owner_of ` set G"
  unfolding flock_holds_def by (metis image_eqI)

lemma owner_of_holds:
  assumes "\<forall>l\<in>set G'. lock_ok l" and "\<And>own x m. flock_holds G' own x m \<longleftrightarrow> posix_grant req (flock_holds G) own x m"
    and "l \<in> set G'"
  shows "flock_owner_of l = flock_owner_of req \<and> l_req_mode req \<noteq> LCK_NL \<or> flock_owner_of l \<in> flock_owner_of ` set G"
proof -
  have "flock_holds G' (flock_owner_of l) (fl_start l) (l_granted_mode l)"
    using assms(1,3) unfolding flock_holds_def flock_range_def lock_ok_def by force
  then show ?thesis
    unfolding assms(2) posix_grant_def using holds_owner by (metis (full_types))
qed

lemma waiters_ok_owners:
  assumes w: "waiters_ok env res" and W: "set (lr_waiting res') \<subseteq> set (lr_waiting res)"
    and G: "\<forall>l\<in>set (lr_granted res'). flock_owner_of l \<in> flock_owner_of ` (set (lr_granted res) \<union> (set (lr_waiting res) - set (lr_waiting res')))"
  shows "waiters_ok env res'"
proof -
  have g: "\<exists>k\<in>set (lr_granted res) \<union> (set (lr_waiting res) - set (lr_waiting res')). l_export k = l_export l \<and> fl_owner k = fl_owner l"
    if "l \<in> set (lr_granted res')" for l
    using bspec [OF G that] by (auto simp: flock_owner_of_def)
  have ex: "l_export l \<noteq> None" if l: "l \<in> set (lr_granted res')" for l
    using g [OF l] w unfolding waiters_ok_def by (metis DiffE Un_iff)
  have ne: "fl_owner v \<noteq> fl_owner l" if v: "v \<in> set (lr_waiting res')" and l: "l \<in> set (lr_granted res')" for v l
    using g [OF l] w W v unfolding waiters_ok_def inj_on_def by (metis DiffE Un_iff subsetD)
  have bl: "fl_owner b \<noteq> fl_owner l" if b: "b \<in> set (fw_blocked (fe_world env))" and l: "l \<in> set (lr_granted res')" for b l
    using g [OF l] w b unfolding waiters_ok_def by (metis DiffE UnCI UnE image_eqI)
  show ?thesis
    unfolding waiters_ok_def
  proof (intro conjI)
    show "inj_on fl_owner (set (lr_waiting res'))" using w W by (auto simp: waiters_ok_def intro: inj_on_subset)
    show "\<forall>v\<in>set (lr_waiting res'). \<forall>l\<in>set (lr_granted res'). fl_owner v \<noteq> fl_owner l" using ne by blast
    show "\<forall>b\<in>set (fw_blocked (fe_world env)). fl_owner b \<notin> fl_owner ` (set (lr_waiting res') \<union> set (lr_granted res'))"
      using bl w W unfolding waiters_ok_def by (auto simp: image_iff)
  qed (use ex w W in \<open>auto simp: waiters_ok_def\<close>)
qed

lemma conflict_stays:
  assumes ok: "\<forall>l\<in>set G. lock_ok l" "\<forall>l\<in>set G'. lock_ok l" and v: "fl_start v \<le> fl_end v" and nc: "\<not> flock_compat v G"
    and new: "\<forall>l\<in>set G. flock_owner_of l \<noteq> flock_owner_of req"
    and G': "\<And>own x m. flock_holds G' own x m \<longleftrightarrow> posix_grant req (flock_holds G) own x m"
  shows "\<not> flock_compat v G'"
proof -
  obtain own x m where h: "own \<noteq> flock_owner_of v" "x \<in> flock_range v" "flock_holds G own x m" "\<not> lockmode_compat m (l_req_mode v)"
    using nc unfolding flock_compat_bytes [OF ok(1) v] by blast
  have "own \<noteq> flock_owner_of req" using h(3) new by (auto simp: flock_holds_def)
  then have "flock_holds G' own x m" unfolding G' using h(3) by (simp add: posix_grant_def)
  then show ?thesis using h unfolding flock_compat_bytes [OF ok(2) v] by blast
qed

text \<open>
  The loop over the waiting queue: those visited and still there have a conflict. The address \<open>q0\<close> of the unlock request is
  not on the queues.
\<close>

definition wake_inv :: "flock_env \<Rightarrow> nat \<Rightarrow> nat set \<Rightarrow> ldlm_resource \<Rightarrow> bool" where
  "wake_inv env q0 ps res \<longleftrightarrow> flock_ok res \<and> waiters_ok env res \<and> flock_exclusive (lr_granted res) \<and>
     ps \<subseteq> l_ptr ` set (lr_waiting res) \<and> (\<forall>v\<in>set (lr_waiting res). l_ptr v \<notin> ps \<longrightarrow> \<not> flock_compat v (lr_granted res)) \<and>
     q0 \<notin> l_ptr ` (set (lr_granted res) \<union> set (lr_waiting res))"

lemma wake_inv_granted:
  assumes inv: "wake_inv env q0 (insert (l_ptr p) ps) res" and new: "l_ptr p \<notin> ps" and p: "p \<in> set (lr_waiting res)"
    and c: "flock_compat p (lr_granted res)" and post: "granted_post (rescan_state res p) st"
  shows "wake_inv env q0 ps (fs_res st)"
proof -
  have ok: "flock_ok res" and w: "waiters_ok env res" and ex: "flock_exclusive (lr_granted res)"
    and sub: "insert (l_ptr p) ps \<subseteq> l_ptr ` set (lr_waiting res)"
    and nc: "\<And>v. v \<in> set (lr_waiting res) \<Longrightarrow> l_ptr v \<notin> insert (l_ptr p) ps \<Longrightarrow> \<not> flock_compat v (lr_granted res)"
    using inv unfolding wake_inv_def by blast+
  have ok': "flock_ok (fs_res st)"
    and G': "\<And>own x m. flock_holds (lr_granted (fs_res st)) own x m \<longleftrightarrow> posix_grant p (flock_holds (lr_granted res)) own x m"
    using post by (simp_all add: granted_post_def del: split_paired_All)
  note F = flock_ok_D [OF ok] and F' = flock_ok_D [OF ok']
  have W: "lr_waiting (fs_res st) = remove_lock (l_ptr p) (lr_waiting res)" using post F(6) p by (simp add: granted_post_def)
  then have W': "set (lr_waiting (fs_res st)) = set (lr_waiting res) - {p}" using others [OF F(2) p refl] by simp
  have pr: "req_ok p" and pn: "\<forall>l\<in>set (lr_granted res). flock_owner_of l \<noteq> flock_owner_of p"
    using w p unfolding waiters_ok_def flock_owner_of_def by (auto; metis)+
  have "waiters_ok env (fs_res st)"
    by (rule waiters_ok_owners [OF w]) (use owner_of_holds [OF F'(4) G'] p in \<open>auto simp: W'\<close>)
  moreover have "flock_exclusive (lr_granted (fs_res st))"
    by (rule flock_exclusive_grant [OF ex F(4) pr _ G']) (use c in simp)
  moreover have "\<not> flock_compat v (lr_granted (fs_res st))" if "v \<in> set (lr_waiting (fs_res st))" "l_ptr v \<notin> ps" for v
  proof (rule conflict_stays [OF F(4) F'(4) _ _ pn G'])
    have v: "v \<in> set (lr_waiting res)" "l_ptr v \<noteq> l_ptr p" using that(1) W by auto
    then show "\<not> flock_compat v (lr_granted res)" using nc that(2) by simp
    show "fl_start v \<le> fl_end v" using w v(1) by (simp add: waiters_ok_def req_ok_def)
  qed
  moreover have "q0 \<notin> l_ptr ` (set (lr_granted (fs_res st)) \<union> set (lr_waiting (fs_res st)))"
  proof -
    have "\<not> flock_splits p (lr_granted res)" using pn by (auto simp: flock_splits_def)
    then have "l_ptr ` set (lr_granted (fs_res st)) \<subseteq> l_ptr ` (set (lr_granted res) \<union> set (lr_waiting res))"
      using post p by (auto simp: granted_post_def)
    then show ?thesis using inv W' unfolding wake_inv_def by blast
  qed
  moreover have "ps \<subseteq> l_ptr ` set (lr_waiting (fs_res st))"
  proof
    fix q assume q: "q \<in> ps"
    then obtain v where "v \<in> set (lr_waiting res)" "l_ptr v = q" using sub by auto
    then show "q \<in> l_ptr ` set (lr_waiting (fs_res st))" using q new by (auto simp: W intro!: rev_image_eqI)
  qed
  ultimately show ?thesis using ok' by (simp add: wake_inv_def)
qed

lemma wake_inv_blocked:
  assumes inv: "wake_inv env q0 (insert (l_ptr p) ps) res" and p: "p \<in> set (lr_waiting res)"
    and nc: "\<not> flock_compat p (lr_granted res)"
  shows "wake_inv env q0 ps (put_waiting (blocked_on l p) res)"
proof -
  have ok: "flock_ok res" and w: "waiters_ok env res" and ex: "flock_exclusive (lr_granted res)"
    and sub: "insert (l_ptr p) ps \<subseteq> l_ptr ` set (lr_waiting res)"
    and old: "\<forall>v\<in>set (lr_waiting res). l_ptr v \<notin> insert (l_ptr p) ps \<longrightarrow> \<not> flock_compat v (lr_granted res)"
    using inv unfolding wake_inv_def by blast+
  note P = put_waiting_ok [OF ok w p, of l]
  have g: "lr_granted (put_waiting (blocked_on l p) res) = lr_granted res" by (simp add: put_waiting_def)
  have "l_ptr v \<noteq> l_ptr p" if "v \<in> set (lr_waiting res) - {p}" for v
    using same_ptr [OF flock_ok_D(2) [OF ok] _ p, of v] that by blast
  then have "\<forall>v\<in>insert (blocked_on l p) (set (lr_waiting res) - {p}). l_ptr v \<notin> ps \<longrightarrow> \<not> flock_compat v (lr_granted res)"
    using old nc by auto
  moreover have "ps \<subseteq> l_ptr ` set (lr_waiting (put_waiting (blocked_on l p) res))"
    using sub P(4) by (metis insert_subset list.set_map)
  moreover have "q0 \<notin> l_ptr ` (set (lr_granted res) \<union> set (lr_waiting (put_waiting (blocked_on l p) res)))"
    using inv P(4) unfolding wake_inv_def image_Un by (metis Un_iff list.set_map)
  ultimately show ?thesis
    unfolding wake_inv_def g using P(1,2,3) ex by simp
qed

lemma reprocess_wakes:
  assumes it: "iter_ok (fe_iter env)" and re: "relock_quiet (fe_relock env)" and fuel: "fe_fuel env > 0"
    and "wake_inv env q0 (set ps) res" and "distinct ps"
  shows "\<exists>res' work'. ldlm_reprocess_queue env LDLM_PROCESS_RESCAN ps (res, work) = Some (res', work') \<and> wake_inv env q0 {} res'"
  using assms(4,5)
proof (induction ps arbitrary: res work)
  case (Cons q ps)
  then obtain p where p: "p \<in> set (lr_waiting res)" "l_ptr p = q" by (auto simp: wake_inv_def)
  have ok: "flock_ok res" and w: "waiters_ok env res" using Cons.prems by (auto simp: wake_inv_def)
  have f: "find_lock q (lr_waiting res) = Some p" using p flock_ok_D(2) [OF ok] by (simp add: find_lock_eq_Some)
  have inv: "wake_inv env q0 (insert (l_ptr p) (set ps)) res" and new: "l_ptr p \<notin> set ps" using Cons.prems p by simp_all
  obtain st where "flock_process_once env LDLM_PROCESS_RESCAN (rescan_state res p) = Some (LDLM_ITER_CONTINUE, st)"
    "wake_inv env q0 (set ps) (fs_res st)"
  proof (cases "flock_compat p (lr_granted res)")
    case True
    then show ?thesis
      using that rescan_granted [OF it re ok w p(1) True] wake_inv_granted [OF inv new p(1) True] by blast
  next
    case False
    then show ?thesis
      using that rescan_blocked [OF it fuel ok w p(1) False] wake_inv_blocked [OF inv p(1) False] by metis
  qed
  then show ?case using Cons.IH [of "fs_res st"] Cons.prems(2) f by (simp add: LASSERT_def Let_def)
qed (simp add: wake_inv_def)

lemma wake_inv_relock:
  "relock_quiet relock \<Longrightarrow> wake_inv env q0 ps (relock (res\<lparr>lfn_needs_reprocess := b\<rparr>)) = wake_inv env q0 ps res"
  by (simp add: wake_inv_def relock_quiet_def flock_ok_def waiters_ok_def)

lemma wake_inv_flag [simp]: "wake_inv env q0 ps (res\<lparr>lfn_needs_reprocess := b\<rparr>) = wake_inv env q0 ps res"
  by (simp add: wake_inv_def flock_ok_def waiters_ok_def)

declare flock_unlock_reprocess.simps [simp del]

text \<open>The end of an unlock leaves no waiting lock without a conflict, whatever the completion callbacks return.\<close>

lemma unlock_reprocess_wakes:
  assumes it: "iter_ok (fe_iter env)" and re: "relock_quiet (fe_relock env)" and fuel: "fe_fuel env > 0"
    and nl: "l_req_mode (fs_req (os_st os)) = LCK_NL"
    and "wake_inv env q0 {} (os_res os) \<or> wake_inv env q0 (l_ptr ` set (lr_waiting (os_res os))) (os_res os) \<and>
      lfn_needs_reprocess (os_res os) \<and> lfn_unlock_pending (os_res os) = 0"
  shows "\<exists>os'. flock_unlock_reprocess env ast os = Some os' \<and> wake_inv env q0 {} (os_res os') \<and>
    os_added os' = os_added os \<and> fs_req (os_st os') = fs_req (os_st os) \<and> fs_flags (os_st os') = fs_flags (os_st os)"
  using nl assms(5)
proof (induction ast arbitrary: os rule: measure_induct_rule [where f = length])
  case (less ast)
  let ?res = "os_res os"
  show ?case
  proof (cases "lfn_needs_reprocess ?res \<and> lfn_unlock_pending ?res = 0")
    case False
    then show ?thesis using less.prems by (subst flock_unlock_reprocess.simps) (auto simp: Let_def)
  next
    case True
    have "wake_inv env q0 (set (map l_ptr (lr_waiting ?res))) ?res"
      using less.prems(2) by (auto simp: wake_inv_def)
    moreover have "distinct (map l_ptr (lr_waiting ?res))"
      using less.prems(2) by (auto simp: wake_inv_def flock_ok_def)
    ultimately obtain res' work where r: "ldlm_reprocess_queue env LDLM_PROCESS_RESCAN (map l_ptr (lr_waiting ?res)) (?res, []) =
        Some (res', work)" "wake_inv env q0 {} res'"
      using reprocess_wakes [OF it re fuel] by blast
    define os' where "os' = os\<lparr>os_st := (os_st os)\<lparr>fs_res := fe_relock env (res'\<lparr>lfn_needs_reprocess := False\<rparr>),
      fs_work := work @ fs_work (os_st os)\<rparr>\<rparr>"
    have w: "wake_inv env q0 {} (os_res os')" using r(2) wake_inv_relock [OF re] by (simp add: os'_def os_res_def)
    have e: "flock_unlock_reprocess env ast os = (case ast of
        True # rest \<Rightarrow> flock_unlock_reprocess env rest (set_res ((os_res os')\<lparr>lfn_needs_reprocess := True\<rparr>) os') | _ \<Rightarrow> Some os')"
      unfolding os'_def using True less.prems(1) r(1) by (subst flock_unlock_reprocess.simps) (simp add: Let_def)
    show ?thesis
    proof (cases "\<exists>rest. ast = True # rest")
      case False
      then have "flock_unlock_reprocess env ast os = Some os'" unfolding e by (auto split: list.split bool.split)
      then show ?thesis using w by (simp add: os'_def)
    next
      case True
      then obtain rest where rest: "ast = True # rest" by blast
      let ?os = "set_res ((os_res os')\<lparr>lfn_needs_reprocess := True\<rparr>) os'"
      have "wake_inv env q0 {} (os_res ?os)" using w by (simp add: set_res_def os_res_def)
      moreover have "l_req_mode (fs_req (os_st ?os)) = LCK_NL" using less.prems(1) by (simp add: set_res_def os'_def)
      ultimately obtain os2 where os2: "flock_unlock_reprocess env rest ?os = Some os2" "wake_inv env q0 {} (os_res os2)"
          "os_added os2 = os_added ?os" "fs_req (os_st os2) = fs_req (os_st ?os)" "fs_flags (os_st os2) = fs_flags (os_st ?os)"
        using less.IH [of rest ?os] rest by auto
      have "flock_unlock_reprocess env ast os = Some os2" using e os2(1) by (simp add: rest)
      then show ?thesis using os2(2-5) by (simp add: set_res_def os'_def)
    qed
  qed
qed

text \<open>An unlock of a server: the bytes are given up and then the waiting locks that can be granted are.\<close>

lemma unlock_wake_start:
  assumes g: "grant_ok st os" and ok: "flock_ok (fs_res st)" and r: "req_ok (fs_req st)" and nl: "l_req_mode (fs_req st) = LCK_NL"
    and w: "waiters_ok env (fs_res st)" and ex: "flock_exclusive (lr_granted (fs_res st))" and s: "flock_settled (fs_res st)"
    and q: "l_ptr (fs_req st) \<notin> l_ptr ` (set (lr_granted (fs_res st)) \<union> set (lr_waiting (fs_res st)))"
    and ns: "l_ptr (fs_req st) \<notin> l_ptr ` set (lr_granted (os_res os))"
  shows "wake_inv env (l_ptr (fs_req st)) (if lfn_needs_reprocess (os_res os) then l_ptr ` set (lr_waiting (os_res os)) else {})
    (os_res os)"
proof -
  have W: "set (lr_waiting (os_res os)) \<subseteq> set (lr_waiting (fs_res st))" using g by (simp add: grant_ok_def grant_done_def)
  then have qw: "l_ptr (fs_req st) \<notin> l_ptr ` set (lr_waiting (os_res os))" using q by auto
  then have ok': "flock_ok (os_res os)" using g by (simp add: grant_ok_def grant_done_def)
  have G: "\<And>own x m. flock_holds (lr_granted (os_res os)) own x m \<longleftrightarrow>
      posix_grant (fs_req st) (flock_holds (lr_granted (fs_res st))) own x m"
    using g by (simp add: grant_ok_def grant_done_def del: split_paired_All)
  note F = flock_ok_D [OF ok] and F' = flock_ok_D [OF ok']
  have "waiters_ok env (os_res os)"
    by (rule waiters_ok_owners [OF w W]) (use owner_of_holds [OF F'(4) G] nl in auto)
  moreover have "flock_exclusive (lr_granted (os_res os))"
    by (rule flock_exclusive_grant [OF ex F(4) r _ G]) (use nl in simp)
  moreover have "\<forall>v\<in>set (lr_waiting (os_res os)). \<not> lfn_needs_reprocess (os_res os) \<longrightarrow> \<not> flock_compat v (lr_granted (os_res os))"
    using g nl s W unfolding grant_ok_def grant_done_def flock_settled_def by auto
  ultimately show ?thesis
    using ok' qw ns unfolding wake_inv_def by auto
qed

lemma flock_unlock_wakes:
  assumes it: "iter_ok (fe_iter env)" and re: "relock_quiet (fe_relock env)" and fuel: "fe_fuel env > 0"
    and ok: "flock_ok (fs_res st)" and r: "req_ok (fs_req st)" and nl: "l_req_mode (fs_req st) = LCK_NL"
    and nt: "\<not> flag_set (fs_flags st) LDLM_FL_TEST_LOCK" and nr: "fs_flags st \<noteq> LDLM_FL_WAIT_NOREPROC" and sp: "split_ok env st"
    and w: "waiters_ok env (fs_res st)" and ex: "flock_exclusive (lr_granted (fs_res st))" and s: "flock_settled (fs_res st)"
    and q: "l_ptr (fs_req st) \<notin> l_ptr ` (set (lr_granted (fs_res st)) \<union> set (lr_waiting (fs_res st)))"
    and pend: "lfn_unlock_pending (fs_res st) = 0"
  shows "\<exists>st'. ldlm_process_flock_lock env ast LDLM_PROCESS_ENQUEUE st = Some (LDLM_ITER_CONTINUE, st') \<and>
    flock_ok (fs_res st') \<and> flock_exclusive (lr_granted (fs_res st')) \<and> flock_settled (fs_res st')"
proof -
  obtain os0 os where os: "flock_passes env LDLM_PROCESS_ENQUEUE st = Some (Pass_Own (Own_Done os))" "passes_done st os0 os"
    using flock_passes_grant [OF it re ok r _ nt sp, of LDLM_PROCESS_ENQUEUE] nl by (auto simp: no_conflict_def)
  obtain os1 where os1: "flock_grant LDLM_PROCESS_ENQUEUE os = Some os1" "grant_ok st os1"
    using flock_grant_ok [OF os(2) r ok, of LDLM_PROCESS_ENQUEUE] q by auto
  have o: "os_added os1" "l_ptr (fs_req st) \<notin> l_ptr ` set (lr_granted (os_res os1))" "lfn_unlock_pending (os_res os1) = 0"
      "l_req_mode (fs_req (os_st os1)) = LCK_NL" "l_ptr (fs_req (os_st os1)) = l_ptr (fs_req st)"
      "\<not> l_exp_flock_hash (fs_req (os_st os1))"
    using os1(2) nl pend by (auto simp: grant_ok_def grant_done_def)
  note start = unlock_wake_start [OF os1(2) ok r nl w ex s q o(2)]
  then have "wake_inv env (l_ptr (fs_req st)) {} (os_res os1) \<or>
      wake_inv env (l_ptr (fs_req st)) (l_ptr ` set (lr_waiting (os_res os1))) (os_res os1) \<and>
      lfn_needs_reprocess (os_res os1) \<and> lfn_unlock_pending (os_res os1) = 0"
    using o(3) by (simp split: if_splits)
  from unlock_reprocess_wakes [OF it re fuel o(4) this, of ast]
  obtain os2 where os2: "flock_unlock_reprocess env ast os1 = Some os2" "wake_inv env (l_ptr (fs_req st)) {} (os_res os2)"
      "os_added os2" "fs_req (os_st os2) = fs_req (os_st os1)"
    using o(1) by auto
  have "l_ptr (fs_req st) \<notin> l_ptr ` set (lr_granted (os_res os2))" "l_ptr (fs_req st) \<notin> l_ptr ` set (lr_waiting (os_res os2))"
    using os2(2) by (auto simp: wake_inv_def)
  then obtain st' where "flock_finish os2 = Some (LDLM_ITER_CONTINUE, st')" "fs_res st' = os_res os2"
    using os2(3,4) o(5,6) by (auto simp: flock_finish_def ldlm_flock_destroy_def LASSERT_def os_res_def
      ldlm_resource_unlink_lock_def ldlm_flock_unlink_lock_def)
  moreover have "flock_ok (os_res os2)" "flock_exclusive (lr_granted (os_res os2))" "flock_settled (os_res os2)"
    using os2(2) by (auto simp: wake_inv_def flock_settled_def)
  ultimately show ?thesis
    using os(1) os1(1) os2(1) nr by (auto simp: ldlm_process_flock_lock_def)
qed

end
