(* ===== verification/Ldlm_Flock_Requests.thy ===== *)
theory Ldlm_Flock_Requests
  imports Ldlm_Flock_Wake
begin

text \<open>
  The answers of \<^verbatim>\<open>ldlm_process_flock_lock\<close> to each kind of request: one that is granted, \<^verbatim>\<open>F_SETLK\<close>, \<^verbatim>\<open>F_GETLK\<close> and \<^verbatim>\<open>F_SETLKW\<close> requests that
  conflict.
\<close>

text \<open>Only an unlock reprocesses the queue, and an empty queue only loses its flag.\<close>

lemma unlock_reprocess_empty:
  assumes re: "relock_quiet (fe_relock env)"
  shows "lr_waiting (os_res os) = [] \<Longrightarrow> grant_done st os \<Longrightarrow>
    \<exists>os'. flock_unlock_reprocess env ast os = Some os' \<and> grant_done st os'"
proof (induction ast arbitrary: os)
  case Nil
  define os' where "os' = os\<lparr>os_st := (os_st os)\<lparr>fs_res := fe_relock env ((os_res os)\<lparr>lfn_needs_reprocess := False\<rparr>)\<rparr>\<rparr>"
  have "grant_done st os' = grant_done st os"
    using re by (intro grant_done_cong) (simp_all add: os'_def os_res_def relock_quiet_def)
  then show ?case using Nil by (subst flock_unlock_reprocess.simps) (simp add: Let_def os'_def)
next
  case (Cons a ast)
  define os' where "os' = os\<lparr>os_st := (os_st os)\<lparr>fs_res := fe_relock env ((os_res os)\<lparr>lfn_needs_reprocess := False\<rparr>)\<rparr>\<rparr>"
  define os'' where "os'' = set_res ((os_res os')\<lparr>lfn_needs_reprocess := True\<rparr>) os'"
  have "grant_done st os' = grant_done st os" "grant_done st os'' = grant_done st os"
    using re by (intro grant_done_cong; simp add: os''_def os'_def os_res_def set_res_def relock_quiet_def)+
  moreover have "lr_waiting (os_res os'') = []"
    using re Cons.prems(1) by (simp add: os''_def os'_def os_res_def set_res_def relock_quiet_def)
  ultimately show ?case
    using Cons.IH [of os''] Cons.prems unfolding os''_def
    by (subst flock_unlock_reprocess.simps) (auto simp: Let_def os'_def split: bool.split)
qed

lemma process_is_once:
  assumes "iter_ok (fe_iter env)" and "relock_quiet (fe_relock env)" and ok: "flock_ok (fs_res st)"
    and r: "req_ok (fs_req st)" and "no_conflict st" and "\<not> flag_set (fs_flags st) LDLM_FL_TEST_LOCK" and "split_ok env st"
    and p: "l_ptr (fs_req st) \<notin> l_ptr ` set (lr_granted (fs_res st))"
    and c: "l_completion_ast (fs_req st) \<or> intention = LDLM_PROCESS_ENQUEUE \<or> fs_flags st = LDLM_FL_WAIT_NOREPROC"
    and nl: "intention \<noteq> LDLM_PROCESS_ENQUEUE \<or> l_req_mode (fs_req st) \<noteq> LCK_NL \<or> fs_flags st = LDLM_FL_WAIT_NOREPROC \<or>
      lr_waiting (fs_res st) = []"
  shows "\<exists>st'. ldlm_process_flock_lock env ast intention st = Some (LDLM_ITER_CONTINUE, st') \<and> granted_post st st'"
proof (cases "intention \<noteq> LDLM_PROCESS_ENQUEUE \<or> fs_flags st = LDLM_FL_WAIT_NOREPROC")
  case True
  then show ?thesis using flock_process_once_grant [OF assms(1-9)] by (simp add: ldlm_process_flock_lock_def)
next
  case False
  obtain os0 os where os: "flock_passes env intention st = Some (Pass_Own (Own_Done os))" "passes_done st os0 os"
    using flock_passes_grant [OF assms(1-7)] by blast
  obtain os' where os': "flock_grant intention os = Some os'" "grant_ok st os'"
    using flock_grant_ok [OF os(2) r ok p c] by blast
  have g: "grant_done st os'" "l_req_mode (fs_req (os_st os')) = l_req_mode (fs_req st)"
    "set (lr_waiting (os_res os')) \<subseteq> set (lr_waiting (fs_res st))"
    using os'(2) by (simp_all add: grant_ok_def grant_done_def)
  obtain os2 where "flock_unlock_reprocess env ast os' = Some os2" "grant_done st os2"
  proof (cases "l_req_mode (fs_req st) = LCK_NL")
    case True
    then have "lr_waiting (os_res os') = []" using nl False g(3) by auto
    then show thesis using that unlock_reprocess_empty [OF assms(2) _ g(1)] by blast
  next
    case m: False
    then have "flock_unlock_reprocess env ast os' = Some os'"
      using g(2) by (subst flock_unlock_reprocess.simps) (simp add: Let_def)
    then show thesis using that g(1) by blast
  qed
  then show ?thesis
    using False flock_finish_ok [of st os2] os(1) os'(1) by (auto simp: ldlm_process_flock_lock_def)
qed

text \<open>A request that is on no queue and in no hash is destroyed without a trace.\<close>

definition new_request :: "flock_state \<Rightarrow> bool" where
  "new_request st \<longleftrightarrow> l_ptr (fs_req st) \<notin> l_ptr ` (set (lr_granted (fs_res st)) \<union> set (lr_waiting (fs_res st))) \<and>
     \<not> l_exp_flock_hash (fs_req st)"

lemma destroy_new:
  assumes "new_request st" and "l_ptr req = l_ptr (fs_req st)" and "\<not> l_exp_flock_hash req"
  shows "\<exists>f. ldlm_flock_destroy req flags (fs_res st) = Some (req\<lparr>l_flags := f\<rparr>, fs_res st)"
proof -
  have "l_ptr req \<notin> l_ptr ` set (lr_granted (fs_res st))" "l_ptr req \<notin> l_ptr ` set (lr_waiting (fs_res st))"
    using assms(1,2) by (auto simp: new_request_def)
  then have "ldlm_resource_unlink_lock req (fs_res st) = fs_res st"
    by (simp add: ldlm_resource_unlink_lock_def ldlm_flock_unlink_lock_def)
  then show ?thesis
    using assms(3) unfolding ldlm_flock_destroy_def
    by (cases "flags = LDLM_FL_WAIT_NOREPROC") (auto simp: LASSERT_def Let_def intro: exI [of _ "l_flags req"])
qed

text \<open>The granted lock that a conflicting request meets, as the code meets it.\<close>

definition conflicts :: "ldlm_lock \<Rightarrow> ldlm_lock \<Rightarrow> bool" where
  "conflicts l req \<longleftrightarrow> flock_owner_of l \<noteq> flock_owner_of req \<and> ldlm_flocks_overlap l req \<and>
     \<not> lockmode_compat (l_granted_mode l) (l_req_mode req)"

lemma process_conflict:
  assumes "iter_ok (fe_iter env)" and "flock_ok (fs_res st)" and "l_req_mode (fs_req st) \<in> {LCK_PR, LCK_PW}"
    and nr: "fs_flags st \<noteq> LDLM_FL_WAIT_NOREPROC" and "\<not> flock_compat (fs_req st) (lr_granted (fs_res st))"
  shows "\<exists>l\<in>set (lr_granted (fs_res st)). conflicts l (fs_req st) \<and>
    ldlm_process_flock_lock env ast LDLM_PROCESS_ENQUEUE st = flock_conflict env LDLM_PROCESS_ENQUEUE l (st\<lparr>fs_err := 0\<rparr>)"
proof -
  obtain l where l: "l \<in> set (lr_granted (fs_res st))" "conflicts l (fs_req st)"
    "flock_passes env LDLM_PROCESS_ENQUEUE st =
      map_option (\<lambda>(it, s). Pass_Return it s) (flock_conflict env LDLM_PROCESS_ENQUEUE l (st\<lparr>fs_err := 0\<rparr>))"
    using flock_passes_conflict [OF assms(1) flock_ok_D(1) [OF assms(2)] assms(3) nr assms(5)] unfolding conflicts_def by blast
  have "ldlm_process_flock_lock env ast LDLM_PROCESS_ENQUEUE st = flock_conflict env LDLM_PROCESS_ENQUEUE l (st\<lparr>fs_err := 0\<rparr>)"
    using l(3) nr by (cases "flock_conflict env LDLM_PROCESS_ENQUEUE l (st\<lparr>fs_err := 0\<rparr>)")
      (auto simp: ldlm_process_flock_lock_def)
  then show ?thesis using l(1,2) by blast
qed

lemma conflict_nowait:
  assumes "new_request st" and "flag_set (fs_flags st) LDLM_FL_BLOCK_NOWAIT"
  shows "\<exists>st'. flock_conflict env LDLM_PROCESS_ENQUEUE l (st\<lparr>fs_err := 0\<rparr>) = Some (LDLM_ITER_STOP, st') \<and>
    fs_err st' = - EAGAIN \<and> fs_res st' = fs_res st"
  using destroy_new [OF assms(1) refl, of "fs_flags st"] assms by (auto simp: flock_conflict_def Let_def new_request_def)

lemma conflict_test:
  assumes "new_request st" and "flag_set (fs_flags st) LDLM_FL_TEST_LOCK" and "\<not> flag_set (fs_flags st) LDLM_FL_BLOCK_NOWAIT"
  shows "\<exists>st'. flock_conflict env LDLM_PROCESS_ENQUEUE l (st\<lparr>fs_err := 0\<rparr>) = Some (LDLM_ITER_STOP, st') \<and>
    fs_err st' = 0 \<and> fs_res st' = fs_res st \<and> fs_flags st' = fs_flags st OR LDLM_FL_LOCK_CHANGED \<and>
    l_req_mode (fs_req st') = l_granted_mode l \<and> fl_pid (fs_req st') = fl_pid l \<and>
    fl_start (fs_req st') = fl_start l \<and> fl_end (fs_req st') = fl_end l"
  using destroy_new [OF assms(1) refl, of "fs_flags st"] assms by (auto simp: flock_conflict_def Let_def new_request_def)

text \<open>A request that only asks and meets no conflict.\<close>

lemma process_test_free:
  assumes it: "iter_ok (fe_iter env)" and ok: "flock_ok (fs_res st)" and m: "l_req_mode (fs_req st) \<in> {LCK_PR, LCK_PW}"
    and new: "new_request st" and t: "flag_set (fs_flags st) LDLM_FL_TEST_LOCK" and nr: "fs_flags st \<noteq> LDLM_FL_WAIT_NOREPROC"
    and c: "flock_compat (fs_req st) (lr_granted (fs_res st))"
  shows "\<exists>st'. ldlm_process_flock_lock env ast LDLM_PROCESS_ENQUEUE st = Some (LDLM_ITER_STOP, st') \<and>
    fs_err st' = 0 \<and> fs_res st' = fs_res st \<and> fs_flags st' = fs_flags st OR LDLM_FL_LOCK_CHANGED \<and> l_req_mode (fs_req st') = LCK_NL"
proof -
  let ?mode = "l_req_mode (fs_req st)"
  define se where "se = flock_widen (fs_flags st) ?mode (fl_start (fs_req st), fl_end (fs_req st))"
  have cov: "covers se (fs_req st)" unfolding se_def by (rule widen_covers) (simp add: covers_def)
  define locks where "locks = fe_iter env (lr_granted (fs_res st)) (fst se) (snd se)"
  have scan: "flock_scan (fs_req st) ?mode [] locks = Inr (map l_ptr (filter (\<lambda>l. flock_owner_of l = flock_owner_of (fs_req st)) locks))"
    using flock_scan_compat [of "fs_req st" locks "[]"] iter_compat [OF it flock_ok_D(1) [OF ok] cov] c by (simp add: locks_def)
  obtain f where f: "ldlm_flock_destroy (fs_req st) (fs_flags st) (fs_res st) = Some ((fs_req st)\<lparr>l_flags := f\<rparr>, fs_res st)"
    using destroy_new [OF new refl] new by (auto simp: new_request_def)
  have nl: "?mode \<noteq> LCK_NL" using m by auto
  have "flock_pass env LDLM_PROCESS_ENQUEUE ?mode se None False (st\<lparr>fs_err := 0\<rparr>) = Some (Pass_Return LDLM_ITER_STOP
      (st\<lparr>fs_err := 0, fs_req := (fs_req st)\<lparr>l_flags := f, l_req_mode := LCK_NL\<rparr>, fs_flags := fs_flags st OR LDLM_FL_LOCK_CHANGED\<rparr>))"
    using nl nr m scan posix_mode_verify [of ?mode] f t by (auto simp: flock_pass_def Let_def locks_def)
  then show ?thesis
    using nl nr by (auto simp: ldlm_process_flock_lock_def flock_passes_def Let_def se_def)
qed

lemma conflict_waits:
  assumes new: "new_request st" and f: "\<not> flag_set (fs_flags st) LDLM_FL_TEST_LOCK" "\<not> flag_set (fs_flags st) LDLM_FL_BLOCK_NOWAIT"
    and ex: "l_export (fs_req st) \<noteq> None" "l_export l \<noteq> None" and m: "l_req_mode (fs_req st) \<noteq> LCK_NL"
    and d: "ldlm_flock_deadlock (fe_fuel env) (flock_world_of env (st\<lparr>fs_err := 0, fs_req := blocked_on l (fs_req st)\<rparr>))
        (blocked_on l (fs_req st)) l = Some dead"
  shows "\<exists>st'. flock_conflict env LDLM_PROCESS_ENQUEUE l (st\<lparr>fs_err := 0\<rparr>) = Some (LDLM_ITER_STOP, st') \<and>
    lr_granted (fs_res st') = lr_granted (fs_res st) \<and>
    (if dead then fs_err st' = - EDEADLK \<and> fs_res st' = fs_res st
     else fs_err st' = 0 \<and> lr_waiting (fs_res st') = lr_waiting (fs_res st) @ [blocked_on l (fs_req st)] \<and>
       fs_flags st' = fs_flags st OR LDLM_FL_BLOCK_GRANTED)"
proof -
  have u: "ldlm_flock_blocking_unlink (fs_req st) = fs_req st"
    using new by (simp add: ldlm_flock_blocking_unlink_def new_request_def)
  have link: "ldlm_flock_blocking_link (fs_req st) l = Some (blocked_on l (fs_req st))"
    using ex new u by (auto simp: ldlm_flock_blocking_link_def ldlm_export_flock_get_def LASSERT_def blocked_on_def new_request_def)
  show ?thesis
  proof (cases dead)
    case True
    have "\<not> l_exp_flock_hash (ldlm_flock_blocking_unlink (blocked_on l (fs_req st)))"
      using ex(1) by (auto simp: ldlm_flock_blocking_unlink_def ldlm_export_flock_put_def)
    then show ?thesis
      using destroy_new [OF new, of "ldlm_flock_blocking_unlink (blocked_on l (fs_req st))" "fs_flags st"] link d f True
      by (auto simp: flock_conflict_def Let_def)
  next
    case False
    have "ldlm_resource_add_waiting (blocked_on l (fs_req st)) (fs_res st) =
        Some ((fs_res st)\<lparr>lr_waiting := lr_waiting (fs_res st) @ [blocked_on l (fs_req st)]\<rparr>)"
      using new m by (auto simp: ldlm_resource_add_waiting_def LASSERT_def find_lock_eq_None new_request_def)
    then show ?thesis using link d f False by (auto simp: flock_conflict_def Let_def)
  qed
qed

end
