(* ===== verification/Ldlm_Flock_Deadlock.thy ===== *)
theory Ldlm_Flock_Deadlock
  imports Ldlm_Flock
begin

text \<open>
  The search for deadlocks walks along a chain of blocked locks. It ends when that relation has no cycle, after at most
  as many turns as there are blocked locks and one more, and it finds the cycle that the request closes.
\<close>

section \<open>The chain of blocked locks\<close>

definition blocked_of :: "flock_world \<Rightarrow> nat \<Rightarrow> u64 \<Rightarrow> ldlm_lock option" where
  "blocked_of w exp own = (if fw_has_hash w exp then flock_lookup_exports w own (fw_exports w (fw_nid w exp)) else None)"

text \<open>A blocked lock and the blocked lock of the owner that it waits for.\<close>

definition waits_for :: "flock_world \<Rightarrow> (ldlm_lock \<times> ldlm_lock) set" where
  "waits_for w = {(b, c). b \<in> set (fw_blocked w) \<and>
     (\<exists>exp. fl_blocking_export b = Some exp \<and> blocked_of w exp (fl_blocking_owner b) = Some c)}"

definition world_ok :: "flock_world \<Rightarrow> bool" where
  "world_ok w \<longleftrightarrow> (\<forall>b\<in>set (fw_blocked w). fl_blocking_export b \<noteq> None)"

lemma lookup_cb_blocked: "ldlm_flock_lookup_cb w own exp = Some b \<Longrightarrow> b \<in> set (fw_blocked w)"
  by (auto simp: ldlm_flock_lookup_cb_def find_Some_iff split: if_splits)

lemma blocked_of_blocked: "blocked_of w exp own = Some b \<Longrightarrow> b \<in> set (fw_blocked w)"
proof -
  have "flock_lookup_exports w own exps = Some b \<Longrightarrow> b \<in> set (fw_blocked w)" for exps
    by (induction exps) (auto split: option.splits dest: lookup_cb_blocked)
  then show "blocked_of w exp own = Some b \<Longrightarrow> b \<in> set (fw_blocked w)"
    by (auto simp: blocked_of_def split: if_splits)
qed

lemma deadlock_loop_unfold:
  "flock_deadlock_loop (Suc fuel) w req rexp bexp bown =
     (case blocked_of w bexp bown of
        None \<Rightarrow> Some False
      | Some b \<Rightarrow> (case fl_blocking_export b of
          None \<Rightarrow> None
        | Some e \<Rightarrow>
            if l_ptr req = l_ptr b then Some True
            else if fw_failed w e then Some False
            else if fl_blocking_owner b = fl_owner req \<and> fw_nid w bexp = fw_nid w rexp then Some True
            else flock_deadlock_loop fuel w req rexp e (fl_blocking_owner b)))"
  unfolding flock_deadlock_loop.simps blocked_of_def Let_def ..

section \<open>Termination\<close>

definition chain_rank :: "flock_world \<Rightarrow> ldlm_lock \<Rightarrow> nat" where
  "chain_rank w b = card ((waits_for w)\<^sup>+ `` {b})"

lemma waits_for_sub: "(waits_for w)\<^sup>+ `` {b} \<subseteq> set (fw_blocked w)"
proof
  fix c assume "c \<in> (waits_for w)\<^sup>+ `` {b}"
  then have "(b, c) \<in> (waits_for w)\<^sup>+" by simp
  then show "c \<in> set (fw_blocked w)"
    by (induction rule: trancl.induct) (auto simp: waits_for_def dest: blocked_of_blocked)
qed

lemma finite_waits_for: "finite ((waits_for w)\<^sup>+ `` {b})"
  by (rule finite_subset [OF waits_for_sub]) simp

lemma chain_rank_bound:
  assumes "acyclic (waits_for w)" and "b \<in> set (fw_blocked w)"
  shows "chain_rank w b < length (fw_blocked w)"
proof -
  have "b \<notin> (waits_for w)\<^sup>+ `` {b}" using assms(1) by (simp add: acyclic_def)
  then have "(waits_for w)\<^sup>+ `` {b} \<subset> set (fw_blocked w)" using waits_for_sub assms(2) by blast
  then have "chain_rank w b < card (set (fw_blocked w))" unfolding chain_rank_def by (rule psubset_card_mono [OF List.finite_set])
  then show ?thesis using card_length order_less_le_trans by blast
qed

lemma chain_rank_less:
  assumes "acyclic (waits_for w)" and "(b, c) \<in> waits_for w"
  shows "chain_rank w c < chain_rank w b"
  unfolding chain_rank_def
proof (rule psubset_card_mono [OF finite_waits_for])
  have "(waits_for w)\<^sup>+ `` {c} \<subseteq> (waits_for w)\<^sup>+ `` {b}" using assms(2) by (auto intro: trancl_into_trancl2)
  moreover have "c \<in> (waits_for w)\<^sup>+ `` {b}" "c \<notin> (waits_for w)\<^sup>+ `` {c}"
    using assms by (auto simp: acyclic_def)
  ultimately show "(waits_for w)\<^sup>+ `` {c} \<subset> (waits_for w)\<^sup>+ `` {b}" by blast
qed

lemma deadlock_loop_terminates:
  assumes ok: "world_ok w" and ac: "acyclic (waits_for w)"
  shows "blocked_of w bexp bown = Some b \<Longrightarrow> chain_rank w b + 1 < fuel \<Longrightarrow>
    flock_deadlock_loop fuel w req rexp bexp bown \<noteq> None"
proof (induction fuel arbitrary: bexp bown b)
  case (Suc fuel)
  have b: "b \<in> set (fw_blocked w)" by (rule blocked_of_blocked [OF Suc.prems(1)])
  then obtain e where e: "fl_blocking_export b = Some e" using ok by (auto simp: world_ok_def)
  have "flock_deadlock_loop fuel w req rexp e (fl_blocking_owner b) \<noteq> None"
  proof (cases "blocked_of w e (fl_blocking_owner b)")
    case None
    then show ?thesis using Suc.prems(2) by (cases fuel) (auto simp: deadlock_loop_unfold simp del: flock_deadlock_loop.simps(2))
  next
    case (Some c)
    then have "(b, c) \<in> waits_for w" using b e by (auto simp: waits_for_def)
    then show ?thesis using Suc.IH [OF Some] chain_rank_less [OF ac] Suc.prems(2) by fastforce
  qed
  then show ?case unfolding deadlock_loop_unfold by (auto simp: Suc.prems(1) e)
qed simp

lemma ldlm_flock_deadlock_terminates:
  assumes "world_ok w" and "acyclic (waits_for w)" and "l_export bl \<noteq> None" and "length (fw_blocked w) < fuel"
  shows "ldlm_flock_deadlock fuel w req bl \<noteq> None"
proof (cases "l_export req")
  case (Some rexp)
  obtain bexp where bexp: "l_export bl = Some bexp" using assms(3) by auto
  obtain fuel' where fuel': "fuel = Suc fuel'" using assms(4) by (cases fuel) auto
  have "flock_deadlock_loop fuel w req rexp bexp (fl_owner bl) \<noteq> None"
  proof (cases "blocked_of w bexp (fl_owner bl)")
    case None
    then show ?thesis unfolding fuel' deadlock_loop_unfold by simp
  next
    case (Some b)
    show ?thesis
      by (rule deadlock_loop_terminates [OF assms(1,2) Some])
        (use chain_rank_bound [OF assms(2) blocked_of_blocked [OF Some]] assms(4) in linarith)
  qed
  then show ?thesis using Some bexp by (simp add: ldlm_flock_deadlock_def)
qed (simp add: ldlm_flock_deadlock_def)

section \<open>Completeness\<close>

text \<open>The chain from the lock that blocks the request leads to the request: the search reports it.\<close>

lemma deadlock_loop_finds:
  assumes live: "\<forall>b\<in>set (fw_blocked w). \<exists>e. fl_blocking_export b = Some e \<and> \<not> fw_failed w e"
  shows "blocked_of w bexp bown = Some b \<Longrightarrow> (b, c) \<in> waits_for w ^^ n \<Longrightarrow> l_ptr c = l_ptr req \<Longrightarrow>
    flock_deadlock_loop (n + 1 + fuel) w req rexp bexp bown = Some True"
proof (induction n arbitrary: bexp bown b)
  case 0
  then have "b = c" "c \<in> set (fw_blocked w)" using blocked_of_blocked by auto
  then show ?case using 0 live by (auto simp: deadlock_loop_unfold simp del: flock_deadlock_loop.simps(2))
next
  case (Suc n)
  obtain d where d: "(b, d) \<in> waits_for w" "(d, c) \<in> waits_for w ^^ n"
    using Suc.prems(2) by (metis relpow_Suc_E2)
  obtain e where e: "fl_blocking_export b = Some e" "\<not> fw_failed w e"
    using live blocked_of_blocked [OF Suc.prems(1)] by auto
  have "blocked_of w e (fl_blocking_owner b) = Some d" using d(1) e(1) by (auto simp: waits_for_def)
  from Suc.IH [OF this d(2) Suc.prems(3)] show ?case
    using Suc.prems(1) e by (simp add: deadlock_loop_unfold del: flock_deadlock_loop.simps(2))
qed

end
