(* ===== verification/Ldlm_Flock_Properties.thy ===== *)
theory Ldlm_Flock_Properties
  imports Ldlm_Flock_Requests Ldlm_Flock_Deadlock
begin

text \<open>
  The properties of POSIX locks: what a granted request does to the bytes, that owners stay apart, the answers to conflicting
  requests, the wake-up of waiting locks and the search for deadlocks, with three ways in which the code goes wrong.
\<close>

section \<open>Concrete locks\<close>

definition flk :: "nat \<Rightarrow> nat \<Rightarrow> u64 \<Rightarrow> ldlm_mode \<Rightarrow> u64 \<Rightarrow> u64 \<Rightarrow> ldlm_lock" where
  "flk p ex own m s e = (fresh_lock p m)\<lparr>l_export := Some ex, l_granted_mode := m, l_completion_ast := True,
     fl_owner := own, fl_start := s, fl_end := e\<rparr>"

definition flk_req :: "nat \<Rightarrow> nat \<Rightarrow> u64 \<Rightarrow> ldlm_mode \<Rightarrow> u64 \<Rightarrow> u64 \<Rightarrow> ldlm_lock" where
  "flk_req p ex own m s e = (flk p ex own m s e)\<lparr>l_granted_mode := LCK_MODE_MIN\<rparr>"

definition flk_blocked :: "nat \<Rightarrow> nat \<Rightarrow> u64 \<Rightarrow> nat \<Rightarrow> u64 \<Rightarrow> ldlm_lock" where
  "flk_blocked p ex own bex bown = (flk_req p ex own LCK_PW 0 9)\<lparr>l_exp_flock_hash := True, fl_blocking_owner := bown,
     fl_blocking_export := Some bex\<rparr>"

definition tree_iter :: "ldlm_lock list \<Rightarrow> u64 \<Rightarrow> u64 \<Rightarrow> ldlm_lock list" where
  "tree_iter G s e = filter (\<lambda>l. fl_start l \<le> e \<and> s \<le> fl_end l) G"

text \<open>One export per network identifier.\<close>

definition flk_world :: "ldlm_lock list \<Rightarrow> flock_world" where
  "flk_world blocked = \<lparr>fw_nid = (\<lambda>e. e), fw_exports = (\<lambda>n. [n]), fw_failed = (\<lambda>_. False), fw_has_hash = (\<lambda>_. True),
     fw_blocked = blocked\<rparr>"

definition flk_env :: flock_env where
  "flk_env = \<lparr>fe_iter = tree_iter, fe_create = Inr 99, fe_relock = (\<lambda>res. res), fe_flock_dead = True,
     fe_world = flk_world [], fe_fuel = 10\<rparr>"

definition flk_state :: "ldlm_lock list \<Rightarrow> ldlm_lock list \<Rightarrow> ldlm_lock \<Rightarrow> u64 \<Rightarrow> flock_state" where
  "flk_state granted waiting req flags = \<lparr>fs_res = \<lparr>lr_granted = granted, lr_waiting = waiting, lfn_needs_reprocess = False,
     lfn_unlock_pending = 0\<rparr>, fs_req = req, fs_flags = flags, fs_err = 0, fs_work = []\<rparr>"

lemma tree_iter_ok: "iter_ok tree_iter"
  by (simp add: iter_ok_def tree_iter_def distinct_map_filter)

lemma flk_env_ok: "iter_ok (fe_iter flk_env)" "relock_quiet (fe_relock flk_env)" "fe_fuel flk_env > 0"
  by (simp_all add: flk_env_def tree_iter_ok relock_quiet_def)

lemma own_disjoint_overlap:
  assumes "\<forall>l\<in>set G. lock_ok l"
  shows "own_disjoint G \<longleftrightarrow> (\<forall>l\<in>set G. \<forall>l'\<in>set G. l \<noteq> l' \<longrightarrow> flock_owner_of l = flock_owner_of l' \<longrightarrow> \<not> ldlm_flocks_overlap l l')"
  unfolding own_disjoint_def using assms overlap_iff by (auto simp: lock_ok_def)

lemma exclusive_overlap:
  assumes "\<forall>l\<in>set G. lock_ok l"
  shows "flock_exclusive G \<longleftrightarrow> (\<forall>l\<in>set G. \<forall>l'\<in>set G. flock_owner_of l \<noteq> flock_owner_of l' \<longrightarrow> ldlm_flocks_overlap l l' \<longrightarrow>
    lockmode_compat (l_granted_mode l) (l_granted_mode l'))"
  unfolding flock_exclusive_def using assms overlap_iff by (auto simp: lock_ok_def)

text \<open>The same, to be evaluated.\<close>

definition res_check :: "ldlm_resource \<Rightarrow> bool" where
  "res_check res \<longleftrightarrow> distinct (map l_ptr (lr_granted res @ lr_waiting res)) \<and> list_all lock_ok (lr_granted res) \<and>
     list_all (\<lambda>l. list_all (\<lambda>l'. l_ptr l \<noteq> l_ptr l' \<longrightarrow> flock_owner_of l = flock_owner_of l' \<longrightarrow> \<not> ldlm_flocks_overlap l l')
       (lr_granted res)) (lr_granted res) \<and>
     list_all (\<lambda>l. l_req_mode l \<in> {LCK_PR, LCK_PW} \<and> l_granted_mode l = LCK_MODE_MIN) (lr_waiting res)"

lemma res_check_ok: "res_check res \<Longrightarrow> flock_ok res"
proof -
  assume c: "res_check res"
  then have "\<forall>l\<in>set (lr_granted res). lock_ok l" and d: "distinct (map l_ptr (lr_granted res))"
    by (simp_all add: res_check_def list_all_iff)
  moreover have "\<forall>l\<in>set (lr_granted res). \<forall>l'\<in>set (lr_granted res). l \<noteq> l' \<longrightarrow> flock_owner_of l = flock_owner_of l' \<longrightarrow>
      \<not> ldlm_flocks_overlap l l'"
    using c same_ptr [OF d] unfolding res_check_def list_all_iff by metis
  ultimately show ?thesis using c own_disjoint_overlap unfolding flock_ok_def res_check_def list_all_iff by blast
qed

definition excl_check :: "ldlm_lock list \<Rightarrow> bool" where
  "excl_check G \<longleftrightarrow> list_all lock_ok G \<and> list_all (\<lambda>l. list_all (\<lambda>l'. flock_owner_of l \<noteq> flock_owner_of l' \<longrightarrow>
     ldlm_flocks_overlap l l' \<longrightarrow> lockmode_compat (l_granted_mode l) (l_granted_mode l')) G) G"

lemma excl_check_ok: "excl_check G \<Longrightarrow> flock_exclusive G"
  using exclusive_overlap by (simp add: excl_check_def list_all_iff)

text \<open>Owner 7 of client 1 asks for a read lock inside of its write lock.\<close>

definition wit_grant :: flock_state where
  "wit_grant = flk_state [flk 1 1 7 LCK_PW 10 20, flk 2 2 8 LCK_PR 30 40] [] (flk_req 3 1 7 LCK_PR 12 15) 0"

lemma wit_grant_ok:
  "flock_ok (fs_res wit_grant)" "req_ok (fs_req wit_grant)" "no_conflict wit_grant"
  "\<not> flag_set (fs_flags wit_grant) LDLM_FL_TEST_LOCK" "split_ok flk_env wit_grant"
  "l_ptr (fs_req wit_grant) \<notin> l_ptr ` set (lr_granted (fs_res wit_grant))" "l_req_mode (fs_req wit_grant) \<noteq> LCK_NL"
proof -
  show "flock_ok (fs_res wit_grant)" by (rule res_check_ok) code_simp
  show "req_ok (fs_req wit_grant)" by code_simp
  have "flock_compat (fs_req wit_grant) (lr_granted (fs_res wit_grant))" by code_simp
  then show "no_conflict wit_grant" by (simp add: no_conflict_def)
  show "\<not> flag_set (fs_flags wit_grant) LDLM_FL_TEST_LOCK" by code_simp
  have "flock_gap_free (fs_req wit_grant) (lr_granted (fs_res wit_grant))" by code_simp
  moreover have "fe_create flk_env = Inr 99" "fresh_ptr 99 wit_grant" by code_simp+
  ultimately show "split_ok flk_env wit_grant" unfolding split_ok_def by blast
  show "l_ptr (fs_req wit_grant) \<notin> l_ptr ` set (lr_granted (fs_res wit_grant))" by code_simp
  show "l_req_mode (fs_req wit_grant) \<noteq> LCK_NL" by code_simp
qed

section \<open>Granted requests\<close>

text \<open>
  C2: A request of \<^verbatim>\<open>ldlm_process_flock_lock\<close> that meets no conflicting lock is granted without a violated assertion, and it does to the
  bytes of the file what POSIX says: its owner holds exactly the requested range in the requested mode (or not at all after an
  unlock), every other byte of the owner and every byte of the other owners stays as it was. This covers merging, trimming and
  splitting, on the server and on the client, under these conditions. If an own lock of another mode reaches beyond both ends of the request, so that it has to be split, a second lock
  can be created, and no own lock of the requested mode ends or starts exactly one byte away from the request (\<^term>\<open>split_ok\<close>; the section on the
  second pass shows what happens otherwise). While the lock of the resource is dropped, other threads leave the queues alone (\<^term>\<open>relock_quiet\<close>). An unlock that is enqueued on the server meets
  an empty waiting queue; with waiting locks it also grants those, which is the subject of the section on unlocking.
\<close>

theorem flock_grant_posix:
  assumes "iter_ok (fe_iter env)" and "relock_quiet (fe_relock env)" and "flock_ok (fs_res st)" and "req_ok (fs_req st)"
    and "no_conflict st" and "\<not> flag_set (fs_flags st) LDLM_FL_TEST_LOCK" and "split_ok env st"
    and "l_ptr (fs_req st) \<notin> l_ptr ` set (lr_granted (fs_res st))"
    and "l_completion_ast (fs_req st) \<or> intention = LDLM_PROCESS_ENQUEUE \<or> fs_flags st = LDLM_FL_WAIT_NOREPROC"
    and "intention \<noteq> LDLM_PROCESS_ENQUEUE \<or> l_req_mode (fs_req st) \<noteq> LCK_NL \<or> fs_flags st = LDLM_FL_WAIT_NOREPROC \<or>
      lr_waiting (fs_res st) = []"
  shows "\<exists>st'. ldlm_process_flock_lock env ast intention st = Some (LDLM_ITER_CONTINUE, st') \<and> fs_err st' = 0 \<and>
    (\<forall>own x m. flock_holds (lr_granted (fs_res st')) own x m =
      posix_grant (fs_req st) (flock_holds (lr_granted (fs_res st))) own x m)"
proof -
  obtain st' where "ldlm_process_flock_lock env ast intention st = Some (LDLM_ITER_CONTINUE, st')" "granted_post st st'"
    using process_is_once [OF assms] by blast
  then show ?thesis unfolding granted_post_def by (intro exI [of _ st']) (simp del: split_paired_All)
qed

theorem flock_grant_posix_witness:
  "\<exists>st'. ldlm_process_flock_lock flk_env [] LDLM_PROCESS_ENQUEUE wit_grant = Some (LDLM_ITER_CONTINUE, st') \<and> fs_err st' = 0 \<and>
    (\<forall>own x m. flock_holds (lr_granted (fs_res st')) own x m =
      posix_grant (fs_req wit_grant) (flock_holds (lr_granted (fs_res wit_grant))) own x m)"
  by (rule flock_grant_posix [OF flk_env_ok(1,2) wit_grant_ok(1-6)]) (simp_all add: wit_grant_ok(7))

text \<open>
  C7: Mutual exclusion. When no two owners hold incompatible locks on a byte, none do after a request that meets no conflict was
  granted: two granted locks of different owners that overlap are both read locks. The conditions are those of the theorem before: if an own lock has to be split, a second lock can be created and
  no own lock of the requested mode is exactly one byte away from the request, without which the statement is false, as the section on the second pass shows; other threads leave the
  queues alone while the lock of the resource is dropped; and an unlock that is enqueued on the server meets an empty waiting queue.
\<close>

theorem flock_grant_exclusive:
  assumes "iter_ok (fe_iter env)" and "relock_quiet (fe_relock env)" and "flock_ok (fs_res st)" and "req_ok (fs_req st)"
    and "flock_compat (fs_req st) (lr_granted (fs_res st)) \<or> l_req_mode (fs_req st) = LCK_NL"
    and "\<not> flag_set (fs_flags st) LDLM_FL_TEST_LOCK" and "split_ok env st"
    and "l_ptr (fs_req st) \<notin> l_ptr ` set (lr_granted (fs_res st))"
    and "l_completion_ast (fs_req st) \<or> intention = LDLM_PROCESS_ENQUEUE \<or> fs_flags st = LDLM_FL_WAIT_NOREPROC"
    and "intention \<noteq> LDLM_PROCESS_ENQUEUE \<or> l_req_mode (fs_req st) \<noteq> LCK_NL \<or> fs_flags st = LDLM_FL_WAIT_NOREPROC \<or>
      lr_waiting (fs_res st) = []"
    and "flock_exclusive (lr_granted (fs_res st))"
  shows "\<exists>st'. ldlm_process_flock_lock env ast intention st = Some (LDLM_ITER_CONTINUE, st') \<and>
    flock_exclusive (lr_granted (fs_res st'))"
proof -
  have "no_conflict st" using assms(5) by (auto simp: no_conflict_def)
  then obtain st' where st': "ldlm_process_flock_lock env ast intention st = Some (LDLM_ITER_CONTINUE, st')" "granted_post st st'"
    using process_is_once [OF assms(1-4) _ assms(6-10)] by blast
  have "flock_exclusive (lr_granted (fs_res st'))"
    by (rule flock_exclusive_grant [OF assms(11) flock_ok_D(4) [OF assms(3)] assms(4,5)])
      (use st'(2) in \<open>simp add: granted_post_def del: split_paired_All\<close>)
  then show ?thesis using st'(1) by blast
qed

theorem flock_grant_exclusive_witness:
  "\<exists>st'. ldlm_process_flock_lock flk_env [] LDLM_PROCESS_ENQUEUE wit_grant = Some (LDLM_ITER_CONTINUE, st') \<and>
    flock_exclusive (lr_granted (fs_res st'))"
proof (rule flock_grant_exclusive [OF flk_env_ok(1,2) wit_grant_ok(1,2) _ wit_grant_ok(4-6)])
  have "flock_compat (fs_req wit_grant) (lr_granted (fs_res wit_grant))" by code_simp
  then show "flock_compat (fs_req wit_grant) (lr_granted (fs_res wit_grant)) \<or> l_req_mode (fs_req wit_grant) = LCK_NL" ..
  show "flock_exclusive (lr_granted (fs_res wit_grant))" by (rule excl_check_ok) code_simp
qed (simp_all add: wit_grant_ok(7))

text \<open>
  C24: The granted queue stays well-formed. After a request was granted, the locks of both queues have distinct addresses, every granted
  lock is a read or write lock on a range that is not empty, is on no hash of blocked locks, and no two locks of one owner overlap;
  the waiting locks are those from before without the request.
\<close>

theorem flock_grant_wellformed:
  assumes "iter_ok (fe_iter env)" and "relock_quiet (fe_relock env)" and "flock_ok (fs_res st)" and "req_ok (fs_req st)"
    and "no_conflict st" and "\<not> flag_set (fs_flags st) LDLM_FL_TEST_LOCK" and "split_ok env st"
    and "l_ptr (fs_req st) \<notin> l_ptr ` set (lr_granted (fs_res st))"
    and "l_completion_ast (fs_req st) \<or> intention = LDLM_PROCESS_ENQUEUE \<or> fs_flags st = LDLM_FL_WAIT_NOREPROC"
    and "l_req_mode (fs_req st) \<noteq> LCK_NL"
  shows "\<exists>st'. ldlm_process_flock_lock env ast intention st = Some (LDLM_ITER_CONTINUE, st') \<and> flock_ok (fs_res st') \<and>
    lr_waiting (fs_res st') = remove_lock (l_ptr (fs_req st)) (lr_waiting (fs_res st))"
proof -
  obtain st' where "ldlm_process_flock_lock env ast intention st = Some (LDLM_ITER_CONTINUE, st')" "granted_post st st'"
    using process_is_once [OF assms(1-9), of ast] assms(10) by blast
  then show ?thesis unfolding granted_post_def using assms(10) by (intro exI [of _ st']) (simp del: split_paired_All)
qed

theorem flock_grant_wellformed_witness:
  "\<exists>st'. ldlm_process_flock_lock flk_env [] LDLM_PROCESS_ENQUEUE wit_grant = Some (LDLM_ITER_CONTINUE, st') \<and>
    flock_ok (fs_res st') \<and> lr_waiting (fs_res st') = remove_lock (l_ptr (fs_req wit_grant)) (lr_waiting (fs_res wit_grant))"
  by (rule flock_grant_wellformed [OF flk_env_ok(1,2) wit_grant_ok(1-6) _ wit_grant_ok(7)]) simp

section \<open>The second pass\<close>

text \<open>
  Owner 7 of client 1 holds a write lock on 40-48 and a read lock on 49-100, owner 8 of client 2 a read lock on byte 49.
\<close>

definition gap_state :: flock_state where
  "gap_state = flk_state [flk 1 1 7 LCK_PW 40 48, flk 2 1 7 LCK_PR 49 100, flk 3 2 8 LCK_PR 49 49] []
     (flk_req 4 1 7 LCK_PW 50 60) 0"

definition lock_summary :: "ldlm_lock \<Rightarrow> nat option \<times> u64 \<times> ldlm_mode \<times> u64 \<times> u64" where
  "lock_summary l = (l_export l, fl_owner l, l_granted_mode l, fl_start l, fl_end l)"

lemma gap_result:
  "map_option (\<lambda>(it, st). (it, map lock_summary (lr_granted (fs_res st))))
     (ldlm_process_flock_lock flk_env [] LDLM_PROCESS_ENQUEUE gap_state) =
   Some (LDLM_ITER_CONTINUE, [(Some 1, 7, LCK_PW, 40, 60), (Some 1, 7, LCK_PR, 61, 100), (Some 2, 8, LCK_PR, 49, 49)])"
  by code_simp

lemma holds_summary:
  "flock_holds G (ex, own) x m \<longleftrightarrow> (\<exists>s e. (ex, own, m, s, e) \<in> set (map lock_summary G) \<and> s \<le> x \<and> x \<le> e)"
  by (auto simp: flock_holds_def lock_summary_def flock_owner_of_def flock_range_def image_iff; metis)

text \<open>
  C38: Splitting a lock breaks mutual exclusion. The label \<^verbatim>\<open>reprocess\<close> widens the range of the search a second time, so an own lock that is
  one byte away from the request is merged with it, and the byte in between is taken without looking for a conflict: owner 7 asks
  for a write lock on 50-60 and gets 40-60, although owner 8 has a read lock on byte 49.
\<close>

theorem flock_split_gap:
  "flock_exclusive (lr_granted (fs_res gap_state)) \<and>
   (\<exists>st'. ldlm_process_flock_lock flk_env [] LDLM_PROCESS_ENQUEUE gap_state = Some (LDLM_ITER_CONTINUE, st') \<and>
      flock_holds (lr_granted (fs_res st')) (Some 1, 7) 49 LCK_PW \<and> flock_holds (lr_granted (fs_res st')) (Some 2, 8) 49 LCK_PR \<and>
      \<not> flock_exclusive (lr_granted (fs_res st')))"
proof
  show "flock_exclusive (lr_granted (fs_res gap_state))" by (rule excl_check_ok) code_simp
  obtain st' where st': "ldlm_process_flock_lock flk_env [] LDLM_PROCESS_ENQUEUE gap_state = Some (LDLM_ITER_CONTINUE, st')"
    "map lock_summary (lr_granted (fs_res st')) =
      [(Some 1, 7, LCK_PW, 40, 60), (Some 1, 7, LCK_PR, 61, 100), (Some 2, 8, LCK_PR, 49, 49)]"
    using gap_result by auto
  have h: "flock_holds (lr_granted (fs_res st')) (Some 1, 7) 49 LCK_PW" "flock_holds (lr_granted (fs_res st')) (Some 2, 8) 49 LCK_PR"
    unfolding holds_summary st'(2) by (intro exI [of _ 40] exI [of _ 60], simp) (intro exI [of _ 49], simp)
  moreover have "\<not> flock_exclusive (lr_granted (fs_res st'))"
  proof
    assume "flock_exclusive (lr_granted (fs_res st'))"
    from this [unfolded flock_exclusive_bytes, rule_format, OF _ h] show False by simp
  qed
  ultimately show "\<exists>st'. ldlm_process_flock_lock flk_env [] LDLM_PROCESS_ENQUEUE gap_state = Some (LDLM_ITER_CONTINUE, st') \<and>
      flock_holds (lr_granted (fs_res st')) (Some 1, 7) 49 LCK_PW \<and> flock_holds (lr_granted (fs_res st')) (Some 2, 8) 49 LCK_PR \<and>
      \<not> flock_exclusive (lr_granted (fs_res st'))"
    using st'(1) by blast
qed

section \<open>Conflicting requests\<close>

definition wit_nowait :: "u64 \<Rightarrow> flock_state" where
  "wit_nowait flags = flk_state [flk 1 1 7 LCK_PW 10 20] [] (flk_req 3 2 8 LCK_PR 15 30) flags"

lemma wit_nowait_ok:
  "flock_ok (fs_res (wit_nowait flags))" "l_req_mode (fs_req (wit_nowait flags)) \<in> {LCK_PR, LCK_PW}"
  "\<not> flock_compat (fs_req (wit_nowait flags)) (lr_granted (fs_res (wit_nowait flags)))" "new_request (wit_nowait flags)"
proof -
  have e: "fs_res (wit_nowait flags) = fs_res (wit_nowait 0)" "fs_req (wit_nowait flags) = fs_req (wit_nowait 0)"
    by (simp_all add: wit_nowait_def flk_state_def)
  show "flock_ok (fs_res (wit_nowait flags))" unfolding e by (rule res_check_ok) code_simp
  show "l_req_mode (fs_req (wit_nowait flags)) \<in> {LCK_PR, LCK_PW}" unfolding e by code_simp
  show "\<not> flock_compat (fs_req (wit_nowait flags)) (lr_granted (fs_res (wit_nowait flags)))" unfolding e by code_simp
  have "new_request (wit_nowait 0)" by code_simp
  then show "new_request (wit_nowait flags)" unfolding new_request_def e .
qed

text \<open>
  A new request that may not wait (\<^verbatim>\<open>F_SETLK\<close>) and meets a conflicting lock of another owner fails with \<^verbatim>\<open>-EAGAIN\<close> and leaves the
  resource as it was.
\<close>

theorem flock_nowait_eagain:
  assumes "iter_ok (fe_iter env)" and "flock_ok (fs_res st)" and "l_req_mode (fs_req st) \<in> {LCK_PR, LCK_PW}"
    and "fs_flags st \<noteq> LDLM_FL_WAIT_NOREPROC" and "\<not> flock_compat (fs_req st) (lr_granted (fs_res st))"
    and "new_request st" and "flag_set (fs_flags st) LDLM_FL_BLOCK_NOWAIT"
  shows "\<exists>st'. ldlm_process_flock_lock env ast LDLM_PROCESS_ENQUEUE st = Some (LDLM_ITER_STOP, st') \<and>
    fs_err st' = - EAGAIN \<and> fs_res st' = fs_res st"
  using process_conflict [OF assms(1-5), of ast] conflict_nowait [OF assms(6,7), of env] by metis

theorem flock_nowait_eagain_witness:
  "\<exists>st'. ldlm_process_flock_lock flk_env [] LDLM_PROCESS_ENQUEUE (wit_nowait LDLM_FL_BLOCK_NOWAIT) = Some (LDLM_ITER_STOP, st') \<and>
    fs_err st' = - EAGAIN \<and> fs_res st' = fs_res (wit_nowait LDLM_FL_BLOCK_NOWAIT)"
  by (rule flock_nowait_eagain [OF flk_env_ok(1) wit_nowait_ok(1,2) _ wit_nowait_ok(3,4)]) code_simp+

text \<open>
  A request that only asks (\<^verbatim>\<open>F_GETLK\<close>) changes neither queue. The reply has the mode \<^verbatim>\<open>LCK_NL\<close> when no lock of another owner conflicts,
  and otherwise the mode, process and range of a granted lock that does.
\<close>

theorem flock_getlk_reply:
  assumes "iter_ok (fe_iter env)" and "flock_ok (fs_res st)" and "l_req_mode (fs_req st) \<in> {LCK_PR, LCK_PW}"
    and "fs_flags st \<noteq> LDLM_FL_WAIT_NOREPROC" and "new_request st"
    and "flag_set (fs_flags st) LDLM_FL_TEST_LOCK" and "\<not> flag_set (fs_flags st) LDLM_FL_BLOCK_NOWAIT"
  shows "\<exists>st'. ldlm_process_flock_lock env ast LDLM_PROCESS_ENQUEUE st = Some (LDLM_ITER_STOP, st') \<and>
    fs_err st' = 0 \<and> fs_res st' = fs_res st \<and> fs_flags st' = fs_flags st OR LDLM_FL_LOCK_CHANGED \<and>
    (if flock_compat (fs_req st) (lr_granted (fs_res st)) then l_req_mode (fs_req st') = LCK_NL
     else \<exists>l\<in>set (lr_granted (fs_res st)). conflicts l (fs_req st) \<and> l_req_mode (fs_req st') = l_granted_mode l \<and>
       fl_pid (fs_req st') = fl_pid l \<and> fl_start (fs_req st') = fl_start l \<and> fl_end (fs_req st') = fl_end l)"
proof (cases "flock_compat (fs_req st) (lr_granted (fs_res st))")
  case True
  then show ?thesis using process_test_free [OF assms(1-3,5,6,4) True, of ast] by auto
next
  case False
  obtain l where l: "l \<in> set (lr_granted (fs_res st))" "conflicts l (fs_req st)"
    "ldlm_process_flock_lock env ast LDLM_PROCESS_ENQUEUE st = flock_conflict env LDLM_PROCESS_ENQUEUE l (st\<lparr>fs_err := 0\<rparr>)"
    using process_conflict [OF assms(1-4) False, of ast] by blast
  then show ?thesis using conflict_test [OF assms(5-7), of env l] False by auto
qed

theorem flock_getlk_reply_witness:
  "\<exists>st'. ldlm_process_flock_lock flk_env [] LDLM_PROCESS_ENQUEUE (wit_nowait LDLM_FL_TEST_LOCK) = Some (LDLM_ITER_STOP, st') \<and>
    fs_err st' = 0 \<and> fs_res st' = fs_res (wit_nowait LDLM_FL_TEST_LOCK) \<and>
    fs_flags st' = fs_flags (wit_nowait LDLM_FL_TEST_LOCK) OR LDLM_FL_LOCK_CHANGED \<and>
    (if flock_compat (fs_req (wit_nowait LDLM_FL_TEST_LOCK)) (lr_granted (fs_res (wit_nowait LDLM_FL_TEST_LOCK)))
     then l_req_mode (fs_req st') = LCK_NL
     else \<exists>l\<in>set (lr_granted (fs_res (wit_nowait LDLM_FL_TEST_LOCK))). conflicts l (fs_req (wit_nowait LDLM_FL_TEST_LOCK)) \<and>
       l_req_mode (fs_req st') = l_granted_mode l \<and> fl_pid (fs_req st') = fl_pid l \<and>
       fl_start (fs_req st') = fl_start l \<and> fl_end (fs_req st') = fl_end l)"
  by (rule flock_getlk_reply [OF flk_env_ok(1) wit_nowait_ok(1,2) _ wit_nowait_ok(4)]) code_simp+

text \<open>
  A new request that may wait (\<^verbatim>\<open>F_SETLKW\<close>) and meets a conflicting lock of another owner is put at the end of the waiting queue,
  linked to that lock, when no owner of a granted lock is blocked itself. The granted locks stay as they were.
\<close>

theorem flock_setlkw_waits:
  assumes "iter_ok (fe_iter env)" and "flock_ok (fs_res st)" and "l_req_mode (fs_req st) \<in> {LCK_PR, LCK_PW}"
    and "fs_flags st \<noteq> LDLM_FL_WAIT_NOREPROC" and "\<not> flock_compat (fs_req st) (lr_granted (fs_res st))"
    and "new_request st" and "\<not> flag_set (fs_flags st) LDLM_FL_TEST_LOCK" and "\<not> flag_set (fs_flags st) LDLM_FL_BLOCK_NOWAIT"
    and "l_export (fs_req st) \<noteq> None" and "fe_fuel env > 0" and "waiters_ok env (fs_res st)"
    and "fl_owner (fs_req st) \<notin> fl_owner ` set (lr_granted (fs_res st))"
  shows "\<exists>l\<in>set (lr_granted (fs_res st)). conflicts l (fs_req st) \<and>
    (\<exists>st'. ldlm_process_flock_lock env ast LDLM_PROCESS_ENQUEUE st = Some (LDLM_ITER_STOP, st') \<and> fs_err st' = 0 \<and>
      lr_granted (fs_res st') = lr_granted (fs_res st) \<and>
      lr_waiting (fs_res st') = lr_waiting (fs_res st) @ [blocked_on l (fs_req st)] \<and>
      fs_flags st' = fs_flags st OR LDLM_FL_BLOCK_GRANTED)"
proof -
  obtain l where l: "l \<in> set (lr_granted (fs_res st))" "conflicts l (fs_req st)"
    "ldlm_process_flock_lock env ast LDLM_PROCESS_ENQUEUE st = flock_conflict env LDLM_PROCESS_ENQUEUE l (st\<lparr>fs_err := 0\<rparr>)"
    using process_conflict [OF assms(1-5), of ast] by blast
  have ex: "l_export l \<noteq> None" using assms(11) l(1) by (simp add: waiters_ok_def)
  have "\<forall>b\<in>set (fw_blocked (flock_world_of env (st\<lparr>fs_err := 0, fs_req := blocked_on l (fs_req st)\<rparr>))). fl_owner b \<noteq> fl_owner l"
    using assms(11,12) l(1) unfolding waiters_ok_def flock_world_of_def by (auto simp: image_iff)
  note d = ldlm_flock_deadlock_none [OF this assms(10) ex, of "blocked_on l (fs_req st)"]
  show ?thesis
    using conflict_waits [OF assms(6-9) ex _ d] assms(3) l(2,3) by (intro bexI [OF _ l(1)]) auto
qed

theorem flock_setlkw_waits_witness:
  "\<exists>l\<in>set (lr_granted (fs_res (wit_nowait 0))). conflicts l (fs_req (wit_nowait 0)) \<and>
    (\<exists>st'. ldlm_process_flock_lock flk_env [] LDLM_PROCESS_ENQUEUE (wit_nowait 0) = Some (LDLM_ITER_STOP, st') \<and> fs_err st' = 0 \<and>
      lr_granted (fs_res st') = lr_granted (fs_res (wit_nowait 0)) \<and>
      lr_waiting (fs_res st') = lr_waiting (fs_res (wit_nowait 0)) @ [blocked_on l (fs_req (wit_nowait 0))] \<and>
      fs_flags st' = fs_flags (wit_nowait 0) OR LDLM_FL_BLOCK_GRANTED)"
proof (rule flock_setlkw_waits [OF flk_env_ok(1) wit_nowait_ok(1,2) _ wit_nowait_ok(3,4) _ _ _ flk_env_ok(3)])
  show "waiters_ok flk_env (fs_res (wit_nowait 0))"
    by (simp add: waiters_ok_def wit_nowait_def flk_state_def flk_def flk_env_def flk_world_def)
qed code_simp+

text \<open>
  A new request that may wait fails with \<^verbatim>\<open>-EDEADLK\<close> and leaves both queues as they were, off the hash of blocked locks, when the search
  for a deadlock succeeds from the conflicting locks.
\<close>

theorem flock_setlkw_edeadlk:
  assumes "iter_ok (fe_iter env)" and "flock_ok (fs_res st)" and "l_req_mode (fs_req st) \<in> {LCK_PR, LCK_PW}"
    and "fs_flags st \<noteq> LDLM_FL_WAIT_NOREPROC" and "\<not> flock_compat (fs_req st) (lr_granted (fs_res st))"
    and "new_request st" and "\<not> flag_set (fs_flags st) LDLM_FL_TEST_LOCK" and "\<not> flag_set (fs_flags st) LDLM_FL_BLOCK_NOWAIT"
    and "l_export (fs_req st) \<noteq> None" and "\<forall>l\<in>set (lr_granted (fs_res st)). l_export l \<noteq> None"
    and "\<And>l. l \<in> set (lr_granted (fs_res st)) \<Longrightarrow> conflicts l (fs_req st) \<Longrightarrow>
      ldlm_flock_deadlock (fe_fuel env) (flock_world_of env (st\<lparr>fs_err := 0, fs_req := blocked_on l (fs_req st)\<rparr>))
        (blocked_on l (fs_req st)) l = Some True"
  shows "\<exists>st'. ldlm_process_flock_lock env ast LDLM_PROCESS_ENQUEUE st = Some (LDLM_ITER_STOP, st') \<and>
    fs_err st' = - EDEADLK \<and> fs_res st' = fs_res st"
proof -
  obtain l where l: "l \<in> set (lr_granted (fs_res st))" "conflicts l (fs_req st)"
    "ldlm_process_flock_lock env ast LDLM_PROCESS_ENQUEUE st = flock_conflict env LDLM_PROCESS_ENQUEUE l (st\<lparr>fs_err := 0\<rparr>)"
    using process_conflict [OF assms(1-5), of ast] by blast
  have "l_export l \<noteq> None" using assms(10) l(1) by blast
  from conflict_waits [OF assms(6-9) this _ assms(11) [OF l(1,2)]] show ?thesis using assms(3) l(3) by auto
qed

text \<open>Owner 7 of client 1, who has the lock, waits for owner 8 of client 2 on another file.\<close>

definition dead_env :: flock_env where
  "dead_env = flk_env\<lparr>fe_world := flk_world [flk_blocked 9 1 7 2 8]\<rparr>"

theorem flock_setlkw_edeadlk_witness:
  "\<exists>st'. ldlm_process_flock_lock dead_env [] LDLM_PROCESS_ENQUEUE (wit_nowait 0) = Some (LDLM_ITER_STOP, st') \<and>
    fs_err st' = - EDEADLK \<and> fs_res st' = fs_res (wit_nowait 0)"
proof (rule flock_setlkw_edeadlk [OF _ wit_nowait_ok(1,2) _ wit_nowait_ok(3,4)])
  show "iter_ok (fe_iter dead_env)" using flk_env_ok(1) by (simp add: dead_env_def)
  have "\<forall>l\<in>set (lr_granted (fs_res (wit_nowait 0))).
      ldlm_flock_deadlock (fe_fuel dead_env) (flock_world_of dead_env ((wit_nowait 0)\<lparr>fs_err := 0, fs_req := blocked_on l (fs_req (wit_nowait 0))\<rparr>))
        (blocked_on l (fs_req (wit_nowait 0))) l = Some True"
    by code_simp
  then show "ldlm_flock_deadlock (fe_fuel dead_env) (flock_world_of dead_env ((wit_nowait 0)\<lparr>fs_err := 0, fs_req := blocked_on l (fs_req (wit_nowait 0))\<rparr>))
        (blocked_on l (fs_req (wit_nowait 0))) l = Some True" if "l \<in> set (lr_granted (fs_res (wit_nowait 0)))" for l
    using that by blast
qed code_simp+

section \<open>Unlocking\<close>

text \<open>Owner 7 gives up its write lock, for which owner 8 waits; owner 9 waits for a lock of owner 6.\<close>

definition wit_unlock :: flock_state where
  "wit_unlock = flk_state [flk 1 1 7 LCK_PW 10 20, flk 2 4 6 LCK_PW 50 60]
     [flk_req 3 2 8 LCK_PR 15 30, flk_req 4 3 9 LCK_PR 55 58] (flk_req 5 1 7 LCK_NL 0 100) 0"

text \<open>
  C10: No waiting lock is forgotten by an unlock. On a resource whose waiting locks all conflict with granted ones and where no two owners hold incompatible locks on a byte,
  an unlock that is enqueued on the server completes, whatever the completion callbacks return, and afterwards again every lock that still waits conflicts with a granted one, and no two owners hold
  incompatible locks on a byte. The conditions: the waiting locks have different owners, and none of these holds a granted lock of the resource; no holder of a granted lock is blocked
  on another resource (\<^term>\<open>waiters_ok\<close>); no other unlock is pending; if a lock has to be split, a second one can be created (\<^term>\<open>split_ok\<close>); and
  other threads leave the queues alone while the lock of the resource is dropped (\<^term>\<open>relock_quiet\<close>). Without the condition on the waiting owners the statement is
  false: a waiting owner that holds a write lock may be granted a read lock on a part of it, and that does not wake up anybody, as the next theorem shows.
\<close>

theorem flock_unlock_settles:
  assumes "iter_ok (fe_iter env)" and "relock_quiet (fe_relock env)" and "fe_fuel env > 0" and "flock_ok (fs_res st)"
    and "req_ok (fs_req st)" and "l_req_mode (fs_req st) = LCK_NL" and "\<not> flag_set (fs_flags st) LDLM_FL_TEST_LOCK"
    and "fs_flags st \<noteq> LDLM_FL_WAIT_NOREPROC" and "split_ok env st" and "waiters_ok env (fs_res st)"
    and "flock_exclusive (lr_granted (fs_res st))" and "flock_settled (fs_res st)"
    and "l_ptr (fs_req st) \<notin> l_ptr ` (set (lr_granted (fs_res st)) \<union> set (lr_waiting (fs_res st)))"
    and "lfn_unlock_pending (fs_res st) = 0"
  shows "\<exists>st'. ldlm_process_flock_lock env ast LDLM_PROCESS_ENQUEUE st = Some (LDLM_ITER_CONTINUE, st') \<and>
    flock_settled (fs_res st') \<and> flock_exclusive (lr_granted (fs_res st'))"
  using flock_unlock_wakes [OF assms, of ast] by blast

lemma wit_unlock_ok:
  "flock_ok (fs_res wit_unlock)" "req_ok (fs_req wit_unlock)" "l_req_mode (fs_req wit_unlock) = LCK_NL"
  "split_ok flk_env wit_unlock" "waiters_ok flk_env (fs_res wit_unlock)" "flock_exclusive (lr_granted (fs_res wit_unlock))"
  "flock_settled (fs_res wit_unlock)"
proof -
  show "flock_ok (fs_res wit_unlock)" by (rule res_check_ok) code_simp
  show "req_ok (fs_req wit_unlock)" "l_req_mode (fs_req wit_unlock) = LCK_NL" by code_simp+
  have "\<not> flock_splits (fs_req wit_unlock) (lr_granted (fs_res wit_unlock))" by code_simp
  then show "split_ok flk_env wit_unlock" by (simp add: split_ok_def)
  have "\<forall>w\<in>set (lr_waiting (fs_res wit_unlock)). req_ok w" by code_simp
  then show "waiters_ok flk_env (fs_res wit_unlock)"
    by (simp add: waiters_ok_def wit_unlock_def flk_state_def flk_def flk_req_def flk_env_def flk_world_def fresh_lock_def)
  show "flock_exclusive (lr_granted (fs_res wit_unlock))" by (rule excl_check_ok) code_simp
  show "flock_settled (fs_res wit_unlock)" by code_simp
qed

theorem flock_unlock_settles_witness:
  "\<exists>st'. ldlm_process_flock_lock flk_env [True, False] LDLM_PROCESS_ENQUEUE wit_unlock = Some (LDLM_ITER_CONTINUE, st') \<and>
    flock_settled (fs_res st') \<and> flock_exclusive (lr_granted (fs_res st'))"
  by (rule flock_unlock_settles [OF flk_env_ok wit_unlock_ok(1-3) _ _ wit_unlock_ok(4-7)]) code_simp+

text \<open>
  A defect: an owner that turns a write lock into a read lock wakes up nobody. A lock that waits for a read lock, and that conflicts only with bytes of the request that
  its owner holds for writing, stays in the waiting queue after the request was granted, although no granted lock conflicts with it any more. Only an unlock reprocesses the waiting locks, and
  \<^verbatim>\<open>ldlm_handle_enqueue\<close> leaves out locks of type \<^verbatim>\<open>LDLM_FLOCK\<close> when it reprocesses a resource.
\<close>

theorem flock_downgrade_forgets:
  assumes "iter_ok (fe_iter env)" and "relock_quiet (fe_relock env)" and "flock_ok (fs_res st)" and "req_ok (fs_req st)"
    and "flock_compat (fs_req st) (lr_granted (fs_res st))" and "\<not> flag_set (fs_flags st) LDLM_FL_TEST_LOCK" and "split_ok env st"
    and "l_ptr (fs_req st) \<notin> l_ptr ` (set (lr_granted (fs_res st)) \<union> set (lr_waiting (fs_res st)))"
    and "l_req_mode (fs_req st) = LCK_PR" and "v \<in> set (lr_waiting (fs_res st))" and "req_ok v" and "l_req_mode v = LCK_PR"
    and "\<forall>l\<in>set (lr_granted (fs_res st)). conflicts l v \<longrightarrow>
      flock_owner_of l = flock_owner_of (fs_req st) \<and> flock_range l \<inter> flock_range v \<subseteq> flock_range (fs_req st)"
  shows "\<exists>st'. ldlm_process_flock_lock env ast LDLM_PROCESS_ENQUEUE st = Some (LDLM_ITER_CONTINUE, st') \<and>
    v \<in> set (lr_waiting (fs_res st')) \<and> flock_compat v (lr_granted (fs_res st'))"
proof -
  have "no_conflict st" using assms(5) by (simp add: no_conflict_def)
  then obtain st' where st': "ldlm_process_flock_lock env ast LDLM_PROCESS_ENQUEUE st = Some (LDLM_ITER_CONTINUE, st')" "granted_post st st'"
    using process_is_once [OF assms(1-4) _ assms(6,7), of LDLM_PROCESS_ENQUEUE ast] assms(8,9) by auto
  have G: "\<And>own x m. flock_holds (lr_granted (fs_res st')) own x m \<longleftrightarrow>
      posix_grant (fs_req st) (flock_holds (lr_granted (fs_res st))) own x m" and ok': "flock_ok (fs_res st')"
    and W: "lr_waiting (fs_res st') = remove_lock (l_ptr (fs_req st)) (lr_waiting (fs_res st))"
    using st'(2) assms(9) by (simp_all add: granted_post_def del: split_paired_All)
  have "l_ptr v \<noteq> l_ptr (fs_req st)" using assms(8,10) by (metis UnCI imageI)
  then have v: "v \<in> set (lr_waiting (fs_res st'))" using assms(10) unfolding W remove_lock_def by simp
  have "flock_compat v (lr_granted (fs_res st'))"
    unfolding flock_compat_bytes [OF flock_ok_D(4) [OF ok'] conjunct1 [OF assms(11) [unfolded req_ok_def]]]
  proof (intro allI impI)
    fix own x m assume a: "own \<noteq> flock_owner_of v" "x \<in> flock_range v" "flock_holds (lr_granted (fs_res st')) own x m"
    show "lockmode_compat m (l_req_mode v)"
    proof (cases "own = flock_owner_of (fs_req st) \<and> x \<in> flock_range (fs_req st)")
      case True
      then show ?thesis using a(3) assms(9,12) unfolding G posix_grant_def by simp
    next
      case False
      then have "flock_holds (lr_granted (fs_res st)) own x m" using a(3) unfolding G posix_grant_def by (auto split: if_splits)
      then obtain l where l: "l \<in> set (lr_granted (fs_res st))" "flock_owner_of l = own" "x \<in> flock_range l" "l_granted_mode l = m"
        by (auto simp: flock_holds_def)
      have "ldlm_flocks_overlap l v"
        using overlap_iff [of l v] flock_ok_D(4) [OF assms(3)] l(1,3) a(2) assms(11) by (auto simp: lock_ok_def req_ok_def)
      then show ?thesis using assms(13) l a(1,2) False unfolding conflicts_def by blast
    qed
  qed
  then show ?thesis using st'(1) v by blast
qed

text \<open>Owner 7 turns its write lock on 10-20 into a read lock, owner 8 waits for a read lock on 15-18.\<close>

definition wit_downgrade :: flock_state where
  "wit_downgrade = flk_state [flk 1 1 7 LCK_PW 10 20] [flk_req 3 2 8 LCK_PR 15 18] (flk_req 5 1 7 LCK_PR 10 20) 0"

theorem flock_downgrade_forgets_witness:
  "flock_settled (fs_res wit_downgrade) \<and>
   (\<exists>st'. ldlm_process_flock_lock flk_env [] LDLM_PROCESS_ENQUEUE wit_downgrade = Some (LDLM_ITER_CONTINUE, st') \<and>
     flk_req 3 2 8 LCK_PR 15 18 \<in> set (lr_waiting (fs_res st')) \<and> flock_compat (flk_req 3 2 8 LCK_PR 15 18) (lr_granted (fs_res st')))"
proof
  show "flock_settled (fs_res wit_downgrade)" by code_simp
  show "\<exists>st'. ldlm_process_flock_lock flk_env [] LDLM_PROCESS_ENQUEUE wit_downgrade = Some (LDLM_ITER_CONTINUE, st') \<and>
     flk_req 3 2 8 LCK_PR 15 18 \<in> set (lr_waiting (fs_res st')) \<and> flock_compat (flk_req 3 2 8 LCK_PR 15 18) (lr_granted (fs_res st'))"
  proof (rule flock_downgrade_forgets [OF flk_env_ok(1,2)])
    show "flock_ok (fs_res wit_downgrade)" by (rule res_check_ok) code_simp
    have "\<not> flock_splits (fs_req wit_downgrade) (lr_granted (fs_res wit_downgrade))" by code_simp
    then show "split_ok flk_env wit_downgrade" by (simp add: split_ok_def)
    show "\<forall>l\<in>set (lr_granted (fs_res wit_downgrade)). conflicts l (flk_req 3 2 8 LCK_PR 15 18) \<longrightarrow>
        flock_owner_of l = flock_owner_of (fs_req wit_downgrade) \<and>
        flock_range l \<inter> flock_range (flk_req 3 2 8 LCK_PR 15 18) \<subseteq> flock_range (fs_req wit_downgrade)"
      by (auto simp: wit_downgrade_def flk_state_def flk_req_def flk_def fresh_lock_def flock_owner_of_def flock_range_def)
  qed code_simp+
qed

section \<open>Deadlocks\<close>

lemma flk_blocked_simps [simp]:
  "l_ptr (flk_blocked p e ow be bo) = p" "fl_owner (flk_blocked p e ow be bo) = ow"
  "fl_blocking_export (flk_blocked p e ow be bo) = Some be" "fl_blocking_owner (flk_blocked p e ow be bo) = bo"
  by (simp_all add: flk_blocked_def flk_req_def flk_def fresh_lock_def)

text \<open>
  C21: The search for a deadlock ends. When the locks that are blocked do not wait for each other in a cycle, every blocked lock names the export it waits for
  and the conflicting lock has an export, it returns after at most as many turns of its loop as there are blocked locks and one more, the unit of fuel being a turn.
\<close>

theorem flock_deadlock_terminates:
  assumes "world_ok w" and "acyclic (waits_for w)" and "l_export bl_lock \<noteq> None"
  shows "\<exists>dead. ldlm_flock_deadlock (length (fw_blocked w) + 1) w req bl_lock = Some dead"
  using ldlm_flock_deadlock_terminates [OF assms, of "length (fw_blocked w) + 1" req] by auto

definition wit_chain :: flock_world where
  "wit_chain = flk_world [flk_blocked 2 1 6 2 7, flk_blocked 1 2 7 3 8]"

lemma wit_chain_acyclic: "acyclic (waits_for wit_chain)"
proof (rule acyclicI_order [where f = l_ptr])
  fix b c assume "(b, c) \<in> waits_for wit_chain"
  moreover have "blocked_of wit_chain 2 7 = Some (flk_blocked 1 2 7 3 8)" "blocked_of wit_chain 3 8 = None" by code_simp+
  moreover have "fw_blocked wit_chain = [flk_blocked 2 1 6 2 7, flk_blocked 1 2 7 3 8]" by (simp add: wit_chain_def flk_world_def)
  ultimately show "l_ptr c < l_ptr b" by (auto simp: waits_for_def)
qed

theorem flock_deadlock_terminates_witness:
  "\<exists>dead. ldlm_flock_deadlock (length (fw_blocked wit_chain) + 1) wit_chain (flk_blocked 3 4 5 1 6) (flk 4 1 6 LCK_PW 0 9) = Some dead"
  by (rule flock_deadlock_terminates [OF _ wit_chain_acyclic]) code_simp+

text \<open>
  C22: The search finds a deadlock. When the owner of the conflicting lock is blocked and the chain of blocked locks leads from there to the
  request in \<open>n\<close> steps over exports that did not fail, the search reports a deadlock within \<open>n + 1\<close> turns.
\<close>

theorem flock_deadlock_found:
  assumes "\<forall>b\<in>set (fw_blocked w). \<exists>e. fl_blocking_export b = Some e \<and> \<not> fw_failed w e"
    and "l_export req = Some rexp" and "l_export bl_lock = Some bexp" and "blocked_of w bexp (fl_owner bl_lock) = Some b"
    and "(b, c) \<in> waits_for w ^^ n" and "l_ptr c = l_ptr req"
  shows "ldlm_flock_deadlock (n + 1) w req bl_lock = Some True"
  using deadlock_loop_finds [OF assms(1,4-6), of 0 rexp] assms(2,3) by (simp add: ldlm_flock_deadlock_def)

definition wit_cycle :: flock_world where
  "wit_cycle = flk_world [flk_blocked 1 1 6 2 7, flk_blocked 2 2 7 3 5, flk_blocked 3 3 5 1 6]"

theorem flock_deadlock_found_witness:
  "ldlm_flock_deadlock (2 + 1) wit_cycle (flk_blocked 3 3 5 1 6) (flk 4 1 6 LCK_PW 0 9) = Some True"
proof (rule flock_deadlock_found)
  have w: "(flk_blocked 1 1 6 2 7, flk_blocked 2 2 7 3 5) \<in> waits_for wit_cycle"
      "(flk_blocked 2 2 7 3 5, flk_blocked 3 3 5 1 6) \<in> waits_for wit_cycle"
  proof -
    have "blocked_of wit_cycle 2 7 = Some (flk_blocked 2 2 7 3 5)" "blocked_of wit_cycle 3 5 = Some (flk_blocked 3 3 5 1 6)" by code_simp+
    then show "(flk_blocked 1 1 6 2 7, flk_blocked 2 2 7 3 5) \<in> waits_for wit_cycle"
      "(flk_blocked 2 2 7 3 5, flk_blocked 3 3 5 1 6) \<in> waits_for wit_cycle"
      by (auto simp: waits_for_def wit_cycle_def flk_world_def)
  qed
  show "(flk_blocked 1 1 6 2 7, flk_blocked 3 3 5 1 6) \<in> waits_for wit_cycle ^^ 2"
    using w by (auto simp: numeral_2_eq_2)
  show "\<forall>b\<in>set (fw_blocked wit_cycle). \<exists>e. fl_blocking_export b = Some e \<and> \<not> fw_failed wit_cycle e"
    by (simp add: wit_cycle_def flk_world_def)
  show "l_export (flk_blocked 3 3 5 1 6) = Some 3" "l_export (flk 4 1 6 LCK_PW 0 9) = Some 1"
    "blocked_of wit_cycle 1 (fl_owner (flk 4 1 6 LCK_PW 0 9)) = Some (flk_blocked 1 1 6 2 7)" by code_simp+
qed simp

text \<open>
  C39: The search reports deadlocks that do not exist. Let the request and the conflicting lock come from exports with one network identifier, and let the owner of the conflicting
  lock be blocked by an owner of a client with another network identifier that has the same number as the owner of the request. Then the search reports a deadlock
  in its first turn, also when the blocking owner is not blocked at all, so that nobody waits for the request. The comparison of network identifiers uses the connection
  of the export before the step, instead of that of the blocking owner.
\<close>

theorem flock_deadlock_false_alarm:
  assumes "l_export req = Some rexp" and "l_export bl_lock = Some bexp" and "fw_nid w bexp = fw_nid w rexp"
    and "blocked_of w bexp (fl_owner bl_lock) = Some b" and "l_ptr b \<noteq> l_ptr req"
    and "fl_blocking_export b = Some e" and "\<not> fw_failed w e" and "fl_blocking_owner b = fl_owner req"
    and "fw_nid w e \<noteq> fw_nid w rexp" and "blocked_of w e (fl_owner req) = None"
  shows "ldlm_flock_deadlock (Suc fuel) w req bl_lock = Some True \<and> flock_owner_of req \<noteq> (Some e, fl_blocking_owner b) \<and>
    (\<nexists>c. (b, c) \<in> waits_for w)"
proof (intro conjI)
  show "ldlm_flock_deadlock (Suc fuel) w req bl_lock = Some True"
    using assms by (simp add: ldlm_flock_deadlock_def deadlock_loop_unfold del: flock_deadlock_loop.simps(2))
  show "flock_owner_of req \<noteq> (Some e, fl_blocking_owner b)" using assms(1,9) by (auto simp: flock_owner_of_def)
  show "\<nexists>c. (b, c) \<in> waits_for w" using assms(6,8,10) by (simp add: waits_for_def)
qed

text \<open>Owner 5 of client 1 asks for a lock of owner 6 of client 1, who waits for owner 5 of client 2.\<close>

definition alarm_world :: flock_world where
  "alarm_world = flk_world [flk_blocked 1 1 6 2 5, flk_blocked 2 1 5 1 6]"

theorem flock_deadlock_false_alarm_witness:
  "ldlm_flock_deadlock 2 alarm_world (flk_blocked 2 1 5 1 6) (flk 3 1 6 LCK_PW 0 9) = Some True \<and>
   (\<nexists>c. (flk_blocked 1 1 6 2 5, c) \<in> waits_for alarm_world)"
proof -
  have "ldlm_flock_deadlock (Suc 1) alarm_world (flk_blocked 2 1 5 1 6) (flk 3 1 6 LCK_PW 0 9) = Some True \<and>
      flock_owner_of (flk_blocked 2 1 5 1 6) \<noteq> (Some 2, fl_blocking_owner (flk_blocked 1 1 6 2 5)) \<and>
      (\<nexists>c. (flk_blocked 1 1 6 2 5, c) \<in> waits_for alarm_world)"
    by (rule flock_deadlock_false_alarm [where rexp = 1 and bexp = 1]) code_simp+
  then show ?thesis by (simp add: numeral_2_eq_2)
qed

text \<open>Owners 6 and 7 wait for each other.\<close>

definition hang_world :: flock_world where
  "hang_world = flk_world [flk_blocked 1 1 6 2 7, flk_blocked 2 2 7 1 6, flk_blocked 3 3 5 1 6]"

lemma hang_loop:
  "flock_deadlock_loop fuel hang_world (flk_blocked 3 3 5 1 6) 3 1 6 = None \<and>
   flock_deadlock_loop fuel hang_world (flk_blocked 3 3 5 1 6) 3 2 7 = None"
proof (induction fuel)
  case (Suc fuel)
  have "blocked_of hang_world 1 6 = Some (flk_blocked 1 1 6 2 7)" "blocked_of hang_world 2 7 = Some (flk_blocked 2 2 7 1 6)" by code_simp+
  then show ?case
    using Suc unfolding deadlock_loop_unfold by (simp add: hang_world_def flk_world_def)
qed simp

text \<open>
  C40: The search never ends when two other owners wait for each other. A deadlock that is found while waiting locks are processed again
  stays in place when the client does not know \<^verbatim>\<open>OBD_CONNECT_FLOCK_DEAD\<close>, since \<^verbatim>\<open>ldlm_flock_cancel_on_deadlock\<close> then does nothing. The next owner that
  asks for a lock of one of the two makes the server walk around their cycle forever.
\<close>

theorem flock_deadlock_hangs:
  "ldlm_flock_cancel_on_deadlock False st = Some st \<and>
   ldlm_flock_deadlock fuel hang_world (flk_blocked 3 3 5 1 6) (flk 4 1 6 LCK_PW 0 9) = None"
proof
  show "ldlm_flock_cancel_on_deadlock False st = Some st" by (simp add: ldlm_flock_cancel_on_deadlock_def)
  have "l_export (flk_blocked 3 3 5 1 6) = Some 3" "l_export (flk 4 1 6 LCK_PW 0 9) = Some 1" "fl_owner (flk 4 1 6 LCK_PW 0 9) = 6"
    by code_simp+
  then show "ldlm_flock_deadlock fuel hang_world (flk_blocked 3 3 5 1 6) (flk 4 1 6 LCK_PW 0 9) = None"
    using hang_loop [of fuel] by (simp add: ldlm_flock_deadlock_def)
qed

section \<open>Modes\<close>

text \<open>
  The compatibility of lock modes computed from the masks \<^verbatim>\<open>LCK_COMPAT_*\<close> is the table in the comment of \<^verbatim>\<open>lustre_dlm.h\<close>, entry by entry
  over all nine modes, and it is symmetric.
\<close>

theorem lockmode_compat_table:
  "map (\<lambda>a. map (\<lambda>b. if lockmode_compat a b then 1 else 0) all_modes) all_modes = compat_matrix \<and>
   list_all (\<lambda>a. list_all (\<lambda>b. lockmode_compat a b = lockmode_compat b a) all_modes) all_modes"
  using compat_table compat_sym by (simp add: list_all_iff)

end
