(* ===== verification/Range_Lock.thy ===== *)
theory Range_Lock
  imports Prelude
begin

text \<open>
  The range locks of \<^verbatim>\<open>obdclass/range_lock.c\<close>, which keep concurrent writers of one file apart: the lock and the tree of
  \<^verbatim>\<open>range_lock.h\<close>, the four operations, and the runs of threads that take and release locks of one tree.

  The locks of a tree are a list of records with an address; the interval tree of the kernel is the argument \<open>iter\<close>, which gives the locks
  that overlap an interval in the order of the tree. A thread is a number. \<^verbatim>\<open>range_lock\<close> gives up the spin lock in
  \<^verbatim>\<open>schedule()\<close>, so it is two operations: from the entry to the first \<^verbatim>\<open>schedule()\<close> or the return, and from the return of
  \<^verbatim>\<open>schedule()\<close> to the next one. An operation is \<^term>\<open>None\<close> when it touches a lock that is not in the tree or wakes the thread NULL.
\<close>

section \<open>Data\<close>

definition LUSTRE_EOF :: u64 where
  "LUSTRE_EOF = 0xffffffffffffffff"

lemma LUSTRE_EOF_max [simp]: "x \<le> LUSTRE_EOF"
  unfolding LUSTRE_EOF_def by (rule OBD_OBJECT_EOF_max [unfolded OBD_OBJECT_EOF_def])

definition ERESTARTSYS :: int where
  "ERESTARTSYS = 512"

record range_lock =
  rl_ptr :: nat
  rl_start :: u64
  rl_end :: u64
  rl_task :: "nat option"
  rl_blocking_ranges :: u32
  rl_sequence :: u64

record range_lock_tree =
  rlt_root :: "range_lock list"
  rlt_sequence :: u64

type_synonym range_iter = "range_lock list \<Rightarrow> u64 \<Rightarrow> u64 \<Rightarrow> range_lock list"

text \<open>What the rest of \<^verbatim>\<open>range_lock\<close> does: return a value, or sleep in \<^verbatim>\<open>schedule()\<close>.\<close>

datatype range_out = RL_RETURN int | RL_SCHEDULE

section \<open>Operations\<close>

definition range_lock_tree_init :: range_lock_tree where
  "range_lock_tree_init = \<lparr>rlt_root = [], rlt_sequence = 0\<rparr>"

definition range_lock_init :: "nat \<Rightarrow> nat \<Rightarrow> u64 \<Rightarrow> u64 \<Rightarrow> range_lock" where
  "range_lock_init page_shift p start stop =
     \<lparr>rl_ptr = p, rl_start = drop_bit page_shift start,
      rl_end = (if stop \<noteq> LUSTRE_EOF then drop_bit page_shift stop else stop),
      rl_task = None, rl_blocking_ranges = 0, rl_sequence = 0\<rparr>"

definition range_find :: "nat \<Rightarrow> range_lock_tree \<Rightarrow> range_lock option" where
  "range_find p tree = find (\<lambda>l. rl_ptr l = p) (rlt_root tree)"

definition range_set :: "range_lock \<Rightarrow> range_lock list \<Rightarrow> range_lock list" where
  "range_set l ls = map (\<lambda>x. if rl_ptr x = rl_ptr l then l else x) ls"

text \<open>The loop of \<^verbatim>\<open>range_unlock\<close> over the overlapping locks gives the locks of the tree and the threads woken up.\<close>

fun range_unlock_loop :: "u64 \<Rightarrow> range_lock list \<Rightarrow> range_lock list \<Rightarrow> (range_lock list \<times> nat list) option" where
  "range_unlock_loop seq [] root = Some (root, [])"
| "range_unlock_loop seq (overlap # overlaps) root =
     (if rl_sequence overlap > seq
      then let overlap' = overlap\<lparr>rl_blocking_ranges := rl_blocking_ranges overlap - 1\<rparr> in
           if rl_blocking_ranges overlap' = 0
           then do { t \<leftarrow> rl_task overlap';
                     (root', woken) \<leftarrow> range_unlock_loop seq overlaps (range_set overlap' root);
                     Some (root', t # woken) }
           else range_unlock_loop seq overlaps (range_set overlap' root)
      else range_unlock_loop seq overlaps root)"

definition range_unlock :: "range_iter \<Rightarrow> range_lock_tree \<Rightarrow> nat \<Rightarrow> (range_lock_tree \<times> nat list) option" where
  "range_unlock iter tree p = do {
     lock \<leftarrow> range_find p tree;
     let root = filter (\<lambda>l. rl_ptr l \<noteq> p) (rlt_root tree);
     (root', woken) \<leftarrow> range_unlock_loop (rl_sequence lock) (iter root (rl_start lock) (rl_end lock)) root;
     Some (tree\<lparr>rlt_root := root'\<rparr>, woken) }"

text \<open>One test of the condition of the loop of \<^verbatim>\<open>range_lock\<close>, with the spin lock held.\<close>

definition range_lock_test :: "range_lock_tree \<Rightarrow> nat \<Rightarrow> nat \<Rightarrow> (range_lock_tree \<times> range_out) option" where
  "range_lock_test tree p current = do {
     lock \<leftarrow> range_find p tree;
     Some (if rl_blocking_ranges lock > 0
           then (tree\<lparr>rlt_root := range_set (lock\<lparr>rl_task := Some current\<rparr>) (rlt_root tree)\<rparr>, RL_SCHEDULE)
           else (tree, RL_RETURN 0)) }"

definition range_lock_enter :: "range_iter \<Rightarrow> range_lock_tree \<Rightarrow> range_lock \<Rightarrow> nat \<Rightarrow> (range_lock_tree \<times> range_out) option" where
  "range_lock_enter iter tree lock current =
     (let overlaps = iter (rlt_root tree) (rl_start lock) (rl_end lock);
          lock' = lock\<lparr>rl_blocking_ranges := fold (\<lambda>_ n. n + 1) overlaps (rl_blocking_ranges lock),
                       rl_sequence := rlt_sequence tree + 1\<rparr>
      in range_lock_test (tree\<lparr>rlt_root := lock' # rlt_root tree, rlt_sequence := rlt_sequence tree + 1\<rparr>) (rl_ptr lock) current)"

definition range_lock_resume :: "range_iter \<Rightarrow> range_lock_tree \<Rightarrow> nat \<Rightarrow> nat \<Rightarrow> bool \<Rightarrow> (range_lock_tree \<times> nat list \<times> range_out) option" where
  "range_lock_resume iter tree p current fatal_signal =
     (if fatal_signal
      then do { (tree', woken) \<leftarrow> range_unlock iter tree p; Some (tree', woken, RL_RETURN (- ERESTARTSYS)) }
      else do { (tree', out) \<leftarrow> range_lock_test tree p current; Some (tree', [], out) })"

section \<open>Runs\<close>

text \<open>
  The tree, the locks whose \<^verbatim>\<open>range_lock\<close> returned 0, and the threads asleep in \<^verbatim>\<open>schedule()\<close>. A thread whose lock is in the tree
  but not held is in the loop of \<^verbatim>\<open>range_lock\<close>; \<^verbatim>\<open>rl_task\<close> names it.
\<close>

record range_sys =
  rs_tree :: range_lock_tree
  rs_held :: "nat set"
  rs_asleep :: "nat set"

definition range_sys_init :: range_sys where
  "range_sys_init = \<lparr>rs_tree = range_lock_tree_init, rs_held = {}, rs_asleep = {}\<rparr>"

definition range_locks :: "range_sys \<Rightarrow> range_lock set" where
  "range_locks s = set (rlt_root (rs_tree s))"

definition range_waiting :: "range_sys \<Rightarrow> range_lock set" where
  "range_waiting s = {l \<in> range_locks s. rl_ptr l \<notin> rs_held s}"

definition after_return :: "nat \<Rightarrow> nat \<Rightarrow> range_out \<Rightarrow> range_sys \<Rightarrow> range_sys" where
  "after_return p t out s = (case out of
       RL_SCHEDULE \<Rightarrow> s\<lparr>rs_asleep := insert t (rs_asleep s)\<rparr>
     | RL_RETURN rc \<Rightarrow> if rc = 0 then s\<lparr>rs_held := insert p (rs_held s)\<rparr> else s)"

text \<open>
  A thread that is not in \<^verbatim>\<open>range_lock\<close> calls it with an initialised lock; a holder calls \<^verbatim>\<open>range_unlock\<close>; a signal or another wakeup
  ends the sleep of a thread; an awake thread in the loop goes on, with or without a fatal signal. The counters do not wrap: there are
  fewer than \<open>2\<^sup>3\<^sup>2 - 1\<close> locks in the tree, and fewer than \<open>2\<^sup>6\<^sup>4 - 1\<close> were ever taken.
\<close>

inductive range_step :: "nat \<Rightarrow> range_iter \<Rightarrow> range_sys \<Rightarrow> range_sys \<Rightarrow> bool" for page_shift iter where
  enter: "\<lbrakk> p \<notin> rl_ptr ` range_locks s; \<forall>l\<in>range_waiting s. rl_task l \<noteq> Some t; start \<le> stop;
     length (rlt_root (rs_tree s)) < 2 ^ 32 - 1; unat (rlt_sequence (rs_tree s)) < 2 ^ 64 - 1;
     range_lock_enter iter (rs_tree s) (range_lock_init page_shift p start stop) t = Some (tree', out) \<rbrakk>
   \<Longrightarrow> range_step page_shift iter s (after_return p t out (s\<lparr>rs_tree := tree'\<rparr>))"
| unlock: "\<lbrakk> p \<in> rs_held s; range_unlock iter (rs_tree s) p = Some (tree', woken) \<rbrakk>
   \<Longrightarrow> range_step page_shift iter s (s\<lparr>rs_tree := tree', rs_held := rs_held s - {p}, rs_asleep := rs_asleep s - set woken\<rparr>)"
| wakeup: "range_step page_shift iter s (s\<lparr>rs_asleep := rs_asleep s - {t}\<rparr>)"
| resume: "\<lbrakk> l \<in> range_waiting s; rl_task l = Some t; t \<notin> rs_asleep s;
     range_lock_resume iter (rs_tree s) (rl_ptr l) t fatal_signal = Some (tree', woken, out) \<rbrakk>
   \<Longrightarrow> range_step page_shift iter s (after_return (rl_ptr l) t out (s\<lparr>rs_tree := tree', rs_asleep := rs_asleep s - set woken\<rparr>))"

text \<open>What the interval tree promises: the locks of the tree that overlap the interval, each once.\<close>

definition range_overlap :: "range_lock \<Rightarrow> range_lock \<Rightarrow> bool" where
  "range_overlap l m \<longleftrightarrow> rl_start l \<le> rl_end m \<and> rl_start m \<le> rl_end l"

definition range_iter_ok :: "range_iter \<Rightarrow> bool" where
  "range_iter_ok iter \<longleftrightarrow> (\<forall>ls s e. distinct (map rl_ptr ls) \<longrightarrow> s \<le> e \<longrightarrow> (\<forall>l\<in>set ls. rl_start l \<le> rl_end l) \<longrightarrow>
     distinct (map rl_ptr (iter ls s e)) \<and> set (iter ls s e) = {l \<in> set ls. rl_start l \<le> e \<and> s \<le> rl_end l})"

end
