(* ===== verification/Range_Lock_Correct.thy ===== *)
theory Range_Lock_Correct
  imports Range_Lock
begin

text \<open>
  The invariant of the range locks: the counter of a lock is the number of overlapping locks queued before it, a held lock has none, and
  no thread sleeps whose lock has none. Every operation keeps it, and no operation wakes the thread NULL.
\<close>

section \<open>The tree\<close>

definition earlier :: "range_lock \<Rightarrow> range_lock \<Rightarrow> bool" where
  "earlier m l \<longleftrightarrow> rl_sequence m < rl_sequence l \<and> range_overlap m l"

definition blockers :: "range_lock list \<Rightarrow> range_lock \<Rightarrow> nat" where
  "blockers ls l = length (filter (\<lambda>m. earlier m l) ls)"

definition tree_ok :: "range_lock_tree \<Rightarrow> bool" where
  "tree_ok tree \<longleftrightarrow> distinct (map rl_ptr (rlt_root tree)) \<and> length (rlt_root tree) < 2 ^ 32 \<and>
     (\<forall>l\<in>set (rlt_root tree). rl_start l \<le> rl_end l \<and> rl_sequence l \<le> rlt_sequence tree \<and>
        unat (rl_blocking_ranges l) = blockers (rlt_root tree) l) \<and>
     inj_on rl_sequence (set (rlt_root tree))"

text \<open>A change of counters and threads only.\<close>

definition same_lock :: "range_lock \<Rightarrow> range_lock \<Rightarrow> bool" where
  "same_lock l m \<longleftrightarrow> rl_ptr l = rl_ptr m \<and> rl_start l = rl_start m \<and> rl_end l = rl_end m \<and> rl_sequence l = rl_sequence m"

lemma earlier_same [simp]: "same_lock a a' \<Longrightarrow> same_lock b b' \<Longrightarrow> earlier a b = earlier a' b'"
  by (simp add: same_lock_def earlier_def range_overlap_def)

lemma blockers_map:
  assumes "\<And>l. l \<in> set ls \<Longrightarrow> same_lock (f l) l" and "same_lock x y"
  shows "blockers (map f ls) x = blockers ls y"
proof -
  have "filter (\<lambda>l. earlier (f l) x) ls = filter (\<lambda>l. earlier l y) ls"
    by (rule filter_cong) (use assms in \<open>auto intro: earlier_same\<close>)
  then show ?thesis by (simp add: blockers_def filter_map comp_def)
qed

lemma map_ptr_same:
  "(\<And>l. l \<in> set ls \<Longrightarrow> same_lock (f l) l) \<Longrightarrow> map (rl_ptr \<circ> f) ls = map rl_ptr ls"
  by (simp add: same_lock_def)

lemma tree_ok_map:
  assumes "distinct (map rl_ptr ls)" and "length ls < 2 ^ 32" and "inj_on rl_sequence (set ls)"
    and "\<And>l. l \<in> set ls \<Longrightarrow> same_lock (f l) l \<and> rl_start l \<le> rl_end l \<and> rl_sequence l \<le> rlt_sequence tree \<and>
      unat (rl_blocking_ranges (f l)) = blockers ls l"
  shows "tree_ok (tree\<lparr>rlt_root := map f ls\<rparr>)"
proof -
  have s: "same_lock (f l) l" if "l \<in> set ls" for l using assms(4) that by blast
  have "inj_on rl_sequence (f ` set ls)"
    using assms(3) s unfolding inj_on_def same_lock_def by (metis imageE)
  moreover have "rl_start (f l) \<le> rl_end (f l) \<and> rl_sequence (f l) \<le> rlt_sequence tree \<and>
      unat (rl_blocking_ranges (f l)) = blockers (map f ls) (f l)" if "l \<in> set ls" for l
    using assms(4) [OF that] blockers_map [OF s s [OF that]] by (simp add: same_lock_def)
  ultimately show ?thesis
    using assms(1,2) by (simp add: tree_ok_def map_ptr_same [OF s])
qed

lemma range_find_Some:
  assumes "distinct (map rl_ptr (rlt_root tree))"
  shows "range_find p tree = Some l \<longleftrightarrow> l \<in> set (rlt_root tree) \<and> rl_ptr l = p"
proof -
  have "find (\<lambda>l. rl_ptr l = p) ls = Some l \<longleftrightarrow> l \<in> set ls \<and> rl_ptr l = p" if "distinct (map rl_ptr ls)" for ls
    using that by (induction ls) (auto simp: image_iff)
  then show ?thesis using assms by (simp add: range_find_def)
qed

lemma blockers_remove:
  assumes "distinct (map rl_ptr ls)" and "l \<in> set ls"
  shows "blockers ls m = blockers (filter (\<lambda>x. rl_ptr x \<noteq> rl_ptr l) ls) m + (if earlier l m then 1 else 0)"
  using assms
proof (induction ls)
  case (Cons a ls)
  show ?case
  proof (cases "rl_ptr a = rl_ptr l")
    case True
    then have "a = l" and "filter (\<lambda>x. rl_ptr x \<noteq> rl_ptr l) ls = ls"
      using Cons.prems by (auto simp: filter_id_conv image_iff)
    then show ?thesis by (simp add: blockers_def)
  next
    case False
    then show ?thesis using Cons by (auto simp: blockers_def)
  qed
qed simp

section \<open>Unlock\<close>

definition unblock :: "range_lock \<Rightarrow> range_lock" where
  "unblock l = l\<lparr>rl_blocking_ranges := rl_blocking_ranges l - 1\<rparr>"

lemma unblock_simps [simp]:
  "rl_ptr (unblock l) = rl_ptr l" "rl_sequence (unblock l) = rl_sequence l" "rl_task (unblock l) = rl_task l"
  "rl_blocking_ranges (unblock l) = rl_blocking_ranges l - 1" "same_lock (unblock l) l"
  by (simp_all add: unblock_def same_lock_def)

lemma same_lock_refl [simp]: "same_lock l l"
  by (simp add: same_lock_def)

lemma range_set_unblock:
  assumes "distinct (map rl_ptr ls)" and "x \<in> set ls"
  shows "range_set (unblock x) ls = map (\<lambda>l. if l = x then unblock l else l) ls"
  using assms unfolding range_set_def by (intro map_cong) (auto simp: distinct_map inj_on_def)

lemma range_unlock_loop_eq:
  assumes "distinct (map rl_ptr os)" and "distinct (map rl_ptr ls)" and "set os \<subseteq> set ls"
    and "\<forall>l\<in>set os. seq < rl_sequence l \<longrightarrow> rl_blocking_ranges l = 1 \<longrightarrow> rl_task l \<noteq> None"
  shows "range_unlock_loop seq os ls = Some (map (\<lambda>l. if l \<in> set os \<and> seq < rl_sequence l then unblock l else l) ls,
    map (the \<circ> rl_task) (filter (\<lambda>l. seq < rl_sequence l \<and> rl_blocking_ranges l = 1) os))"
  using assms
proof (induction os arbitrary: ls)
  case (Cons x os)
  show ?case
  proof (cases "seq < rl_sequence x")
    case True
    have x: "x \<in> set ls" "rl_ptr x \<notin> rl_ptr ` set os" using Cons.prems by auto
    define ls' where "ls' = range_set (unblock x) ls"
    have ls': "ls' = map (\<lambda>l. if l = x then unblock l else l) ls"
      unfolding ls'_def by (rule range_set_unblock [OF Cons.prems(2) x(1)])
    have u: "unblock x \<notin> set os" using x(2) by (metis unblock_simps(1) imageI)
    have sub: "set os \<subseteq> set ls'" using Cons.prems(3) x(2) unfolding ls' by auto
    have "map (\<lambda>l. if l \<in> set os \<and> seq < rl_sequence l then unblock l else l) ls' =
        map (\<lambda>l. if l \<in> set (x # os) \<and> seq < rl_sequence l then unblock l else l) ls"
      using u True x(2) unfolding ls' by (auto simp: comp_def)
    moreover have "distinct (map rl_ptr ls')"
      unfolding ls' map_map by (subst map_ptr_same) (use Cons.prems(2) in simp_all)
    ultimately have IH: "range_unlock_loop seq os ls' = Some (map (\<lambda>l. if l \<in> set (x # os) \<and> seq < rl_sequence l then unblock l else l) ls,
        map (the \<circ> rl_task) (filter (\<lambda>l. seq < rl_sequence l \<and> rl_blocking_ranges l = 1) os))"
      using Cons.IH [of ls'] Cons.prems(1,4) sub by simp
    have z: "rl_blocking_ranges x - 1 = 0 \<longleftrightarrow> rl_blocking_ranges x = 1" by simp
    show ?thesis
      using IH True Cons.prems(4) by (auto simp: Let_def z ls'_def unblock_def simp del: right_minus_eq)
  next
    case False
    then show ?thesis using Cons by (auto intro!: map_cong)
  qed
qed simp

text \<open>The tree after \<^verbatim>\<open>range_unlock\<close> of a lock, and the threads it wakes.\<close>

definition unlocked :: "range_lock \<Rightarrow> range_lock list \<Rightarrow> range_lock list" where
  "unlocked l ls = map (\<lambda>m. if earlier l m then unblock m else m) (filter (\<lambda>m. rl_ptr m \<noteq> rl_ptr l) ls)"

definition unblocked_threads :: "range_lock \<Rightarrow> range_lock list \<Rightarrow> nat set" where
  "unblocked_threads l ls = {t. \<exists>m\<in>set ls. rl_ptr m \<noteq> rl_ptr l \<and> earlier l m \<and> rl_blocking_ranges m = 1 \<and> rl_task m = Some t}"

lemma range_unlock_eq:
  assumes it: "range_iter_ok iter" and ok: "tree_ok tree" and l: "l \<in> set (rlt_root tree)"
    and tasks: "\<forall>m\<in>set (rlt_root tree). rl_blocking_ranges m \<noteq> 0 \<longrightarrow> rl_task m \<noteq> None"
  shows "\<exists>woken. range_unlock iter tree (rl_ptr l) = Some (tree\<lparr>rlt_root := unlocked l (rlt_root tree)\<rparr>, woken) \<and>
    set woken = unblocked_threads l (rlt_root tree)"
proof -
  define ls where "ls = filter (\<lambda>m. rl_ptr m \<noteq> rl_ptr l) (rlt_root tree)"
  define os where "os = iter ls (rl_start l) (rl_end l)"
  have d: "distinct (map rl_ptr ls)" using ok unfolding ls_def tree_ok_def by (simp add: distinct_map_filter)
  have "range_find (rl_ptr l) tree = Some l" using ok l by (simp add: range_find_Some tree_ok_def)
  then have u: "range_unlock iter tree (rl_ptr l) =
      do { (root', woken) \<leftarrow> range_unlock_loop (rl_sequence l) os ls; Some (tree\<lparr>rlt_root := root'\<rparr>, woken) }"
    by (simp add: range_unlock_def Let_def ls_def os_def)
  have os: "distinct (map rl_ptr os)" "set os = {m \<in> set ls. range_overlap l m}"
    using it d ok l unfolding range_iter_ok_def os_def range_overlap_def tree_ok_def ls_def by auto
  have loop: "range_unlock_loop (rl_sequence l) os ls =
      Some (map (\<lambda>m. if m \<in> set os \<and> rl_sequence l < rl_sequence m then unblock m else m) ls,
        map (the \<circ> rl_task) (filter (\<lambda>m. rl_sequence l < rl_sequence m \<and> rl_blocking_ranges m = 1) os))"
    by (rule range_unlock_loop_eq [OF os(1) d]) (use os(2) tasks in \<open>auto simp: ls_def\<close>)
  have "map (\<lambda>m. if m \<in> set os \<and> rl_sequence l < rl_sequence m then unblock m else m) ls = unlocked l (rlt_root tree)"
    unfolding unlocked_def ls_def [symmetric] by (rule map_cong) (auto simp: os(2) earlier_def)
  moreover have "set (map (the \<circ> rl_task) (filter (\<lambda>m. rl_sequence l < rl_sequence m \<and> rl_blocking_ranges m = 1) os)) =
      unblocked_threads l (rlt_root tree)"
    using tasks unfolding unblocked_threads_def by (force simp: os(2) earlier_def ls_def image_iff)
  ultimately show ?thesis unfolding u loop by simp
qed

lemma unat_pred: "unat (x :: u32) = Suc n \<Longrightarrow> unat (x - 1) = n"
  by (metis diff_Suc_1 nat.distinct(1) unat_0 unat_minus_one)

lemma unlocked_ok:
  assumes "tree_ok tree" and "l \<in> set (rlt_root tree)"
  shows "tree_ok (tree\<lparr>rlt_root := unlocked l (rlt_root tree)\<rparr>)"
  unfolding unlocked_def
proof (rule tree_ok_map)
  let ?ls = "filter (\<lambda>m. rl_ptr m \<noteq> rl_ptr l) (rlt_root tree)"
  show "distinct (map rl_ptr ?ls)" using assms(1) by (simp add: tree_ok_def distinct_map_filter)
  show "length ?ls < 2 ^ 32"
    using assms(1) length_filter_le [of "\<lambda>m. rl_ptr m \<noteq> rl_ptr l" "rlt_root tree"] unfolding tree_ok_def by linarith
  show "inj_on rl_sequence (set ?ls)" using assms(1) by (auto simp: tree_ok_def inj_on_def)
  fix m assume m: "m \<in> set ?ls"
  have "unat (rl_blocking_ranges m) = blockers ?ls m + (if earlier l m then 1 else 0)"
    using assms m blockers_remove [OF _ assms(2), of m] by (simp add: tree_ok_def)
  then have "unat (rl_blocking_ranges (if earlier l m then unblock m else m)) = blockers ?ls m"
    by (auto simp: unat_pred)
  then show "same_lock (if earlier l m then unblock m else m) m \<and> rl_start m \<le> rl_end m \<and> rl_sequence m \<le> rlt_sequence tree \<and>
      unat (rl_blocking_ranges (if earlier l m then unblock m else m)) = blockers ?ls m"
    using assms(1) m by (simp add: tree_ok_def)
qed

section \<open>Lock\<close>

definition with_task :: "nat \<Rightarrow> nat \<Rightarrow> range_lock list \<Rightarrow> range_lock list" where
  "with_task p t ls = map (\<lambda>m. if rl_ptr m = p then m\<lparr>rl_task := Some t\<rparr> else m) ls"

lemma range_lock_test_eq:
  assumes "distinct (map rl_ptr (rlt_root tree))" and l: "l \<in> set (rlt_root tree)"
  shows "range_lock_test tree (rl_ptr l) t = Some (if rl_blocking_ranges l = 0 then (tree, RL_RETURN 0)
    else (tree\<lparr>rlt_root := with_task (rl_ptr l) t (rlt_root tree)\<rparr>, RL_SCHEDULE))"
proof -
  have f: "range_find (rl_ptr l) tree = Some l" using assms by (simp add: range_find_Some)
  have "range_set (l\<lparr>rl_task := Some t\<rparr>) (rlt_root tree) = with_task (rl_ptr l) t (rlt_root tree)"
    using assms unfolding range_set_def with_task_def by (intro map_cong) (auto simp: distinct_map inj_on_def)
  then show ?thesis using f by (simp add: range_lock_test_def word_neq_0_conv)
qed

lemma with_task_ok: "tree_ok tree \<Longrightarrow> tree_ok (tree\<lparr>rlt_root := with_task p t (rlt_root tree)\<rparr>)"
  unfolding with_task_def by (rule tree_ok_map) (auto simp: tree_ok_def same_lock_def)

text \<open>The lock in the tree right after \<^verbatim>\<open>range_lock_insert\<close>.\<close>

definition queued :: "range_lock \<Rightarrow> range_lock_tree \<Rightarrow> range_lock" where
  "queued lock tree = lock\<lparr>rl_blocking_ranges := of_nat (length (filter (range_overlap lock) (rlt_root tree))),
     rl_sequence := rlt_sequence tree + 1\<rparr>"

lemma fold_count: "fold (\<lambda>_ n. n + 1) xs (k :: u32) = k + of_nat (length xs)"
  by (induction xs arbitrary: k) (simp_all add: add.assoc)

lemma range_lock_enter_eq:
  assumes it: "range_iter_ok iter" and ok: "tree_ok tree"
    and l: "rl_blocking_ranges lock = 0" "rl_start lock \<le> rl_end lock"
  shows "range_lock_enter iter tree lock t =
    range_lock_test (tree\<lparr>rlt_root := queued lock tree # rlt_root tree, rlt_sequence := rlt_sequence tree + 1\<rparr>) (rl_ptr lock) t"
proof -
  let ?os = "iter (rlt_root tree) (rl_start lock) (rl_end lock)"
  have "distinct (map rl_ptr ?os)" "set ?os = set (filter (range_overlap lock) (rlt_root tree))"
    using it ok l(2) unfolding range_iter_ok_def tree_ok_def range_overlap_def by auto
  moreover have "distinct (filter (range_overlap lock) (rlt_root tree))"
    using ok by (auto simp: tree_ok_def distinct_map)
  ultimately have "length ?os = length (filter (range_overlap lock) (rlt_root tree))"
    by (metis distinct_card distinct_map)
  then show ?thesis by (simp add: range_lock_enter_def Let_def queued_def fold_count l(1))
qed

lemma queued_ok:
  assumes ok: "tree_ok tree" and l: "rl_ptr lock \<notin> rl_ptr ` set (rlt_root tree)" "rl_start lock \<le> rl_end lock"
    and b: "length (rlt_root tree) < 2 ^ 32 - 1" "unat (rlt_sequence tree) < 2 ^ 64 - 1"
  shows "tree_ok (tree\<lparr>rlt_root := queued lock tree # rlt_root tree, rlt_sequence := rlt_sequence tree + 1\<rparr>)"
proof -
  let ?q = "queued lock tree" and ?ls = "rlt_root tree"
  have lt: "rlt_sequence tree < rlt_sequence tree + 1"
    using b(2) unat_add_lem [of "rlt_sequence tree" 1] by (simp add: word_less_nat_alt)
  have new: "rl_sequence m < rl_sequence ?q" if "m \<in> set ?ls" for m
    using ok that lt by (auto simp: tree_ok_def queued_def)
  have "blockers (?q # ?ls) ?q = length (filter (range_overlap lock) ?ls)"
    unfolding blockers_def using new
    by (simp add: earlier_def) (rule arg_cong [of _ _ length], rule filter_cong, auto simp: range_overlap_def queued_def)
  moreover have "length (filter (range_overlap lock) ?ls) < 2 ^ 32"
    using b(1) length_filter_le [of "range_overlap lock" ?ls] by linarith
  ultimately have q: "unat (rl_blocking_ranges ?q) = blockers (?q # ?ls) ?q"
    by (simp add: queued_def unsigned_of_nat take_bit_nat_eq_self_iff)
  have "blockers (?q # ?ls) m = blockers ?ls m" if "m \<in> set ?ls" for m
    using new [OF that] by (auto simp: blockers_def earlier_def)
  moreover have "rl_sequence m \<le> rlt_sequence tree + 1" if "m \<in> set ?ls" for m
    using ok that lt by (fastforce simp: tree_ok_def)
  moreover have "rl_sequence ?q \<notin> rl_sequence ` set ?ls" using new by force
  moreover have "rl_ptr ?q = rl_ptr lock" "rl_start ?q = rl_start lock" "rl_end ?q = rl_end lock" "rl_sequence ?q = rlt_sequence tree + 1"
    by (simp_all add: queued_def)
  ultimately show ?thesis
    using ok q l b(1) by (simp add: tree_ok_def) blast
qed

section \<open>Threads\<close>

definition threads_ok :: "range_sys \<Rightarrow> bool" where
  "threads_ok s \<longleftrightarrow> rs_held s \<subseteq> rl_ptr ` range_locks s \<and>
     (\<forall>l\<in>range_locks s. rl_ptr l \<in> rs_held s \<longrightarrow> rl_blocking_ranges l = 0) \<and>
     (\<forall>l\<in>range_waiting s. \<exists>t. rl_task l = Some t \<and> (t \<in> rs_asleep s \<longrightarrow> rl_blocking_ranges l \<noteq> 0)) \<and>
     (\<forall>l\<in>range_waiting s. \<forall>m\<in>range_waiting s. rl_task l = rl_task m \<longrightarrow> rl_ptr l = rl_ptr m)"

lemma threads_okI:
  assumes "rs_held s \<subseteq> rl_ptr ` range_locks s"
    and "\<And>l. l \<in> range_locks s \<Longrightarrow> rl_ptr l \<in> rs_held s \<Longrightarrow> rl_blocking_ranges l = 0"
    and "\<And>l. l \<in> range_waiting s \<Longrightarrow> \<exists>t. rl_task l = Some t \<and> (t \<in> rs_asleep s \<longrightarrow> rl_blocking_ranges l \<noteq> 0)"
    and "\<And>l m. l \<in> range_waiting s \<Longrightarrow> m \<in> range_waiting s \<Longrightarrow> rl_task l = rl_task m \<Longrightarrow> rl_ptr l = rl_ptr m"
  shows "threads_ok s"
  unfolding threads_ok_def by (intro conjI ballI impI) (fact assms)+

lemma threads_okD:
  assumes "threads_ok s"
  shows "rs_held s \<subseteq> rl_ptr ` range_locks s"
    and "l \<in> range_locks s \<Longrightarrow> rl_ptr l \<in> rs_held s \<Longrightarrow> rl_blocking_ranges l = 0"
    and "l \<in> range_waiting s \<Longrightarrow> \<exists>t. rl_task l = Some t \<and> (t \<in> rs_asleep s \<longrightarrow> rl_blocking_ranges l \<noteq> 0)"
    and "l \<in> range_waiting s \<Longrightarrow> m \<in> range_waiting s \<Longrightarrow> rl_task l = rl_task m \<Longrightarrow> rl_ptr l = rl_ptr m"
  using assms unfolding threads_ok_def by blast+

definition range_inv :: "range_sys \<Rightarrow> bool" where
  "range_inv s \<longleftrightarrow> tree_ok (rs_tree s) \<and> threads_ok s"

lemma range_inv_init: "range_inv range_sys_init"
  by (simp add: range_inv_def range_sys_init_def range_lock_tree_init_def tree_ok_def threads_ok_def range_locks_def range_waiting_def)

lemma range_inv_tasks:
  "threads_ok s \<Longrightarrow> m \<in> set (rlt_root (rs_tree s)) \<Longrightarrow> rl_blocking_ranges m \<noteq> 0 \<Longrightarrow> rl_task m \<noteq> None"
  by (cases "rl_ptr m \<in> rs_held s") (auto simp: threads_ok_def range_waiting_def range_locks_def)

lemma range_inv_unlock:
  assumes inv: "range_inv s" and it: "range_iter_ok iter" and l: "l \<in> range_locks s"
  obtains woken where "range_unlock iter (rs_tree s) (rl_ptr l) = Some (rs_tree s\<lparr>rlt_root := unlocked l (rlt_root (rs_tree s))\<rparr>, woken)"
    and "set woken = unblocked_threads l (rlt_root (rs_tree s))"
  using range_unlock_eq [OF it _ l [unfolded range_locks_def]] inv range_inv_tasks [of s] that unfolding range_inv_def by blast

lemma threads_ok_unlocked:
  assumes s: "threads_ok s" and ok: "tree_ok (rs_tree s)" and l: "l \<in> range_locks s"
    and s': "s' = s\<lparr>rs_tree := rs_tree s\<lparr>rlt_root := unlocked l (rlt_root (rs_tree s))\<rparr>, rs_held := rs_held s - {rl_ptr l},
      rs_asleep := rs_asleep s - unblocked_threads l (rlt_root (rs_tree s))\<rparr>"
  shows "threads_ok s'"
proof -
  define f where "f = (\<lambda>m. if earlier l m then unblock m else m)"
  have L: "range_locks s' = f ` {m \<in> range_locks s. rl_ptr m \<noteq> rl_ptr l}"
    by (simp add: s' range_locks_def unlocked_def f_def)
  have p [simp]: "rl_ptr (f m) = rl_ptr m" "rl_task (f m) = rl_task m" for m by (simp_all add: f_def)
  have W: "range_waiting s' = f ` {m \<in> range_waiting s. rl_ptr m \<noteq> rl_ptr l}"
    unfolding range_waiting_def L by (auto simp: s')
  have free: "f m = m" if "m \<in> range_locks s" "rl_blocking_ranges m = 0" for m
    using ok l that blockers_remove [of "rlt_root (rs_tree s)" l m]
    by (auto simp: tree_ok_def range_locks_def f_def split: if_splits)
  show ?thesis
  proof (rule threads_okI)
    show "rs_held s' \<subseteq> rl_ptr ` range_locks s'"
      using s unfolding L threads_ok_def by (auto simp: s' image_image)
    show "rl_blocking_ranges k = 0" if k: "k \<in> range_locks s'" "rl_ptr k \<in> rs_held s'" for k
    proof -
      obtain m where m: "k = f m" "m \<in> range_locks s" using k(1) unfolding L by blast
      then have "rl_blocking_ranges m = 0" using k(2) s unfolding threads_ok_def s' by simp
      then show ?thesis using m free by simp
    qed
    show "\<exists>t. rl_task k = Some t \<and> (t \<in> rs_asleep s' \<longrightarrow> rl_blocking_ranges k \<noteq> 0)" if k: "k \<in> range_waiting s'" for k
    proof -
      obtain m where m: "k = f m" "m \<in> range_waiting s" "rl_ptr m \<noteq> rl_ptr l" using k unfolding W by blast
      obtain t where t: "rl_task m = Some t" "t \<in> rs_asleep s \<longrightarrow> rl_blocking_ranges m \<noteq> 0"
        using s m(2) unfolding threads_ok_def by blast
      have "t \<notin> rs_asleep s'" if "earlier l m" "rl_blocking_ranges m = 1"
        using that t(1) m(2,3) unfolding s' unblocked_threads_def range_waiting_def range_locks_def by auto
      then show ?thesis using t m(1) by (auto simp: s' f_def)
    qed
    show "rl_ptr k = rl_ptr k'" if k: "k \<in> range_waiting s'" "k' \<in> range_waiting s'" "rl_task k = rl_task k'" for k k'
    proof -
      obtain m m' where "k = f m" "m \<in> range_waiting s" "k' = f m'" "m' \<in> range_waiting s" using k unfolding W by blast
      then show ?thesis using threads_okD(4) [OF s, of m m'] k(3) by simp
    qed
  qed
qed

lemma range_inv_unlocked:
  assumes "range_inv s" and "l \<in> range_locks s"
  shows "range_inv (s\<lparr>rs_tree := rs_tree s\<lparr>rlt_root := unlocked l (rlt_root (rs_tree s))\<rparr>, rs_held := rs_held s - {rl_ptr l},
      rs_asleep := rs_asleep s - unblocked_threads l (rlt_root (rs_tree s))\<rparr>)"
  using assms threads_ok_unlocked [OF _ _ assms(2) refl] unlocked_ok [of "rs_tree s" l] by (simp add: range_inv_def range_locks_def)

text \<open>One test of the loop condition, for the only thread that waits for the lock.\<close>

definition without :: "range_lock \<Rightarrow> range_sys \<Rightarrow> range_sys" where
  "without l s = s\<lparr>rs_tree := rs_tree s\<lparr>rlt_root := filter (\<lambda>m. rl_ptr m \<noteq> rl_ptr l) (rlt_root (rs_tree s))\<rparr>\<rparr>"

lemma without_simps [simp]:
  "range_locks (without l s) = {m \<in> range_locks s. rl_ptr m \<noteq> rl_ptr l}" "rs_held (without l s) = rs_held s"
  "rs_asleep (without l s) = rs_asleep s" "range_waiting (without l s) = {m \<in> range_waiting s. rl_ptr m \<noteq> rl_ptr l}"
  by (auto simp: without_def range_locks_def range_waiting_def)

lemmas threads_withoutD = threads_okD [of "without l s" for l s, unfolded without_simps]

lemma ptr_same_lock:
  "tree_ok (rs_tree s) \<Longrightarrow> l \<in> range_locks s \<Longrightarrow> m \<in> range_locks s \<Longrightarrow> rl_ptr m = rl_ptr l \<Longrightarrow> m = l"
  by (auto simp: tree_ok_def range_locks_def distinct_map inj_on_def)

lemma threads_ok_hold:
  assumes ok: "tree_ok (rs_tree s)" and l: "l \<in> range_locks s" "rl_blocking_ranges l = 0" and rest: "threads_ok (without l s)"
  shows "threads_ok (s\<lparr>rs_held := insert (rl_ptr l) (rs_held s)\<rparr>)" (is "threads_ok ?s")
proof (rule threads_okI)
  note R = threads_withoutD [OF rest]
  have s: "range_locks ?s = range_locks s" "range_waiting ?s = {m \<in> range_waiting s. rl_ptr m \<noteq> rl_ptr l}"
    by (auto simp: range_locks_def range_waiting_def)
  show "rs_held ?s \<subseteq> rl_ptr ` range_locks ?s" using R(1) l(1) unfolding s by auto
  show "rl_blocking_ranges k = 0" if "k \<in> range_locks ?s" "rl_ptr k \<in> rs_held ?s" for k
    using that ptr_same_lock [OF ok l(1)] l(2) R(2) unfolding s by (cases "rl_ptr k = rl_ptr l") auto
  show "\<exists>t. rl_task k = Some t \<and> (t \<in> rs_asleep ?s \<longrightarrow> rl_blocking_ranges k \<noteq> 0)" if "k \<in> range_waiting ?s" for k
    using that R(3) [of k] unfolding s by simp
  show "rl_ptr k = rl_ptr k'" if "k \<in> range_waiting ?s" "k' \<in> range_waiting ?s" "rl_task k = rl_task k'" for k k'
    using that R(4) [of k k'] unfolding s by simp
qed

lemma threads_ok_sleep:
  assumes ok: "tree_ok (rs_tree s)" and l: "l \<in> range_locks s" "rl_ptr l \<notin> rs_held s" "rl_blocking_ranges l \<noteq> 0"
    and rest: "threads_ok (without l s)" and t: "\<forall>m\<in>range_waiting s. rl_ptr m \<noteq> rl_ptr l \<longrightarrow> rl_task m \<noteq> Some t"
    and s': "s' = s\<lparr>rs_tree := rs_tree s\<lparr>rlt_root := with_task (rl_ptr l) t (rlt_root (rs_tree s))\<rparr>, rs_asleep := insert t (rs_asleep s)\<rparr>"
  shows "threads_ok s'"
proof (rule threads_okI)
  note R = threads_withoutD [OF rest]
  let ?f = "\<lambda>m. if rl_ptr m = rl_ptr l then m\<lparr>rl_task := Some t\<rparr> else m"
  have L: "range_locks s' = ?f ` range_locks s" by (simp add: s' range_locks_def with_task_def)
  have W: "range_waiting s' = ?f ` range_waiting s" unfolding range_waiting_def L by (auto simp: s')
  show "rs_held s' \<subseteq> rl_ptr ` range_locks s'" using R(1) unfolding L by (auto simp: s' image_image)
  show "rl_blocking_ranges k = 0" if k: "k \<in> range_locks s'" "rl_ptr k \<in> rs_held s'" for k
  proof -
    obtain m where "k = ?f m" "m \<in> range_locks s" using k(1) unfolding L by blast
    then show ?thesis using R(2) [of m] k(2) l(2) by (auto simp: s' split: if_splits)
  qed
  show "\<exists>t. rl_task k = Some t \<and> (t \<in> rs_asleep s' \<longrightarrow> rl_blocking_ranges k \<noteq> 0)" if k: "k \<in> range_waiting s'" for k
  proof -
    obtain m where m: "k = ?f m" "m \<in> range_waiting s" using k unfolding W by blast
    show ?thesis
    proof (cases "rl_ptr m = rl_ptr l")
      case True
      then have "m = l" using ptr_same_lock [OF ok l(1)] m(2) by (simp add: range_waiting_def)
      then show ?thesis using m(1) l(3) by simp
    next
      case False
      then show ?thesis using R(3) [of m] m t by (auto simp: s')
    qed
  qed
  show "rl_ptr k = rl_ptr k'" if k: "k \<in> range_waiting s'" "k' \<in> range_waiting s'" "rl_task k = rl_task k'" for k k'
  proof -
    obtain m m' where "k = ?f m" "m \<in> range_waiting s" "k' = ?f m'" "m' \<in> range_waiting s" using k unfolding W by blast
    then show ?thesis using R(4) [of m m'] t k(3) by (auto split: if_splits)
  qed
qed

lemma range_inv_test:
  assumes ok: "tree_ok (rs_tree s)" and l: "l \<in> range_locks s" "rl_ptr l \<notin> rs_held s" and rest: "threads_ok (without l s)"
    and t: "\<forall>m\<in>range_waiting s. rl_ptr m \<noteq> rl_ptr l \<longrightarrow> rl_task m \<noteq> Some t"
    and test: "range_lock_test (rs_tree s) (rl_ptr l) t = Some (tree', out)"
  shows "range_inv (after_return (rl_ptr l) t out (s\<lparr>rs_tree := tree'\<rparr>))"
proof -
  have d: "distinct (map rl_ptr (rlt_root (rs_tree s)))" using ok by (simp add: tree_ok_def)
  note e = range_lock_test_eq [OF d l(1) [unfolded range_locks_def], of t]
  show ?thesis
  proof (cases "rl_blocking_ranges l = 0")
    case True
    then have "tree' = rs_tree s" "out = RL_RETURN 0" using test e by simp_all
    then show ?thesis using ok threads_ok_hold [OF ok l(1) True rest] by (simp add: after_return_def range_inv_def)
  next
    case False
    then have "after_return (rl_ptr l) t out (s\<lparr>rs_tree := tree'\<rparr>) =
        s\<lparr>rs_tree := rs_tree s\<lparr>rlt_root := with_task (rl_ptr l) t (rlt_root (rs_tree s))\<rparr>, rs_asleep := insert t (rs_asleep s)\<rparr>"
      using test e by (simp add: after_return_def)
    then show ?thesis
      using threads_ok_sleep [OF ok l False rest t refl] with_task_ok [OF ok] by (simp add: range_inv_def)
  qed
qed

section \<open>Runs\<close>

lemma range_lock_init_ok: "start \<le> stop \<Longrightarrow> rl_start (range_lock_init sh p start stop) \<le> rl_end (range_lock_init sh p start stop)"
  by (simp add: range_lock_init_def drop_bit_mono_u64 LUSTRE_EOF_max)

lemma threads_ok_without:
  assumes "threads_ok s" and "rl_ptr l \<notin> rs_held s"
  shows "threads_ok (without l s)"
proof (rule threads_okI)
  note T = threads_okD [OF assms(1)]
  show "rs_held (without l s) \<subseteq> rl_ptr ` range_locks (without l s)"
  proof
    fix q assume "q \<in> rs_held (without l s)"
    then have "q \<in> rs_held s" "q \<noteq> rl_ptr l" using assms(2) by auto
    then show "q \<in> rl_ptr ` range_locks (without l s)" using T(1) by auto
  qed
  show "rl_blocking_ranges k = 0" if "k \<in> range_locks (without l s)" "rl_ptr k \<in> rs_held (without l s)" for k
    using that T(2) by simp
  show "\<exists>t. rl_task k = Some t \<and> (t \<in> rs_asleep (without l s) \<longrightarrow> rl_blocking_ranges k \<noteq> 0)" if "k \<in> range_waiting (without l s)" for k
    using that T(3) by simp
  show "rl_ptr k = rl_ptr k'" if "k \<in> range_waiting (without l s)" "k' \<in> range_waiting (without l s)" "rl_task k = rl_task k'" for k k'
    using that T(4) [of k k'] by simp
qed

lemma range_inv_enter:
  assumes inv: "range_inv s" and it: "range_iter_ok iter" and p: "p \<notin> rl_ptr ` range_locks s"
    and t: "\<forall>l\<in>range_waiting s. rl_task l \<noteq> Some t" and "start \<le> stop"
    and b: "length (rlt_root (rs_tree s)) < 2 ^ 32 - 1" "unat (rlt_sequence (rs_tree s)) < 2 ^ 64 - 1"
    and e: "range_lock_enter iter (rs_tree s) (range_lock_init sh p start stop) t = Some (tree', out)"
  shows "range_inv (after_return p t out (s\<lparr>rs_tree := tree'\<rparr>))"
proof -
  define lock where "lock = range_lock_init sh p start stop"
  have lock: "rl_ptr lock = p" "rl_blocking_ranges lock = 0" "rl_start lock \<le> rl_end lock"
    using range_lock_init_ok [OF assms(5)] by (simp_all add: lock_def range_lock_init_def)
  define q where "q = queued lock (rs_tree s)"
  have q: "rl_ptr q = p" by (simp add: q_def queued_def lock(1))
  define s1 where "s1 = s\<lparr>rs_tree := (rs_tree s)\<lparr>rlt_root := q # rlt_root (rs_tree s), rlt_sequence := rlt_sequence (rs_tree s) + 1\<rparr>\<rparr>"
  have s1: "range_locks s1 = insert q (range_locks s)" "rs_held s1 = rs_held s" "rs_asleep s1 = rs_asleep s" by (simp_all add: s1_def range_locks_def)
  have tree: "tree_ok (rs_tree s)" and th: "threads_ok s" using inv by (simp_all add: range_inv_def)
  have held: "p \<notin> rs_held s" using threads_okD(1) [OF th] p by blast
  have "range_inv (after_return (rl_ptr q) t out (s1\<lparr>rs_tree := tree'\<rparr>))"
  proof (rule range_inv_test)
    show "tree_ok (rs_tree s1)"
      using queued_ok [OF tree _ lock(3) b] p unfolding s1_def q_def by (simp add: lock(1) range_locks_def)
    show "q \<in> range_locks s1" "rl_ptr q \<notin> rs_held s1" using held by (simp_all add: s1 q)
    have "rl_ptr m \<noteq> rl_ptr q" if "m \<in> range_locks s" for m using p q that by (metis imageI)
    then have same: "range_locks (without q s1) = range_locks s" "range_waiting (without q s1) = range_waiting s"
      by (auto simp: s1 range_waiting_def)
    show "threads_ok (without q s1)"
      using th unfolding threads_ok_def same without_simps(2,3) s1(2,3) .
    show "\<forall>m\<in>range_waiting s1. rl_ptr m \<noteq> rl_ptr q \<longrightarrow> rl_task m \<noteq> Some t"
      using t by (auto simp: range_waiting_def s1)
    show "range_lock_test (rs_tree s1) (rl_ptr q) t = Some (tree', out)"
      using e range_lock_enter_eq [OF it tree lock(2,3), of t] unfolding lock_def [symmetric] by (simp add: s1_def q_def lock(1) queued_def)
  qed
  then show ?thesis by (simp add: q s1_def after_return_def split: range_out.splits)
qed

lemma range_inv_resume:
  assumes inv: "range_inv s" and it: "range_iter_ok iter" and l: "l \<in> range_waiting s" "rl_task l = Some t"
    and r: "range_lock_resume iter (rs_tree s) (rl_ptr l) t fatal_signal = Some (tree', woken, out)"
  shows "range_inv (after_return (rl_ptr l) t out (s\<lparr>rs_tree := tree', rs_asleep := rs_asleep s - set woken\<rparr>))"
proof -
  have L: "l \<in> range_locks s" "rl_ptr l \<notin> rs_held s" using l(1) by (simp_all add: range_waiting_def)
  have tree: "tree_ok (rs_tree s)" and th: "threads_ok s" using inv by (simp_all add: range_inv_def)
  show ?thesis
  proof (cases fatal_signal)
    case True
    obtain w where "range_unlock iter (rs_tree s) (rl_ptr l) = Some (rs_tree s\<lparr>rlt_root := unlocked l (rlt_root (rs_tree s))\<rparr>, w)"
      "set w = unblocked_threads l (rlt_root (rs_tree s))"
      using range_inv_unlock [OF inv it L(1)] .
    then have "tree' = rs_tree s\<lparr>rlt_root := unlocked l (rlt_root (rs_tree s))\<rparr>" "out = RL_RETURN (- ERESTARTSYS)"
      "set woken = unblocked_threads l (rlt_root (rs_tree s))"
      using r True by (auto simp: range_lock_resume_def)
    then show ?thesis using range_inv_unlocked [OF inv L(1)] L(2) by (simp add: after_return_def ERESTARTSYS_def)
  next
    case False
    then have "woken = []" "range_lock_test (rs_tree s) (rl_ptr l) t = Some (tree', out)"
      using r by (auto simp: range_lock_resume_def split: bind_splits)
    moreover have "\<forall>m\<in>range_waiting s. rl_ptr m \<noteq> rl_ptr l \<longrightarrow> rl_task m \<noteq> Some t"
      using threads_okD(4) [OF th _ l(1)] l(2) by metis
    ultimately show ?thesis using range_inv_test [OF tree L threads_ok_without [OF th L(2)]] by simp
  qed
qed

lemma range_inv_wakeup: "range_inv s \<Longrightarrow> range_inv (s\<lparr>rs_asleep := rs_asleep s - {t}\<rparr>)"
  unfolding range_inv_def threads_ok_def range_waiting_def range_locks_def by (auto; blast)

theorem range_step_inv: "range_step sh iter s s' \<Longrightarrow> range_iter_ok iter \<Longrightarrow> range_inv s \<Longrightarrow> range_inv s'"
proof (induction rule: range_step.induct)
  case (enter p s t start stop tree' out)
  then show ?case by (intro range_inv_enter)
next
  case (unlock p s tree' woken)
  then obtain l where l: "l \<in> range_locks s" "p = rl_ptr l" unfolding range_inv_def threads_ok_def by blast
  obtain w where "range_unlock iter (rs_tree s) (rl_ptr l) = Some (rs_tree s\<lparr>rlt_root := unlocked l (rlt_root (rs_tree s))\<rparr>, w)"
    "set w = unblocked_threads l (rlt_root (rs_tree s))"
    using range_inv_unlock [OF unlock.prems(2,1) l(1)] .
  then show ?case using range_inv_unlocked [OF unlock.prems(2) l(1)] unlock.hyps(2) l(2) by simp
next
  case (wakeup s t)
  then show ?case by (simp add: range_inv_wakeup)
next
  case (resume l s t fatal_signal tree' woken out)
  then show ?case by (intro range_inv_resume)
qed

lemma range_reachable_inv:
  "(range_step sh iter)\<^sup>*\<^sup>* range_sys_init s \<Longrightarrow> range_iter_ok iter \<Longrightarrow> range_inv s"
  by (induction rule: rtranclp_induct) (auto intro: range_inv_init range_step_inv)

section \<open>What the invariant gives\<close>

lemma blockers_0: "tree_ok tree \<Longrightarrow> l \<in> set (rlt_root tree) \<Longrightarrow>
    rl_blocking_ranges l = 0 \<longleftrightarrow> (\<forall>m\<in>set (rlt_root tree). \<not> earlier m l)"
  by (auto simp: tree_ok_def blockers_def filter_empty_conv simp flip: unat_eq_zero)

lemma range_inv_exclusive:
  assumes "range_inv s" and l: "l \<in> range_locks s" "m \<in> range_locks s" "rl_ptr l \<noteq> rl_ptr m"
    and h: "rl_ptr l \<in> rs_held s" "rl_ptr m \<in> rs_held s"
  shows "\<not> range_overlap l m"
proof
  assume o: "range_overlap l m"
  have tree: "tree_ok (rs_tree s)" and z: "rl_blocking_ranges l = 0" "rl_blocking_ranges m = 0"
    using assms by (auto simp: range_inv_def threads_ok_def)
  have "rl_sequence l \<noteq> rl_sequence m" using tree l by (auto simp: tree_ok_def range_locks_def inj_on_def)
  then have "earlier l m \<or> earlier m l" using o by (auto simp: earlier_def range_overlap_def)
  then show False using blockers_0 [OF tree] z l(1,2) unfolding range_locks_def by blast
qed

lemma range_inv_progress:
  assumes inv: "range_inv s" and l: "l \<in> range_waiting s"
  shows "\<exists>t. rl_task l = Some t \<and> ((\<exists>m\<in>range_locks s. earlier m l) \<or>
    t \<notin> rs_asleep s \<and> range_lock_resume iter (rs_tree s) (rl_ptr l) t False = Some (rs_tree s, [], RL_RETURN 0))"
proof -
  have tree: "tree_ok (rs_tree s)" and L: "l \<in> set (rlt_root (rs_tree s))"
    using inv l by (auto simp: range_inv_def range_waiting_def range_locks_def)
  then have d: "distinct (map rl_ptr (rlt_root (rs_tree s)))" by (simp add: tree_ok_def)
  obtain t where t: "rl_task l = Some t" "t \<in> rs_asleep s \<longrightarrow> rl_blocking_ranges l \<noteq> 0"
    using inv l unfolding range_inv_def threads_ok_def by blast
  show ?thesis
    using t blockers_0 [OF tree L] range_lock_test_eq [OF d L, of t] by (auto simp: range_locks_def range_lock_resume_def)
qed

end
