(* ===== verification/Range_Lock_Properties.thy ===== *)
theory Range_Lock_Properties
  imports Range_Lock_Correct
begin

text \<open>
  The properties of the range locks: exclusion and order, progress without lost wakeups, and the pages a byte range locks.
\<close>

section \<open>A small run\<close>

text \<open>The threads 1, 2 and 3 take the pages 0 to 1, 4 to 5 and 1 to 4: the first two hold their locks, the third waits for both.\<close>

definition list_iter :: range_iter where
  "list_iter ls s e = filter (\<lambda>l. rl_start l \<le> e \<and> s \<le> rl_end l) ls"

lemma list_iter_ok: "range_iter_ok list_iter"
  unfolding range_iter_ok_def list_iter_def by (auto simp: distinct_map_filter)

definition wit_enter :: "nat \<Rightarrow> u64 \<Rightarrow> u64 \<Rightarrow> range_sys \<Rightarrow> range_sys" where
  "wit_enter t start stop s = (case range_lock_enter list_iter (rs_tree s) (range_lock_init 12 t start stop) t of
     Some (tree', out) \<Rightarrow> after_return t t out (s\<lparr>rs_tree := tree'\<rparr>) | None \<Rightarrow> s)"

definition wit_two :: range_sys where
  "wit_two = wit_enter 2 16384 24575 (wit_enter 1 0 8191 range_sys_init)"

definition wit_three :: range_sys where
  "wit_three = wit_enter 3 8000 17000 wit_two"

definition wit_lock :: "range_sys \<Rightarrow> nat \<Rightarrow> range_lock" where
  "wit_lock s i = rlt_root (rs_tree s) ! i"

lemma wit_enter_step:
  assumes "t \<notin> rl_ptr ` range_locks s" and "\<forall>l\<in>range_waiting s. rl_task l \<noteq> Some t" and "start \<le> stop"
    and "length (rlt_root (rs_tree s)) < 10" and "rlt_sequence (rs_tree s) < 10"
    and "range_lock_enter list_iter (rs_tree s) (range_lock_init 12 t start stop) t \<noteq> None"
  shows "range_step 12 list_iter s (wit_enter t start stop s)"
proof -
  have "length (rlt_root (rs_tree s)) < 2 ^ 32 - 1" and "unat (rlt_sequence (rs_tree s)) < 2 ^ 64 - 1"
    using assms(4,5) by (simp_all add: word_less_nat_alt)
  from range_step.enter [OF assms(1-3) this] assms(6) show ?thesis unfolding wit_enter_def by (auto split: prod.splits)
qed

lemma wit_two_reachable: "(range_step 12 list_iter)\<^sup>*\<^sup>* range_sys_init wit_two"
proof -
  have "range_step 12 list_iter range_sys_init (wit_enter 1 0 8191 range_sys_init)"
    by (rule wit_enter_step) code_simp+
  moreover have "range_step 12 list_iter (wit_enter 1 0 8191 range_sys_init) wit_two"
    unfolding wit_two_def by (rule wit_enter_step) code_simp+
  ultimately show ?thesis by (meson rtranclp.rtrancl_into_rtrancl rtranclp.rtrancl_refl)
qed

lemma wit_three_reachable: "(range_step 12 list_iter)\<^sup>*\<^sup>* range_sys_init wit_three"
proof (rule rtranclp.rtrancl_into_rtrancl [OF wit_two_reachable])
  show "range_step 12 list_iter wit_two wit_three"
    unfolding wit_three_def by (rule wit_enter_step) code_simp+
qed

section \<open>Properties\<close>

text \<open>
  C4: In every reachable state, whatever the threads, wakeups and signals did, and as long as the counters do not wrap, two locks that are held cover no common page, and a held lock
  overlaps no lock that was queued before it: locks are granted in the order of their arrival.
\<close>

theorem range_lock_exclusive:
  assumes "range_iter_ok iter" and "(range_step page_shift iter)\<^sup>*\<^sup>* range_sys_init s"
    and "l \<in> range_locks s" and "rl_ptr l \<in> rs_held s" and "m \<in> range_locks s" and "rl_ptr m \<noteq> rl_ptr l"
  shows "(rl_ptr m \<in> rs_held s \<longrightarrow> \<not> (\<exists>page. rl_start l \<le> page \<and> page \<le> rl_end l \<and> rl_start m \<le> page \<and> page \<le> rl_end m)) \<and>
    \<not> (rl_sequence m < rl_sequence l \<and> range_overlap m l)"
proof -
  have inv: "range_inv s" using range_reachable_inv [OF assms(2,1)] .
  then have "rl_blocking_ranges l = 0" using assms(3,4) by (simp add: range_inv_def threads_ok_def)
  then have "\<not> earlier m l"
    using inv blockers_0 [of "rs_tree s" l] assms(3,5) by (simp add: range_inv_def range_locks_def)
  moreover have "\<not> range_overlap l m" if "rl_ptr m \<in> rs_held s"
    using range_inv_exclusive [OF inv assms(3,5) assms(6) [symmetric] assms(4) that] .
  ultimately show ?thesis unfolding earlier_def range_overlap_def by (meson order_trans)
qed

theorem range_lock_exclusive_witness:
  "\<not> (\<exists>page. rl_start (wit_lock wit_two 0) \<le> page \<and> page \<le> rl_end (wit_lock wit_two 0) \<and>
     rl_start (wit_lock wit_two 1) \<le> page \<and> page \<le> rl_end (wit_lock wit_two 1))"
proof -
  have "wit_lock wit_two 0 \<in> range_locks wit_two" "wit_lock wit_two 1 \<in> range_locks wit_two"
    "rl_ptr (wit_lock wit_two 0) \<in> rs_held wit_two" "rl_ptr (wit_lock wit_two 1) \<in> rs_held wit_two"
    "rl_ptr (wit_lock wit_two 1) \<noteq> rl_ptr (wit_lock wit_two 0)"
    by code_simp+
  then show ?thesis using range_lock_exclusive [OF list_iter_ok wit_two_reachable] by blast
qed

text \<open>
  C9: No wakeup is lost and no thread starves behind a lock that is gone. In every reachable state a lock that is not held is either behind an
  overlapping lock of the tree with a smaller sequence number, or its thread is awake and its next turn of the loop returns 0. The lock
  with the smallest number therefore always gets its turn. Releasing or abandoning a lock of the tree never wakes the thread NULL.
\<close>

theorem range_lock_progress:
  assumes "range_iter_ok iter" and "(range_step page_shift iter)\<^sup>*\<^sup>* range_sys_init s" and "l \<in> range_locks s"
  shows "(rl_ptr l \<notin> rs_held s \<longrightarrow> (\<exists>t. rl_task l = Some t \<and>
      ((\<exists>m\<in>range_locks s. rl_sequence m < rl_sequence l \<and> range_overlap m l) \<or>
       t \<notin> rs_asleep s \<and> range_lock_resume iter (rs_tree s) (rl_ptr l) t False = Some (rs_tree s, [], RL_RETURN 0)))) \<and>
    range_unlock iter (rs_tree s) (rl_ptr l) \<noteq> None"
proof -
  have inv: "range_inv s" using range_reachable_inv [OF assms(2,1)] .
  obtain woken where "range_unlock iter (rs_tree s) (rl_ptr l) = Some (rs_tree s\<lparr>rlt_root := unlocked l (rlt_root (rs_tree s))\<rparr>, woken)"
    using range_inv_unlock [OF inv assms(1,3)] .
  then show ?thesis
    using range_inv_progress [OF inv, of l iter] assms(3) unfolding range_waiting_def earlier_def by auto
qed

theorem range_lock_progress_witness:
  "(\<exists>t. rl_task (wit_lock wit_three 0) = Some t \<and>
      ((\<exists>m. m \<in> range_locks wit_three \<and> rl_sequence m < rl_sequence (wit_lock wit_three 0) \<and> range_overlap m (wit_lock wit_three 0)) \<or>
       t \<notin> rs_asleep wit_three \<and>
       range_lock_resume list_iter (rs_tree wit_three) (rl_ptr (wit_lock wit_three 0)) t False = Some (rs_tree wit_three, [], RL_RETURN 0))) \<and>
    range_unlock list_iter (rs_tree wit_three) (rl_ptr (wit_lock wit_three 0)) \<noteq> None"
proof -
  have "wit_lock wit_three 0 \<in> range_locks wit_three" "rl_ptr (wit_lock wit_three 0) \<notin> rs_held wit_three" by code_simp+
  then show ?thesis using range_lock_progress [OF list_iter_ok wit_three_reachable] by blast
qed

text \<open>
  Locks for byte ranges that share a byte overlap, also when one of them runs to the end of the file, so that two writers of a
  byte are kept apart.
\<close>

theorem range_lock_init_pages:
  assumes "start \<le> byte" and "byte \<le> stop" and "start' \<le> byte" and "byte \<le> stop'"
  shows "range_overlap (range_lock_init page_shift p start stop) (range_lock_init page_shift q start' stop')"
proof -
  have "drop_bit page_shift a \<le> rl_end (range_lock_init page_shift r b c)" if "a \<le> byte" "byte \<le> c" for a b c r
    using drop_bit_mono_u64 [OF order_trans [OF that], of page_shift] by (simp add: range_lock_init_def)
  then show ?thesis using assms by (simp add: range_overlap_def range_lock_init_def)
qed

theorem range_lock_init_pages_witness:
  "range_overlap (range_lock_init 12 1 0 8191) (range_lock_init 12 2 8000 LUSTRE_EOF)"
  by (rule range_lock_init_pages [of _ 8191]) simp_all

end
