(* ===== verification/Spec2Isabelle.thy ===== *)
theory Spec2Isabelle
  imports Fld_Properties Fld_Service_Properties Tgt_Grant_Properties Lov_Properties Seq_Properties Ldlm_Flock_Properties Range_Lock_Properties
begin

text \<open>
  A verification library for parts of the Lustre file system. File names are relative to \<^verbatim>\<open>src/\<close>.

  \<^bold>\<open>The program.\<close> Lustre spreads a file system over servers. Every object has an identifier (FID): a 64-bit sequence and a number
  in it. A \<^emph>\<open>sequence controller\<close> gives super-sequences to the sequence servers, a server gives meta-sequences to clients, a
  client numbers objects within its sequence. The \<^emph>\<open>FID location database\<close> (FLD) maps sequences to the server that holds them; clients
  and servers cache it. File data is \<^emph>\<open>striped\<close> over objects by the LOV layer. A client may write back later because
  the server \<^emph>\<open>grants\<close> it space in advance. \<^emph>\<open>POSIX locks\<close> of applications are decided by the lock manager of the server, and
  \<^emph>\<open>range locks\<close> order the writers of a file within a client.

  \<^bold>\<open>Conventions\<close> (\<open>Prelude\<close>). Machine integers are words of their width, so sums and differences wrap as in C. A failed
  \<^verbatim>\<open>LASSERT\<close> or \<^verbatim>\<open>LBUG\<close> is \<^term>\<open>None\<close>; error numbers are negative integers. Structures are records with the fields the modelled functions
  use, a pointer is a natural number, a linked list is a list of records with an address. A spin lock or semaphore makes the code
  it protects one step. What comes from outside (allocators, the storage layer, the RPC layer, the interval tree and the string parser of
  the kernel, what other threads do while a lock is dropped) is an argument of the definitions.

  \<^bold>\<open>Sequence ranges\<close> (\<open>Seq_Range\<close>): \<^verbatim>\<open>lustre/include/seq_range.h\<close>, half-open ranges of sequences. They are used by the next three parts.

  \<^bold>\<open>FLD cache\<close> (\<open>Fld_Cache\<close>): \<^verbatim>\<open>lustre/fld/fld_cache.c\<close>. The state is the sorted list of entries, the list in order of use, and the sizes; there is
  one definition per function: insertion with its overlap and punch-hole cases, the fix-up of neighbours, deletion, flush, shrink, lookup.
  \<open>Fld_Correct\<close> has the list invariant and the owner function, the abstract view of the list. \<open>Fld_Insert\<close> shows that insertion
  overrides the owner function on the range. \<open>Fld_Interface\<close> is the contract \<open>seq_cache\<close>, interpreted for the cache: along
  any sequence of operations with true locations the cache never answers wrongly. \<open>Fld_Properties\<close> has the properties.

  \<^bold>\<open>FLD service\<close> (\<open>Fld_Rpc\<close>, \<open>Fld_Index\<close>, \<open>Fld_Server\<close>, \<open>Fld_Client\<close>): \<^verbatim>\<open>lustre/fld/fld_index.c\<close>, \<^verbatim>\<open>fld_handler.c\<close> and \<^verbatim>\<open>fld_request.c\<close>, with
  \<^verbatim>\<open>target_name2index\<close> of \<^verbatim>\<open>lustre/obdclass/obd_mount.c\<close>. The state of a server is its index on disk, a list of records in the order of their keys, and its cache; that
  of a client is its list of targets and its cache. A remote call is given the list of what its attempts meet. The code repeats an attempt
  without a limit: a list that is used up means that the call has not returned, and is \<^term>\<open>None\<close>. An insertion into the index fails
  with \<^verbatim>\<open>-EEXIST\<close> when the key is there. The cache of a server may be smaller than its index: \<open>db_sound\<close> says that the cache says nothing that the index does not say, \<open>db_ok\<close> that
  they agree. \<open>Fld_Service\<close> shows that an insertion keeps the first, and the second when the cache has room; \<open>Fld_Reload\<close> that the cache is filled from the index and what a shrink drops; \<open>Fld_Lookup\<close>
  has the lookups of server and client, puts the two together, and shows that the special ranges of MDT0 are not stored twice; \<open>Fld_Service_Properties\<close> has the properties.

  \<^bold>\<open>Sequence manager\<close> (\<open>Seq_Store\<close>, \<open>Seq_Server\<close>, \<open>Seq_Client\<close>): \<^verbatim>\<open>lustre/fid/fid_store.c\<close>, \<^verbatim>\<open>fid_handler.c\<close>, \<^verbatim>\<open>fid_request.c\<close>. The
  state is the manager, its record on disk and the write that is not committed yet, so that a crash loses exactly that write.
  \<open>Seq_Allocator\<close> is the contract \<open>allocator\<close> (what is given away was free and is not free any more, through commits, crashes and
  restarts), with the controller as its first instance; \<open>Seq_Site\<close> and \<open>Seq_Client\<close> interpret it for the server and the client. A transaction can fail
  in every call, also when it is stopped; \<^verbatim>\<open>seq_store_update\<close> drops that last status, so the contract holds for runs in which \<^verbatim>\<open>dt_trans_stop\<close> succeeds, and a lemma shows what a failure does. The restart
  loop of the server is a list of attempts, and it is proved that two are enough. \<open>Seq_Properties\<close> has the properties.

  \<^bold>\<open>Striping\<close> (\<open>Lov_Stripe\<close>): \<^verbatim>\<open>lustre/lov/lov_offset.c\<close>, \<^verbatim>\<open>lov_merge.c\<close> and helpers of \<^verbatim>\<open>lov_internal.h\<close>. \<open>Lov_Reference\<close> relates
  them to a reference on natural numbers, under bounds that exclude overflow: the \<open>n\<close>-th byte is in row \<open>n div (c * s)\<close> of \<open>c\<close> stripes of
  \<open>s\<close> bytes. \<open>Lov_Properties\<close> has round trips, exact intersections and the merge of object sizes.

  \<^bold>\<open>Grants\<close> (\<open>Tgt_Grant\<close>): \<^verbatim>\<open>lustre/target/tgt_grant.c\<close>, the counters of each export and their totals, with the C conversions between signed and
  unsigned words. \<open>Tgt_Grant_Accounting\<close> shows for each operation that the totals move as the export does. \<open>Tgt_Grant_Machine\<close> has the
  contract \<open>grant_operation\<close> and the runs of a target: requests, commit callbacks, new, unlinked and discarded exports. A discard that finds a total too small counts the totals again over the live
  exports only; each step of a run carries what such a recount left out, and the totals are short by exactly that. A request is one step, under the hypothesis that other threads leave the totals alone while
  the storage layer computes its statistics.
  \<open>Tgt_Grant_Bounds\<close> bounds what a request can get. \<open>Tgt_Grant_Properties\<close> has the properties.

  \<^bold>\<open>POSIX locks\<close> (\<open>Ldlm_Mode\<close>, \<open>Ldlm_Flock\<close>): the lock modes of \<^verbatim>\<open>lustre/include/lustre_dlm.h\<close>, and of \<^verbatim>\<open>lustre/ldlm/ldlm_flock.c\<close> the policy
  function \<^verbatim>\<open>ldlm_process_flock_lock\<close> with the search for deadlocks, and \<^verbatim>\<open>ldlm_reprocess_queue\<close> of \<^verbatim>\<open>ldlm_lock.c\<close>. The state is the
  granted and the waiting queue, the request, and the work list of callbacks. The loop over the own locks is \<open>flock_own_loop\<close>; the function
  restarts at most once for a split, because \<open>new2\<close> is there in the second pass, so two passes are written out. The search for deadlocks may run forever in the code:
  it takes fuel, running out of it is \<^term>\<open>None\<close>, as is a blocked lock without the export it waits for, which the code would dereference, and as many units as there are blocked locks and one more are shown to be enough when these do not form
  a cycle. \<open>Ldlm_Flock_Ranges\<close> and \<open>Ldlm_Flock_Loop\<close> have the invariant of the loop, \<open>Ldlm_Flock_Correct\<close> the specification \<open>posix_grant\<close>
  on bytes, \<open>Ldlm_Flock_Process\<close> the grant, \<open>Ldlm_Flock_Wake\<close> the queue after an unlock, \<open>Ldlm_Flock_Requests\<close> the conflicts,
  \<open>Ldlm_Flock_Deadlock\<close> the search, \<open>Ldlm_Flock_Properties\<close> the properties.

  \<^bold>\<open>Range locks\<close> (\<open>Range_Lock\<close>): \<^verbatim>\<open>lustre/obdclass/range_lock.c\<close>, the tree with its counters and the threads that sleep. \<^verbatim>\<open>range_lock\<close> is cut
  at \<^verbatim>\<open>schedule()\<close>, and \<open>range_step\<close> interleaves threads, wakeups and signals. \<open>Range_Lock_Correct\<close> has the invariant,
  \<open>Range_Lock_Properties\<close> exclusion, progress and the pages of a byte range.

  \<^bold>\<open>What the hypotheses are.\<close> Interval trees return the overlapping nodes, each once. Statistics of the storage layer do not change the totals. What other
  threads do to a lock resource while it is unlocked keeps its queues. When an own lock has to be split, no other own lock is one byte away from the request; without that, two owners can lock a byte, which is a
  theorem as well. Waiting owners hold no lock of the resource when an unlock wakes them; a lemma shows that a lock turned from write to read wakes up nobody. Counters of range locks do not wrap. Each property with
  hypotheses has a witness at a concrete input.

  \<^bold>\<open>What went wrong.\<close> Several theorems show inputs on which the code stops at an assertion, gives a range out twice, loses the type of a range, reports a deadlock
  that is none, does not find a sequence that is stored, does not return, or lets two owners lock a byte. Their text blocks name the lines of code concerned or the input.

  \<^bold>\<open>Not modelled.\<close> Reference counts and memory, debug output, sysfs and debugfs files, and module setup, which hold no state of the modelled parts.
  The completion callbacks of POSIX locks on the client, which wait for replies and call the VFS. The other lock types, the recovery log, the RPC layer, the client page cache, the
  metadata and object servers, the storage back ends, the consistency checker, LNet and the utilities: their behaviour is made of threads, network and
  disk events and of kernel services rather than of functions on their own state.
\<close>

end
